(* ===== verification/Prelude.thy ===== *)
theory Prelude
  imports Main "HOL-Library.Word" "HOL-Library.Finite_Map" "HOL-Library.Monad_Syntax"
begin

text \<open>
  Shared vocabulary of the development: the machine types of the Rust sources, time, keyed
  stores, and the generic facts on lists and words the component theories rely on.

  \<^item> Unsigned integers keep their width (\<open>u32\<close>, \<open>u64\<close> are words, so \<open>+\<close> wraps as a release build
    does); \<open>usize\<close> lengths are \<open>nat\<close>.
  \<^item> \<open>std::time::Instant\<close> and \<open>Duration\<close> are counted in nanoseconds as \<open>nat\<close>; \<open>duration_since\<close>
    of an earlier instant is 0, which is what subtraction on \<open>nat\<close> gives.
  \<^item> Hash maps (\<open>HashMap\<close>, \<open>DashMap\<close>) are finite maps; the locale \<open>keyed_store\<close> states the laws of
    the operations the sources use and is interpreted on the definitions below.
\<close>

section \<open>Machine types and time\<close>

type_synonym u16 = "16 word"
type_synonym u32 = "32 word"
type_synonym u64 = "64 word"
type_synonym uuid = nat
type_synonym instant = nat
type_synonym duration = nat

definition from_millis :: "nat \<Rightarrow> duration" where
  "from_millis n = n * 1000000"

definition from_secs :: "nat \<Rightarrow> duration" where
  "from_secs n = n * 1000000000"

definition duration_since :: "instant \<Rightarrow> instant \<Rightarrow> duration" where
  "duration_since now earlier = now - earlier"

text \<open>\<open>std::net::IpAddr\<close>: the four octets of an IPv4 address, or an IPv6 address.\<close>

datatype IpAddr = V4 "8 word" "8 word" "8 word" "8 word" | V6 "128 word"

text \<open>The decimal text of a number, \<open>to_string\<close>.\<close>

fun nat_text :: "nat \<Rightarrow> string" where
  "nat_text n = (if n < 10 then [char_of (48 + n)] else nat_text (n div 10) @ [char_of (48 + n mod 10)])"

text \<open>Collections used as simplifier bundles by the component proofs.\<close>

named_theorems time_simps \<open>definitions of time constants and arithmetic\<close>
named_theorems handler_simps \<open>unfolding rules of message handlers\<close>
named_theorems frame_simps \<open>what an operation leaves unchanged\<close>

declare from_millis_def [time_simps] from_secs_def [time_simps] duration_since_def [time_simps]

lemma duration_since_mono:
  "a \<le> b \<Longrightarrow> duration_since now b \<le> duration_since now a"
  by (simp add: duration_since_def)

section \<open>Keyed stores\<close>

definition dm_len :: "('k, 'v) fmap \<Rightarrow> nat" where
  "dm_len m = fcard (fmdom m)"

definition dm_retain :: "('k \<Rightarrow> 'v \<Rightarrow> bool) \<Rightarrow> ('k, 'v) fmap \<Rightarrow> ('k, 'v) fmap" where
  "dm_retain P m = fmfilter (\<lambda>k. case fmlookup m k of None \<Rightarrow> False | Some v \<Rightarrow> P k v) m"

text \<open>\<open>entry(k).or_insert(v)\<close>: the value found under the key, which is stored if it was absent.\<close>

definition dm_or_insert :: "'k \<Rightarrow> 'v \<Rightarrow> ('k, 'v) fmap \<Rightarrow> 'v \<times> ('k, 'v) fmap" where
  "dm_or_insert k v m = (case fmlookup m k of None \<Rightarrow> (v, fmupd k v m) | Some w \<Rightarrow> (w, m))"

locale keyed_store =
  fixes emp :: "'m"
    and get :: "'m \<Rightarrow> 'k \<Rightarrow> 'v option"
    and ins :: "'k \<Rightarrow> 'v \<Rightarrow> 'm \<Rightarrow> 'm"
    and del :: "'k \<Rightarrow> 'm \<Rightarrow> 'm"
    and ret :: "('k \<Rightarrow> 'v \<Rightarrow> bool) \<Rightarrow> 'm \<Rightarrow> 'm"
    and len :: "'m \<Rightarrow> nat"
  assumes get_emp: "get emp k = None"
    and get_ins: "get (ins k v m) k' = (if k = k' then Some v else get m k')"
    and get_del: "get (del k m) k' = (if k = k' then None else get m k')"
    and get_ret: "get (ret P m) k =
          (case get m k of None \<Rightarrow> None | Some v \<Rightarrow> if P k v then Some v else None)"
    and len_ret: "len (ret P m) \<le> len m"
    and len_ins: "len (ins k v m) \<le> Suc (len m)"
begin

lemma get_ins_same [simp]: "get (ins k v m) k = Some v"
  by (simp add: get_ins)

lemma get_del_same [simp]: "get (del k m) k = None"
  by (simp add: get_del)

lemma get_ret_Some: "get (ret P m) k = Some v \<longleftrightarrow> get m k = Some v \<and> P k v"
  by (auto simp: get_ret split: option.splits if_splits)

lemma ret_keeps: "get m k = Some v \<Longrightarrow> P k v \<Longrightarrow> get (ret P m) k = Some v"
  by (simp add: get_ret)

lemma ret_drops: "get m k = Some v \<Longrightarrow> \<not> P k v \<Longrightarrow> get (ret P m) k = None"
  by (simp add: get_ret)

end

lemma fmlookup_retain [simp]:
  "fmlookup (dm_retain P m) k =
     (case fmlookup m k of None \<Rightarrow> None | Some v \<Rightarrow> if P k v then Some v else None)"
  by (simp add: dm_retain_def split: option.splits)

lemma dm_len_retain: "dm_len (dm_retain P m) \<le> dm_len m"
  unfolding dm_len_def dm_retain_def by (auto intro!: fcard_mono)

lemma dm_len_upd: "dm_len (fmupd k v m) \<le> Suc (dm_len m)"
  by (simp add: dm_len_def fcard_finsert_if)

interpretation dm: keyed_store fmempty fmlookup fmupd fmdrop dm_retain dm_len
  by unfold_locales (auto simp: dm_len_retain dm_len_upd)

lemma dm_or_insert_get: "dm_or_insert k v m = (w, m') \<Longrightarrow> fmlookup m' k = Some w"
  by (auto simp: dm_or_insert_def split: option.splits)

lemma dm_or_insert_keeps:
  "dm_or_insert k v m = (w, m') \<Longrightarrow> fmlookup m k' = Some u \<Longrightarrow> fmlookup m' k' = Some u"
  by (auto simp: dm_or_insert_def split: option.splits)

section \<open>Lists\<close>

lemma filter_upt_gt:
  "filter (\<lambda>i. c < i) [a..<b] = [max a (Suc c)..<b]"
proof (induction b)
  case 0
  then show ?case by simp
next
  case (Suc b)
  then show ?case by (auto simp: max_def)
qed

section \<open>Words\<close>

lemma unat_add_1:
  fixes x :: "'a::len word"
  assumes "Suc (unat x) < 2 ^ LENGTH('a)"
  shows "unat (x + 1) = Suc (unat x)"
  using assms by (simp add: unat_word_ariths(1))

lemma unat_of_nat_fits:
  assumes "n < 2 ^ LENGTH('a)"
  shows "unat (of_nat n :: 'a::len word) = n"
  using assms by (simp add: unat_of_nat)

lemma unat_less_max:
  fixes x :: "'a::len word"
  assumes "x \<noteq> - 1"
  shows "Suc (unat x) < 2 ^ LENGTH('a)"
proof -
  have "unat (- 1 :: 'a word) = 2 ^ LENGTH('a) - 1"
    by (simp add: unsigned_minus_1_eq_mask mask_eq_exp_minus_1)
  then have "unat x \<noteq> 2 ^ LENGTH('a) - 1"
    using assms by (metis word_unat_eq_iff)
  moreover have "unat x < 2 ^ LENGTH('a)" by simp
  ultimately show ?thesis by linarith
qed

end
