(* ===== verification/WireTypes.thy ===== *)
theory WireTypes
  imports Prelude
begin

text \<open>
  The message types of \<open>crates/haily-types\<close>: requests, response chunks, notifications, run
  events, proactive cards (\<open>lib.rs\<close>) and the mobile wire protocol (\<open>mobile/mod.rs\<close>,
  \<open>mobile/client_frame.rs\<close>, \<open>mobile/server_body.rs\<close>). Each Rust enum is a datatype with the
  source's constructors and each struct a record; the decoders with the forward-compatible
  \<open>Unknown\<close> fallback are functions over an abstract JSON value.
\<close>

section \<open>Requests and depth\<close>

datatype DepthMode = Quick | Normal | Deep

datatype RequestOrigin = Chat | Cli

record Request =
  req_session_id :: uuid
  req_adapter_id :: string
  req_message :: string
  req_user_ref :: "string option"
  req_depth :: DepthMode
  req_origin :: RequestOrigin

definition as_label :: "DepthMode \<Rightarrow> string" where
  "as_label d = (case d of Quick \<Rightarrow> ''quick'' | Normal \<Rightarrow> ''normal'' | Deep \<Rightarrow> ''deep'')"

section \<open>Response chunks, run events, notifications\<close>

datatype ViewProvenance = Registry | LlmProjected

datatype ResponseChunk =
    Text string
  | ToolApprovalRequest (tar_tool: string) (tar_args: string) (tar_approval_id: uuid)
      (tar_origin: "string option") (tar_reversible: bool)
  | ToolResult (tr_name: string) (tr_ok: bool) (tr_reversible: bool) (tr_journal_id: "string option")
  | ChunkError string
  | Complete
  | TurnMeta (tm_badge: "string option")
  | ViewRef (vr_view_id: uuid) (vr_entity: string) (vr_provenance: ViewProvenance)

record WorkItemStatus =
  wis_title :: string
  wis_status :: string
  wis_progress :: nat
  wis_phase :: "string option"

datatype Notification =
    NMorningBrief string
  | NAlert (na_title: string) (na_body: string) (na_urgent: bool)
  | NReminderFired (nr_reminder_id: uuid) (nr_title: string)
  | NWorkItemsChanged "WorkItemStatus list"
  | NDistillationProposal (nd_class_key: string) (nd_summary: string) (nd_rule_count: u32)
  | NKillStateChanged (nk_on: bool)

datatype RunEvent =
    RunStarted string string
  | StageStarted string string "string option"
  | StageOutput string u64 string
  | GateResult string string bool string
  | Retry string u32
  | Escalation string string string
  | DiffAvailable string string
  | ApprovalNeeded string string
  | PlanReady string string
  | RunPaused string string
  | RunComplete string string

section \<open>Proactive cards\<close>

datatype ProactiveCardKind =
    CMorningBrief string
  | CAlert string string bool
  | CReminderFired uuid string
  | CDistillationProposal string string u32

record ProactiveCard =
  pc_id :: uuid
  pc_created_at :: string
  pc_kind :: ProactiveCardKind

text \<open>The fresh id and the RFC 3339 time stamp are drawn outside the function and passed in.\<close>

definition from_notification :: "uuid \<Rightarrow> string \<Rightarrow> Notification \<Rightarrow> ProactiveCard option" where
  "from_notification fresh_id now msg =
     (let kind = (case msg of
          NMorningBrief text \<Rightarrow> Some (CMorningBrief text)
        | NAlert title body urgent \<Rightarrow> Some (CAlert title body urgent)
        | NReminderFired reminder_id title \<Rightarrow> Some (CReminderFired reminder_id title)
        | NDistillationProposal class_key summary rule_count \<Rightarrow>
            Some (CDistillationProposal class_key summary rule_count)
        | NWorkItemsChanged _ \<Rightarrow> None
        | NKillStateChanged _ \<Rightarrow> None)
      in map_option (\<lambda>k. \<lparr>pc_id = fresh_id, pc_created_at = now, pc_kind = k\<rparr>) kind)"

section \<open>Mobile wire protocol\<close>

definition PROTOCOL_VERSION :: u16 where
  "PROTOCOL_VERSION = 1"

datatype MobileApprovalPolicy = Allow | BiometricRequired | DenyIrreversible

datatype MobileError =
    PairingCodeInvalid | PairingCodeExpired | PairingRateLimited | PairingNotConfirmed
  | AuthRejected | SessionUnknown | ProtocolVersion | ResumeWindowExceeded | Internal

record TranscriptEntry =
  te_role :: string
  te_content :: string

record SessionSnapshot =
  ss_session_id :: uuid
  ss_transcript :: "TranscriptEntry list"
  ss_latest_run_status :: "string option"
  ss_depth :: DepthMode

datatype ServerBody =
    HelloAck (ha_epoch: u64) (ha_protocol_version: u16) (ha_kill_on: bool)
      (ha_policy: MobileApprovalPolicy)
  | Chunk uuid ResponseChunk
  | Run uuid RunEvent
  | Notify Notification
  | ProactiveList "ProactiveCard list"
  | SSnapshot SessionSnapshot
  | KillState bool
  | Error MobileError
  | Pong
  | SUnknown string

record ServerFrame =
  sf_epoch :: u64
  sf_seq :: u64
  sf_body :: ServerBody

datatype ClientFrame =
    Hello (h_last_seen_seq: "u64 option") (h_last_epoch: "u64 option") (h_protocol_version: u16)
  | UserMessage uuid string DepthMode
  | Approve (a_approval_id: uuid) (a_session_id: uuid) (a_approved: bool) (a_biometric_ok: bool)
  | SetKillSwitch uuid bool
  | FetchProactive uuid
  | FetchSession uuid
  | CancelTurn uuid
  | Ping
  | CUnknown string

text \<open>
  The private mirrors \<open>ClientFrameKnown\<close> and \<open>ServerBodyKnown\<close>: the public enums without their
  \<open>Unknown\<close> variant, and the conversions back.
\<close>

datatype ClientFrameKnown =
    KHello "u64 option" "u64 option" u16
  | KUserMessage uuid string DepthMode
  | KApprove uuid uuid bool bool
  | KSetKillSwitch uuid bool
  | KFetchProactive uuid
  | KFetchSession uuid
  | KCancelTurn uuid
  | KPing

fun client_frame_from_known :: "ClientFrameKnown \<Rightarrow> ClientFrame" where
  "client_frame_from_known (KHello s e v) = Hello s e v"
| "client_frame_from_known (KUserMessage sid m d) = UserMessage sid m d"
| "client_frame_from_known (KApprove aid sid ap bio) = Approve aid sid ap bio"
| "client_frame_from_known (KSetKillSwitch sid on) = SetKillSwitch sid on"
| "client_frame_from_known (KFetchProactive sid) = FetchProactive sid"
| "client_frame_from_known (KFetchSession sid) = FetchSession sid"
| "client_frame_from_known (KCancelTurn sid) = CancelTurn sid"
| "client_frame_from_known KPing = Ping"

datatype ServerBodyKnown =
    KHelloAck u64 u16 bool MobileApprovalPolicy
  | KChunk uuid ResponseChunk
  | KRun uuid RunEvent
  | KNotify Notification
  | KProactiveList "ProactiveCard list"
  | KSessionSnapshot SessionSnapshot
  | KKillState bool
  | KError MobileError
  | KPong

fun server_body_from_known :: "ServerBodyKnown \<Rightarrow> ServerBody" where
  "server_body_from_known (KHelloAck e v k p) = HelloAck e v k p"
| "server_body_from_known (KChunk sid c) = Chunk sid c"
| "server_body_from_known (KRun sid ev) = Run sid ev"
| "server_body_from_known (KNotify n) = Notify n"
| "server_body_from_known (KProactiveList l) = ProactiveList l"
| "server_body_from_known (KSessionSnapshot s) = SSnapshot s"
| "server_body_from_known (KKillState on) = KillState on"
| "server_body_from_known (KError e) = Error e"
| "server_body_from_known KPong = Pong"

text \<open>
  The hand-written \<open>Deserialize\<close> impls. The JSON value and the derived decoder of the private
  mirror belong to \<open>serde\<close>: \<open>tag\<close> reads the string under the key \<open>type\<close> (if there is one) and
  \<open>known\<close> is the derived decoder, with \<open>None\<close> for its error.
\<close>

definition deserialize_client_frame ::
  "('j \<Rightarrow> string option) \<Rightarrow> ('j \<Rightarrow> ClientFrameKnown option) \<Rightarrow> 'j \<Rightarrow> ClientFrame option" where
  "deserialize_client_frame tag known value =
     (let type_tag = tag value
      in case known value of
           Some k \<Rightarrow> Some (client_frame_from_known k)
         | None \<Rightarrow> map_option CUnknown type_tag)"

definition deserialize_server_body ::
  "('j \<Rightarrow> string option) \<Rightarrow> ('j \<Rightarrow> ServerBodyKnown option) \<Rightarrow> 'j \<Rightarrow> ServerBody option" where
  "deserialize_server_body tag known value =
     (let type_tag = tag value
      in case known value of
           Some k \<Rightarrow> Some (server_body_from_known k)
         | None \<Rightarrow> map_option SUnknown type_tag)"

section \<open>Facts\<close>

lemma client_frame_from_known_known: "client_frame_from_known k \<noteq> CUnknown t"
  by (cases k) auto

lemma server_body_from_known_known: "server_body_from_known k \<noteq> SUnknown t"
  by (cases k) auto

lemma client_frame_from_known_inj: "client_frame_from_known k = client_frame_from_known k' \<Longrightarrow> k = k'"
  by (cases k; cases k') auto

lemma server_body_from_known_inj: "server_body_from_known k = server_body_from_known k' \<Longrightarrow> k = k'"
  by (cases k; cases k') auto

lemma from_notification_None:
  "from_notification i t n = None \<longleftrightarrow>
     (\<exists>ws. n = NWorkItemsChanged ws) \<or> (\<exists>b. n = NKillStateChanged b)"
  by (cases n) (auto simp: from_notification_def)

end
