(* ===== verification/RingBuffer.thy ===== *)
theory RingBuffer
  imports WireTypes
begin

text \<open>
  \<open>crates/haily-io/src/mobile/ring_buffer.rs\<close>: the bounded per-device buffer of outbound frames
  that assigns sequence numbers and answers resume requests.

  The abstract specification is the unbounded log of every frame pushed since the buffer was
  created (locale \<open>replay_log\<close>). The invariant \<open>ring_of\<close> says that the buffer holds the last
  \<open>capacity\<close> frames of that log, and the locale is interpreted on the buffer's operations.
\<close>

section \<open>Model\<close>

record RingBuffer =
  rb_epoch :: u64
  rb_next_seq :: u64
  rb_capacity :: nat
  rb_entries :: "ServerFrame list"

datatype WindowExceeded = WindowExceeded

definition rb_new :: "u64 \<Rightarrow> nat \<Rightarrow> RingBuffer" where
  "rb_new e capacity =
     \<lparr>rb_epoch = e, rb_next_seq = 0, rb_capacity = max capacity 1, rb_entries = []\<rparr>"

definition rb_push :: "RingBuffer \<Rightarrow> ServerBody \<Rightarrow> ServerFrame \<times> RingBuffer" where
  "rb_push self body =
     (let frame = \<lparr>sf_epoch = rb_epoch self, sf_seq = rb_next_seq self, sf_body = body\<rparr>;
          next_seq = rb_next_seq self + 1;
          entries = (if length (rb_entries self) \<ge> rb_capacity self
                     then tl (rb_entries self) else rb_entries self)
      in (frame, self\<lparr>rb_next_seq := next_seq, rb_entries := entries @ [frame]\<rparr>))"

definition oldest_available :: "RingBuffer \<Rightarrow> u64" where
  "oldest_available self =
     (case rb_entries self of [] \<Rightarrow> rb_next_seq self | f # _ \<Rightarrow> sf_seq f)"

definition replay_since :: "RingBuffer \<Rightarrow> u64 option \<Rightarrow> WindowExceeded + ServerFrame list" where
  "replay_since self last_seq =
     (case last_seq of
        None \<Rightarrow> Inr (rb_entries self)
      | Some cursor \<Rightarrow>
          if cursor + 1 < oldest_available self then Inl WindowExceeded
          else Inr (filter (\<lambda>f. sf_seq f > cursor) (rb_entries self)))"

text \<open>Pushing a sequence of bodies, as the writer task does over its lifetime.\<close>

fun rb_push_all :: "RingBuffer \<Rightarrow> ServerBody list \<Rightarrow> RingBuffer" where
  "rb_push_all self [] = self"
| "rb_push_all self (b # bs) = rb_push_all (snd (rb_push self b)) bs"

section \<open>Specification: an unbounded log\<close>

definition log_frames :: "u64 \<Rightarrow> ServerBody list \<Rightarrow> ServerFrame list" where
  "log_frames e bs = map (\<lambda>i. \<lparr>sf_epoch = e, sf_seq = of_nat i, sf_body = bs ! i\<rparr>) [0..<length bs]"

definition ring_of :: "u64 \<Rightarrow> nat \<Rightarrow> ServerBody list \<Rightarrow> RingBuffer \<Rightarrow> bool" where
  "ring_of e cap bs r \<longleftrightarrow>
     1 \<le> cap \<and> rb_capacity r = cap \<and> rb_epoch r = e \<and> rb_next_seq r = of_nat (length bs) \<and>
     rb_entries r = drop (length bs - cap) (log_frames e bs)"

text \<open>Sequence numbers stay below the word bound, so no counter has wrapped yet.\<close>

definition seq_fits :: "ServerBody list \<Rightarrow> bool" where
  "seq_fits bs \<longleftrightarrow> length bs < 2 ^ 64"

locale replay_log =
  fixes push :: "'r \<Rightarrow> ServerBody \<Rightarrow> ServerFrame \<times> 'r"
    and replay :: "'r \<Rightarrow> u64 option \<Rightarrow> WindowExceeded + ServerFrame list"
    and holds :: "u64 \<Rightarrow> nat \<Rightarrow> ServerBody list \<Rightarrow> 'r \<Rightarrow> bool"
  assumes push_log: "holds e cap bs r \<Longrightarrow> holds e cap (bs @ [b]) (snd (push r b))"
    and push_frame: "holds e cap bs r \<Longrightarrow> fst (push r b) = last (log_frames e (bs @ [b]))"
    and replay_ok: "\<lbrakk>holds e cap bs r; seq_fits bs; c \<noteq> - 1; replay r (Some c) = Inr fs\<rbrakk>
          \<Longrightarrow> fs = filter (\<lambda>f. sf_seq f > c) (log_frames e bs)"
    and replay_err: "\<lbrakk>holds e cap bs r; seq_fits bs; c \<noteq> - 1\<rbrakk> \<Longrightarrow>
          (\<exists>x. replay r (Some c) = Inl x) \<longleftrightarrow>
          (\<exists>i. unat c < i \<and> i < length bs - cap)"
    and replay_all: "holds e cap bs r \<Longrightarrow>
          replay r None = Inr (drop (length bs - cap) (log_frames e bs))"
begin

lemma push_all_log:
  "holds e cap bs r \<Longrightarrow> holds e cap (bs @ cs) (fold (\<lambda>b r. snd (push r b)) cs r)"
proof (induction cs arbitrary: bs r)
  case Nil
  then show ?case by simp
next
  case (Cons c cs)
  from push_log [OF Cons.prems] have "holds e cap (bs @ [c]) (snd (push r c))" .
  from Cons.IH [OF this] show ?case by simp
qed

text \<open>A cursor that has seen everything but the frames pushed since is never refused.\<close>

lemma replay_recent:
  assumes "holds e cap bs r" "seq_fits bs" "c \<noteq> - 1" "length bs \<le> Suc (unat c) + cap"
  shows "replay r (Some c) = Inr (filter (\<lambda>f. sf_seq f > c) (log_frames e bs))"
proof (cases "replay r (Some c)")
  case (Inl x)
  with replay_err [OF assms(1-3)] obtain i where "unat c < i" "i < length bs - cap" by blast
  with assms(4) show ?thesis by linarith
next
  case (Inr fs)
  with replay_ok [OF assms(1-3)] show ?thesis by simp
qed

end

section \<open>Facts on the log\<close>

lemma log_frames_Nil [simp]: "log_frames e [] = []"
  by (simp add: log_frames_def)

lemma length_log_frames [simp]: "length (log_frames e bs) = length bs"
  by (simp add: log_frames_def)

lemma log_frames_snoc:
  "log_frames e (bs @ [b]) =
     log_frames e bs @ [\<lparr>sf_epoch = e, sf_seq = of_nat (length bs), sf_body = b\<rparr>]"
  by (simp add: log_frames_def nth_append)

lemma nth_log_frames:
  "i < length bs \<Longrightarrow> log_frames e bs ! i = \<lparr>sf_epoch = e, sf_seq = of_nat i, sf_body = bs ! i\<rparr>"
  by (simp add: log_frames_def)

lemma log_frames_append_take:
  "log_frames e (bs @ cs) = log_frames e bs @ drop (length bs) (log_frames e (bs @ cs))"
proof -
  have "take (length bs) (log_frames e (bs @ cs)) = log_frames e bs"
    by (rule nth_equalityI) (auto simp: nth_log_frames nth_append)
  then show ?thesis by (metis append_take_drop_id)
qed

lemma seqs_log_frames:
  "seq_fits bs \<Longrightarrow> map (unat \<circ> sf_seq) (log_frames e bs) = [0..<length bs]"
  by (auto simp: log_frames_def seq_fits_def unat_of_nat_fits intro!: nth_equalityI)

text \<open>The frames after a cursor are a suffix of the log.\<close>

lemma filter_log_frames:
  assumes "seq_fits bs"
  shows "filter (\<lambda>f. sf_seq f > c) (log_frames e bs) = drop (Suc (unat c)) (log_frames e bs)"
proof -
  define L where "L = log_frames e bs"
  have gt: "sf_seq (L ! i) > c \<longleftrightarrow> Suc (unat c) \<le> i" if "i < length L" for i
    using that assms
    by (auto simp: L_def nth_log_frames seq_fits_def word_less_nat_alt unat_of_nat_fits)
  have "filter (\<lambda>f. sf_seq f > c) (take (Suc (unat c)) L) = []"
    using gt by (auto simp: filter_empty_conv in_set_conv_nth)
  moreover have "filter (\<lambda>f. sf_seq f > c) (drop (Suc (unat c)) L) = drop (Suc (unat c)) L"
    using gt by (auto simp: filter_id_conv in_set_conv_nth)
  ultimately have "filter (\<lambda>f. sf_seq f > c) (take (Suc (unat c)) L @ drop (Suc (unat c)) L)
      = drop (Suc (unat c)) L"
    by (simp only: filter_append append_Nil)
  then show ?thesis by (simp add: L_def)
qed

section \<open>The buffer implements the log\<close>

lemma ring_of_new: "ring_of e (max cap 1) [] (rb_new e cap)"
  by (simp add: ring_of_def rb_new_def)

lemma ring_of_push:
  assumes "ring_of e cap bs r"
  shows "ring_of e cap (bs @ [b]) (snd (rb_push r b))"
proof (cases "length bs < cap")
  case True
  with assms show ?thesis
    by (auto simp: ring_of_def rb_push_def log_frames_snoc Let_def)
next
  case False
  then have "Suc (length bs) - cap = Suc (length bs - cap)" by simp
  with False assms show ?thesis
    by (auto simp: ring_of_def rb_push_def log_frames_snoc Let_def tl_drop drop_Suc)
qed

lemma ring_of_push_frame:
  "ring_of e cap bs r \<Longrightarrow> fst (rb_push r b) = last (log_frames e (bs @ [b]))"
  by (simp add: ring_of_def rb_push_def log_frames_snoc Let_def)

lemma oldest_available_ring:
  assumes "ring_of e cap bs r"
  shows "oldest_available r = of_nat (length bs - cap)"
proof (cases "bs = []")
  case True
  with assms show ?thesis by (simp add: ring_of_def oldest_available_def)
next
  case False
  with assms have lt: "length bs - cap < length bs" by (auto simp: ring_of_def)
  then have "drop (length bs - cap) (log_frames e bs) =
      log_frames e bs ! (length bs - cap) # drop (Suc (length bs - cap)) (log_frames e bs)"
    by (simp add: Cons_nth_drop_Suc)
  with assms lt show ?thesis
    by (simp add: ring_of_def oldest_available_def nth_log_frames)
qed

lemma window_exceeded_iff:
  assumes "ring_of e cap bs r" "seq_fits bs" "c \<noteq> - 1"
  shows "c + 1 < oldest_available r \<longleftrightarrow> Suc (unat c) < length bs - cap"
proof -
  from unat_less_max [OF assms(3)] have "unat (c + 1) = Suc (unat c)" by (rule unat_add_1)
  moreover have "unat (oldest_available r) = length bs - cap"
    using assms(2) oldest_available_ring [OF assms(1)] by (simp add: seq_fits_def unat_of_nat_fits)
  ultimately show ?thesis by (simp add: word_less_nat_alt)
qed

lemma replay_since_ok:
  assumes "ring_of e cap bs r" "seq_fits bs" "c \<noteq> - 1" "replay_since r (Some c) = Inr fs"
  shows "fs = filter (\<lambda>f. sf_seq f > c) (log_frames e bs)"
proof -
  from assms have "\<not> Suc (unat c) < length bs - cap"
    and fs: "fs = filter (\<lambda>f. sf_seq f > c) (rb_entries r)"
    by (auto simp: replay_since_def window_exceeded_iff split: if_splits)
  then have le: "length bs - cap \<le> Suc (unat c)" by simp
  have "rb_entries r = drop (length bs - cap) (log_frames e bs)"
    using assms(1) by (simp add: ring_of_def)
  moreover have "filter (\<lambda>f. sf_seq f > c) (take (length bs - cap) (log_frames e bs)) = []"
    using le assms(2)
    by (auto simp: filter_empty_conv in_set_conv_nth nth_log_frames seq_fits_def
        word_less_nat_alt unat_of_nat_fits)
  ultimately show ?thesis
    using fs filter_append [of "\<lambda>f. sf_seq f > c" "take (length bs - cap) (log_frames e bs)"
        "drop (length bs - cap) (log_frames e bs)"]
    by simp
qed

lemma replay_since_err:
  assumes "ring_of e cap bs r" "seq_fits bs" "c \<noteq> - 1"
  shows "(\<exists>x. replay_since r (Some c) = Inl x) \<longleftrightarrow> (\<exists>i. unat c < i \<and> i < length bs - cap)"
  using window_exceeded_iff [OF assms]
  by (auto simp: replay_since_def Suc_le_eq intro: exI [of _ "Suc (unat c)"] dest: Suc_lessI)

lemma replay_since_None:
  "ring_of e cap bs r \<Longrightarrow> replay_since r None = Inr (drop (length bs - cap) (log_frames e bs))"
  by (simp add: replay_since_def ring_of_def)

interpretation rb: replay_log rb_push replay_since ring_of
  by unfold_locales
    (auto simp: ring_of_push ring_of_push_frame replay_since_err replay_since_None
       dest: replay_since_ok)

section \<open>Properties\<close>

lemma ring_of_push_all: "ring_of e cap bs r \<Longrightarrow> ring_of e cap (bs @ cs) (rb_push_all r cs)"
proof (induction cs arbitrary: bs r)
  case (Cons c cs)
  from Cons.IH [OF ring_of_push [OF Cons.prems, of c]] show ?case by simp
qed simp

lemma ring_of_run: "ring_of e (max cap 1) bs (rb_push_all (rb_new e cap) bs)"
  using ring_of_push_all [OF ring_of_new, of e cap bs] by simp

text \<open>
  A resume within the epoch is complete or refused. After any pushes, \<open>replay_since\<close>
  with a cursor either returns exactly the frames of the whole history that follow the cursor, in
  order, or reports \<open>WindowExceeded\<close>, and it refuses exactly when a frame the client still needs
  has been evicted.
\<close>

lemma replay_complete_or_refused:
  assumes "length bs < 2 ^ 64" and "c \<noteq> - 1"
  shows "replay_since (rb_push_all (rb_new e cap) bs) (Some c) =
           (if \<exists>i. unat c < i \<and> i < length bs - max cap 1 then Inl WindowExceeded
            else Inr (filter (\<lambda>f. sf_seq f > c) (log_frames e bs)))"
proof -
  let ?r = "rb_push_all (rb_new e cap) bs"
  have fits: "seq_fits bs" using assms(1) by (simp add: seq_fits_def)
  note err = rb.replay_err [OF ring_of_run [of e cap bs] fits assms(2)]
  note ok = rb.replay_ok [OF ring_of_run [of e cap bs] fits assms(2)]
  show ?thesis
  proof (cases "replay_since ?r (Some c)")
    case (Inl x)
    then have "\<exists>i. unat c < i \<and> i < length bs - max cap 1" using err by blast
    with Inl show ?thesis by (cases x) simp
  next
    case (Inr fs)
    then have "\<not> (\<exists>i. unat c < i \<and> i < length bs - max cap 1)" using err by simp
    with Inr ok show ?thesis by (simp only: if_False)
  qed
qed

lemma replay_complete_or_refused_witness:
  "replay_since (rb_push_all (rb_new 7 2) [Pong, KillState True, Pong, Pong, KillState False]) (Some 2)
     = Inr [\<lparr>sf_epoch = 7, sf_seq = 3, sf_body = Pong\<rparr>, \<lparr>sf_epoch = 7, sf_seq = 4, sf_body = KillState False\<rparr>] \<and>
   replay_since (rb_push_all (rb_new 7 2) [Pong, KillState True, Pong, Pong, KillState False]) (Some 0)
     = Inl WindowExceeded"
proof -
  let ?bs = "[Pong, KillState True, Pong, Pong, KillState False]"
  have "\<exists>i. unat (0 :: u64) < i \<and> i < length ?bs - max 2 1" by (rule exI [of _ 1]) simp
  then have "replay_since (rb_push_all (rb_new 7 2) ?bs) (Some 0) = Inl WindowExceeded"
    using replay_complete_or_refused [of ?bs 0 7 2] by simp
  moreover have "replay_since (rb_push_all (rb_new 7 2) ?bs) (Some 2)
     = Inr (filter (\<lambda>f. sf_seq f > 2) (log_frames 7 ?bs))"
    using replay_complete_or_refused [of ?bs 2 7 2] by simp
  moreover have "filter (\<lambda>f. sf_seq f > 2) (log_frames 7 ?bs) =
      [\<lparr>sf_epoch = 7, sf_seq = 3, sf_body = Pong\<rparr>, \<lparr>sf_epoch = 7, sf_seq = 4, sf_body = KillState False\<rparr>]"
    by (simp add: log_frames_def upt_rec)
  ultimately show ?thesis by simp
qed

text \<open>
  Pushed frames are numbered 0, 1, 2, \<dots> without gaps, all carry the buffer's epoch, and
  the buffer never holds more than its capacity: it is always the newest \<open>capacity\<close> frames.
\<close>

lemma ring_numbers_and_bounds:
  "rb_entries (rb_push_all (rb_new e cap) bs) = drop (length bs - max cap 1) (log_frames e bs) \<and>
   length (rb_entries (rb_push_all (rb_new e cap) bs)) \<le> max cap 1 \<and>
   fst (rb_push (rb_push_all (rb_new e cap) bs) b) =
     \<lparr>sf_epoch = e, sf_seq = of_nat (length bs), sf_body = b\<rparr>"
  using ring_of_run [of e cap bs] by (auto simp: ring_of_def rb_push_def Let_def)

text \<open>
  A cursor of \<open>u64::MAX\<close> makes \<open>cursor + 1\<close> wrap to 0 in a release build, so the
  server answers \<open>WindowExceeded\<close> as soon as one frame has been evicted, although no frame after that
  cursor can be missing.
\<close>

lemma replay_cursor_overflow:
  assumes "length bs < 2 ^ 64" and "max cap 1 < length bs"
  shows "replay_since (rb_push_all (rb_new e cap) bs) (Some (- 1)) = Inl WindowExceeded \<and>
         filter (\<lambda>f. sf_seq f > - 1) (log_frames e bs) = []"
proof -
  let ?n = "length bs - max cap 1"
  have "unat (of_nat ?n :: u64) = ?n"
    using assms(1) by (intro unat_of_nat_fits) simp
  moreover have "?n \<noteq> 0" using assms(2) by linarith
  ultimately have "unat (of_nat ?n :: u64) \<noteq> 0" by metis
  then have "oldest_available (rb_push_all (rb_new e cap) bs) \<noteq> 0"
    using oldest_available_ring [OF ring_of_run, of e cap bs] by (metis unsigned_0)
  then show ?thesis
    by (simp add: replay_since_def word_gt_0 filter_empty_conv not_less)
qed

end
