(* ===== verification/DeviceWriter.thy ===== *)
theory DeviceWriter
  imports RingBuffer
begin

text \<open>
  \<open>crates/haily-io/src/mobile/writer.rs\<close>: the single task that owns a device's ring buffer and its
  attached socket. The socket is a \<open>FrameSink\<close>, whose behaviour is the parameter \<open>send\<close>: sending a
  frame changes the sink and either finishes with a success flag or does not finish within
  \<open>SOCKET_SEND_TIMEOUT\<close> (\<open>None\<close>). \<open>writer_step\<close> is one iteration of the task's loop. Besides the new
  task state it returns the reply to a resume request and the frames handed to the sink with the
  result of each send.
\<close>

section \<open>Model\<close>

type_synonym 's frame_sink = "'s \<Rightarrow> ServerFrame \<Rightarrow> 's \<times> bool option"

datatype ResumeOutcome = ResumeOk | ResumeExceeded

datatype 's WriterMsg = Body ServerBody | Resume "u64 option" 's | Detach

record 's DeviceWriter =
  dw_ring :: RingBuffer
  dw_socket :: "'s option"

definition writer_spawn :: "u64 \<Rightarrow> nat \<Rightarrow> 's DeviceWriter" where
  "writer_spawn e capacity = \<lparr>dw_ring = rb_new e capacity, dw_socket = None\<rparr>"

definition send_with_timeout :: "'s frame_sink \<Rightarrow> 's \<Rightarrow> ServerFrame \<Rightarrow> 's \<times> bool" where
  "send_with_timeout send sink frame =
     (case send sink frame of
        (sink', Some ok) \<Rightarrow> (sink', ok)
      | (sink', None) \<Rightarrow> (sink', False))"

text \<open>The replay loop: every frame is sent, whatever the earlier sends returned.\<close>

fun send_replay :: "'s frame_sink \<Rightarrow> 's \<Rightarrow> ServerFrame list \<Rightarrow> 's \<times> (ServerFrame \<times> bool) list" where
  "send_replay send sink [] = (sink, [])"
| "send_replay send sink (f # fs) =
     (let (sink', ok) = send_with_timeout send sink f;
          (sink'', out) = send_replay send sink' fs
      in (sink'', (f, ok) # out))"

definition writer_step ::
  "'s frame_sink \<Rightarrow> 's DeviceWriter \<Rightarrow> 's WriterMsg \<Rightarrow>
   's DeviceWriter \<times> ResumeOutcome option \<times> (ServerFrame \<times> bool) list" where
  "writer_step send w msg =
     (case msg of
        Body body \<Rightarrow>
          (let (frame, ring) = rb_push (dw_ring w) body
           in case dw_socket w of
                None \<Rightarrow> (w\<lparr>dw_ring := ring\<rparr>, None, [])
              | Some sink \<Rightarrow>
                  (let (sink', ok) = send_with_timeout send sink frame
                   in (w\<lparr>dw_ring := ring, dw_socket := (if ok then Some sink' else None)\<rparr>,
                       None, [(frame, ok)])))
      | Resume last_seq sink \<Rightarrow>
          (case replay_since (dw_ring w) last_seq of
             Inr frames \<Rightarrow>
               (let (sink', out) = send_replay send sink frames
                in (w\<lparr>dw_socket := Some sink'\<rparr>, Some ResumeOk, out))
           | Inl WindowExceeded \<Rightarrow> (w\<lparr>dw_socket := Some sink\<rparr>, Some ResumeExceeded, []))
      | Detach \<Rightarrow> (w\<lparr>dw_socket := None\<rparr>, None, []))"

fun writer_run ::
  "'s frame_sink \<Rightarrow> 's DeviceWriter \<Rightarrow> 's WriterMsg list \<Rightarrow> 's DeviceWriter \<times> (ServerFrame \<times> bool) list"
  where
  "writer_run send w [] = (w, [])"
| "writer_run send w (m # ms) =
     (let (w', reply, out) = writer_step send w m;
          (w'', out') = writer_run send w' ms
      in (w'', out @ out'))"

text \<open>
  The cursor the connection loop of \<open>server.rs\<close> passes to a resume: the client's cursor counts only
  within the server's current epoch.
\<close>

definition resume_cursor :: "u64 \<Rightarrow> u64 option \<Rightarrow> u64 option \<Rightarrow> u64 option" where
  "resume_cursor epoch last_epoch last_seen_seq =
     (if last_epoch = Some epoch then last_seen_seq else None)"

text \<open>The bodies a sequence of messages pushes, in order.\<close>

fun pushed :: "'s WriterMsg list \<Rightarrow> ServerBody list" where
  "pushed [] = []"
| "pushed (Body b # ms) = b # pushed ms"
| "pushed (_ # ms) = pushed ms"

section \<open>Facts on one step\<close>

lemma ring_writer_step:
  "dw_ring (fst (writer_step send w msg)) =
     (case msg of Body b \<Rightarrow> snd (rb_push (dw_ring w) b) | _ \<Rightarrow> dw_ring w)"
  by (auto simp: writer_step_def Let_def split: WriterMsg.splits sum.splits WindowExceeded.splits
      option.splits prod.splits)

lemma ring_of_writer_step:
  assumes "ring_of e cap bs (dw_ring w)"
  shows "ring_of e cap (bs @ pushed [msg]) (dw_ring (fst (writer_step send w msg)))"
  using assms by (cases msg) (auto simp: ring_writer_step ring_of_push)

lemma pushed_append [simp]: "pushed (ms @ ms') = pushed ms @ pushed ms'"
  by (induction ms rule: pushed.induct) auto

lemma ring_of_writer_run:
  "ring_of e cap bs (dw_ring w) \<Longrightarrow>
   ring_of e cap (bs @ pushed ms) (dw_ring (fst (writer_run send w ms)))"
proof (induction ms arbitrary: bs w)
  case Nil
  then show ?case by simp
next
  case (Cons m ms)
  obtain w' reply out where st: "writer_step send w m = (w', reply, out)"
    by (cases "writer_step send w m") auto
  have "ring_of e cap (bs @ pushed [m]) (dw_ring w')"
    using ring_of_writer_step [OF Cons.prems, of m send] st by simp
  from Cons.IH [OF this] show ?case
    using st pushed_append [of "[m]" ms] by (simp add: case_prod_beta)
qed

text \<open>
  Frames handed to a sink are frames of the log. With no socket a body is only buffered; a failed
  live send detaches the socket, so at most one live frame is ever lost on it.
\<close>

lemma map_fst_send_replay: "map fst (snd (send_replay send sink fs)) = fs"
  by (induction fs arbitrary: sink) (simp_all add: case_prod_beta)

lemma writer_step_offline:
  "dw_socket w = None \<Longrightarrow> snd (snd (writer_step send w (Body b))) = []"
  by (simp add: writer_step_def split: prod.splits)

lemma writer_step_dead_link:
  "snd (snd (writer_step send w (Body b))) = [(f, False)] \<Longrightarrow>
   dw_socket (fst (writer_step send w (Body b))) = None"
  by (auto simp: writer_step_def Let_def split: option.splits prod.splits if_splits)

lemma writer_step_live:
  assumes "dw_socket w = Some s" "send_with_timeout send s (fst (rb_push (dw_ring w) b)) = (s', True)"
  shows "writer_step send w (Body b) =
    (w\<lparr>dw_ring := snd (rb_push (dw_ring w) b), dw_socket := Some s'\<rparr>, None,
     [(fst (rb_push (dw_ring w) b), True)])"
  using assms by (simp add: writer_step_def case_prod_beta)

end
