(* ===== verification/ResumeClient.thy ===== *)
theory ResumeClient
  imports WireTypes
begin

text \<open>
  \<open>crates/haily-mobile-client/src/reconnect.rs\<close>: the client's resume cursor, its duplicate filter and
  the reconnect backoff.
\<close>

section \<open>Resume cursor and duplicate filter\<close>

record ResumeCursor =
  last_epoch :: "u64 option"
  last_seen_seq :: "u64 option"

definition cursor_fresh :: ResumeCursor where
  "cursor_fresh = \<lparr>last_epoch = None, last_seen_seq = None\<rparr>"

definition hello_frame :: "ResumeCursor \<Rightarrow> ClientFrame" where
  "hello_frame self = Hello (last_seen_seq self) (last_epoch self) PROTOCOL_VERSION"

definition reset_to_new_epoch :: "ResumeCursor \<Rightarrow> u64 \<Rightarrow> ResumeCursor" where
  "reset_to_new_epoch self e = self\<lparr>last_epoch := Some e, last_seen_seq := None\<rparr>"

definition advance :: "ResumeCursor \<Rightarrow> u64 \<Rightarrow> u64 \<Rightarrow> ResumeCursor" where
  "advance self e s = self\<lparr>last_epoch := Some e, last_seen_seq := Some s\<rparr>"

record SeqDedup =
  sd_cursor :: ResumeCursor

definition dedup_new :: SeqDedup where
  "dedup_new = \<lparr>sd_cursor = cursor_fresh\<rparr>"

definition accept :: "SeqDedup \<Rightarrow> u64 \<Rightarrow> u64 \<Rightarrow> bool \<times> SeqDedup" where
  "accept self e s =
     (let is_new_epoch = (last_epoch (sd_cursor self) \<noteq> Some e)
      in if is_new_epoch
         then (True, self\<lparr>sd_cursor := advance (reset_to_new_epoch (sd_cursor self) e) e s\<rparr>)
         else (let is_newer = (case last_seen_seq (sd_cursor self) of
                                 None \<Rightarrow> True
                               | Some seen \<Rightarrow> s > seen)
               in (is_newer,
                   if is_newer then self\<lparr>sd_cursor := advance (sd_cursor self) e s\<rparr> else self)))"

text \<open>The read loop of \<open>client.rs\<close>: frames that pass the filter are forwarded to the application.\<close>

fun accept_all :: "SeqDedup \<Rightarrow> ServerFrame list \<Rightarrow> ServerFrame list \<times> SeqDedup" where
  "accept_all d [] = ([], d)"
| "accept_all d (f # fs) =
     (let (ok, d') = accept d (sf_epoch f) (sf_seq f);
          (out, d'') = accept_all d' fs
      in (if ok then f # out else out, d''))"

section \<open>Backoff\<close>

record Backoff =
  bo_base :: duration
  bo_max :: duration
  bo_attempt :: u32

definition DURATION_MAX :: duration where
  "DURATION_MAX = (2 ^ 64 - 1) * 1000000000 + 999999999"

definition duration_saturating_mul :: "duration \<Rightarrow> u32 \<Rightarrow> duration" where
  "duration_saturating_mul d k = min (d * unat k) DURATION_MAX"

text \<open>\<open>1u32.checked_shl(n)\<close> is \<open>None\<close> exactly when the shift amount is at least the width.\<close>

definition checked_shl_1 :: "u32 \<Rightarrow> u32 option" where
  "checked_shl_1 n = (if unat n < 32 then Some (push_bit (unat n) 1) else None)"

definition saturating_add_1 :: "u32 \<Rightarrow> u32" where
  "saturating_add_1 n = (if n = - 1 then n else n + 1)"

definition backoff_new :: "duration \<Rightarrow> duration \<Rightarrow> Backoff" where
  "backoff_new base mx = \<lparr>bo_base = base, bo_max = mx, bo_attempt = 0\<rparr>"

definition with_defaults :: Backoff where
  "with_defaults = backoff_new (from_millis 500) (from_secs 30)"

definition next_delay :: "Backoff \<Rightarrow> duration \<times> Backoff" where
  "next_delay self =
     (let multiplier = (case checked_shl_1 (bo_attempt self) of Some m \<Rightarrow> m | None \<Rightarrow> - 1);
          scaled = duration_saturating_mul (bo_base self) multiplier
      in (min scaled (bo_max self), self\<lparr>bo_attempt := saturating_add_1 (bo_attempt self)\<rparr>))"

definition backoff_reset :: "Backoff \<Rightarrow> Backoff" where
  "backoff_reset self = self\<lparr>bo_attempt := 0\<rparr>"

fun delays :: "nat \<Rightarrow> Backoff \<Rightarrow> duration list" where
  "delays 0 b = []"
| "delays (Suc n) b = fst (next_delay b) # delays n (snd (next_delay b))"

section \<open>Facts on the filter\<close>

lemma accept_same_epoch:
  "last_epoch (sd_cursor d) = Some e \<Longrightarrow>
   fst (accept d e s) \<longleftrightarrow> (case last_seen_seq (sd_cursor d) of None \<Rightarrow> True | Some l \<Rightarrow> s > l)"
  by (simp add: accept_def Let_def)

lemma accept_new_epoch:
  "last_epoch (sd_cursor d) \<noteq> Some e \<Longrightarrow> fst (accept d e s)"
  by (simp add: accept_def)

lemma accept_cursor:
  "fst (accept d e s) \<Longrightarrow>
   sd_cursor (snd (accept d e s)) = \<lparr>last_epoch = Some e, last_seen_seq = Some s\<rparr>"
  by (auto simp: accept_def Let_def advance_def reset_to_new_epoch_def split: if_splits)

lemma accept_reject: "\<not> fst (accept d e s) \<Longrightarrow> snd (accept d e s) = d"
  by (auto simp: accept_def Let_def split: if_splits)

lemma accept_after:
  "sd_cursor d = \<lparr>last_epoch = Some e, last_seen_seq = Some l\<rparr> \<Longrightarrow> fst (accept d e s) \<longleftrightarrow> s > l"
  by (simp add: accept_def Let_def)

text \<open>Within one epoch the accepted sequence numbers strictly increase, whatever arrives.\<close>

lemma accept_all_above:
  assumes "sd_cursor d = \<lparr>last_epoch = Some e, last_seen_seq = Some l\<rparr>"
    and "\<forall>f\<in>set fs. sf_epoch f = e"
  shows "sorted_wrt (<) (l # map sf_seq (fst (accept_all d fs)))"
  using assms
proof (induction fs arbitrary: d l)
  case Nil
  then show ?case by simp
next
  case (Cons f fs)
  show ?case
  proof (cases "sf_seq f > l")
    case True
    obtain d' where acc: "accept d e (sf_seq f) = (True, d')"
      using accept_after [OF Cons.prems(1), of "sf_seq f"] True by (metis prod.collapse)
    have "sd_cursor d' = \<lparr>last_epoch = Some e, last_seen_seq = Some (sf_seq f)\<rparr>"
      using accept_cursor [of d e "sf_seq f"] acc by simp
    from Cons.IH [OF this] Cons.prems(2)
    have "sorted_wrt (<) (sf_seq f # map sf_seq (fst (accept_all d' fs)))" by simp
    with True acc Cons.prems(2) show ?thesis by (fastforce simp: case_prod_beta)
  next
    case False
    then have "accept d e (sf_seq f) = (False, d)"
      using accept_after [OF Cons.prems(1)] accept_reject by (metis prod.collapse)
    with Cons.IH [OF Cons.prems(1)] Cons.prems(2) show ?thesis by (simp add: case_prod_beta)
  qed
qed

lemma accept_all_increasing:
  assumes "\<forall>f\<in>set fs. sf_epoch f = e"
  shows "sorted_wrt (<) (map sf_seq (fst (accept_all d fs)))"
  using assms
proof (induction fs arbitrary: d)
  case Nil
  then show ?case by simp
next
  case (Cons f fs)
  obtain ok d' where acc: "accept d e (sf_seq f) = (ok, d')" by fastforce
  show ?case
  proof (cases ok)
    case True
    with acc have "sd_cursor d' = \<lparr>last_epoch = Some e, last_seen_seq = Some (sf_seq f)\<rparr>"
      using accept_cursor [of d e "sf_seq f"] by simp
    from accept_all_above [OF this] Cons.prems True acc show ?thesis
      by (fastforce simp: case_prod_beta)
  next
    case False
    with acc Cons show ?thesis by (simp add: case_prod_beta)
  qed
qed

section \<open>Facts on the backoff\<close>

lemma unat_power_2: "n < 32 \<Longrightarrow> unat (2 ^ n :: u32) = 2 ^ n"
proof -
  assume n: "n < 32"
  have "(2::nat) ^ n < 2 ^ 32" using n by (rule power_strict_increasing) simp
  then have "unat (of_nat (2 ^ n) :: u32) = 2 ^ n" by (intro unat_of_nat_fits) simp
  then show ?thesis by simp
qed

lemma next_delay_capped: "fst (next_delay b) \<le> bo_max b"
  by (simp add: next_delay_def Let_def)

lemma next_delay_attempt: "bo_attempt (snd (next_delay b)) = saturating_add_1 (bo_attempt b)"
  by (simp add: next_delay_def Let_def)

lemma next_delay_frame [simp]:
  "bo_base (snd (next_delay b)) = bo_base b" "bo_max (snd (next_delay b)) = bo_max b"
  by (simp_all add: next_delay_def Let_def)

lemma delays_nth:
  assumes "i < n" "unat (bo_attempt b) + n \<le> 2 ^ 32"
  shows "delays n b ! i =
     min (duration_saturating_mul (bo_base b)
           (case checked_shl_1 (bo_attempt b + of_nat i) of Some m \<Rightarrow> m | None \<Rightarrow> - 1)) (bo_max b)"
  using assms
proof (induction n arbitrary: b i)
  case (Suc n)
  show ?case
  proof (cases i)
    case 0
    then show ?thesis by (simp add: next_delay_def Let_def)
  next
    case (Suc j)
    have ne: "bo_attempt b \<noteq> - 1"
      using Suc Suc.prems by (auto simp: unsigned_minus_1_eq_mask mask_eq_exp_minus_1)
    then have att: "bo_attempt (snd (next_delay b)) = bo_attempt b + 1"
      by (simp add: next_delay_attempt saturating_add_1_def)
    have "unat (bo_attempt b + 1) = Suc (unat (bo_attempt b))"
      using unat_add_1 [OF unat_less_max [OF ne]] .
    with Suc.prems Suc att Suc.IH [of j "snd (next_delay b)"] show ?thesis
      by (simp add: add.assoc)
  qed
qed simp

section \<open>Properties\<close>

text \<open>
  Whatever frames of one server epoch arrive, in whatever order and however often they
  are repeated, the client hands the application frames with strictly increasing sequence numbers.
\<close>

lemma dedup_strictly_increasing:
  assumes "\<forall>f\<in>set fs. sf_epoch f = e"
  shows "sorted_wrt (<) (map sf_seq (fst (accept_all d fs)))"
  using assms by (rule accept_all_increasing)

lemma dedup_strictly_increasing_witness:
  "sorted_wrt (<) (map sf_seq (fst (accept_all dedup_new
     (map (\<lambda>q. \<lparr>sf_epoch = 3, sf_seq = q, sf_body = Pong\<rparr>) [0, 2, 1, 2, 4]))))"
  by (rule dedup_strictly_increasing [of _ 3]) simp

text \<open>
  The first frame of a new server epoch is always accepted, however large the cursor of
  the old epoch was, and the cursor then belongs to the new epoch.
\<close>

lemma new_epoch_accepted:
  assumes "last_epoch (sd_cursor d) \<noteq> Some e"
  shows "accept d e s =
    (True, d\<lparr>sd_cursor := \<lparr>last_epoch = Some e, last_seen_seq = Some s\<rparr>\<rparr>)"
  using assms by (simp add: accept_def advance_def reset_to_new_epoch_def)

text \<open>
  The reconnect delays from the defaults are 0.5 s doubling up to the 30 s cap: the
  \<open>i\<close>-th delay after a reset is the minimum of 500 ms times 2 to the \<open>i\<close> and 30 s, for every attempt.
\<close>

lemma backoff_delays:
  assumes "i < n" and "n \<le> 2 ^ 32"
  shows "delays n (backoff_reset with_defaults) ! i = min (from_millis 500 * 2 ^ i) (from_secs 30)"
proof -
  let ?b = "backoff_reset with_defaults"
  have att: "bo_attempt ?b = 0" "bo_base ?b = from_millis 500" "bo_max ?b = from_secs 30"
    by (simp_all add: backoff_reset_def with_defaults_def backoff_new_def)
  have ui: "unat (of_nat i :: u32) = i" using assms by (intro unat_of_nat_fits) simp
  have nth: "delays n ?b ! i = min (duration_saturating_mul (from_millis 500)
       (case checked_shl_1 (of_nat i) of Some m \<Rightarrow> m | None \<Rightarrow> - 1)) (from_secs 30)"
    using delays_nth [of i n ?b] assms att by simp
  show ?thesis
  proof (cases "i < 32")
    case True
    then have "from_millis 500 * (2::nat) ^ i \<le> from_millis 500 * 2 ^ 32"
      by (intro mult_le_mono2 power_increasing) simp_all
    also have "\<dots> \<le> DURATION_MAX" by (simp add: from_millis_def DURATION_MAX_def)
    finally have "from_millis 500 * 2 ^ i \<le> DURATION_MAX" .
    with True nth ui show ?thesis
      by (simp add: checked_shl_1_def duration_saturating_mul_def unat_power_2)
  next
    case False
    then have "(2::nat) ^ 32 \<le> 2 ^ i" by (intro power_increasing) simp_all
    then have "from_secs 30 \<le> from_millis 500 * 2 ^ i"
      by (simp add: from_secs_def from_millis_def)
    with False nth ui show ?thesis
      by (simp add: checked_shl_1_def duration_saturating_mul_def unsigned_minus_1_eq_mask
          mask_eq_exp_minus_1 from_secs_def from_millis_def DURATION_MAX_def)
  qed
qed

lemma backoff_delays_witness:
  "delays 9 (backoff_reset with_defaults) ! 5 = from_secs 16 \<and>
   delays 9 (backoff_reset with_defaults) ! 8 = from_secs 30"
  using backoff_delays [of 5 9] backoff_delays [of 8 9]
  by (simp add: from_secs_def from_millis_def)

end
