(* ===== verification/LinkProtocol.thy ===== *)
theory LinkProtocol
  imports DeviceWriter ResumeClient
begin

text \<open>
  The resume protocol end to end: the server's writer task with its ring buffer
  (\<open>DeviceWriter\<close>), a link that may die at any time, and the client's duplicate filter
  (\<open>ResumeClient\<close>). \<open>link_step\<close> interleaves pushes, deliveries, link failures, reconnects and server
  restarts in any order. The invariant \<open>link_inv\<close> says that the frames the application has been given
  since the last resynchronisation are one contiguous block of the server's log.
\<close>

section \<open>Links\<close>

text \<open>
  A sink that carries a fixed number of frames and then stays dead. With the second component set,
  the last frame it carries reaches the client although the send reports a failure.
\<close>

fun link_send :: "(nat \<times> bool) frame_sink" where
  "link_send (n, lossy_ack) f =
     (if n = 0 then ((0, lossy_ack), None)
      else if n = 1 \<and> lossy_ack then ((0, lossy_ack), Some False)
      else ((n - 1, lossy_ack), Some True))"

record link_state =
  ls_epoch :: u64
  ls_cap :: nat
  ls_log :: "ServerBody list"
  ls_writer :: "(nat \<times> bool) DeviceWriter"
  ls_wire :: "ServerFrame list"
  ls_client :: SeqDedup
  ls_start :: nat
  ls_got :: "ServerFrame list"

definition link_init :: "u64 \<Rightarrow> nat \<Rightarrow> link_state" where
  "link_init e capacity =
     \<lparr>ls_epoch = e, ls_cap = max capacity 1, ls_log = [], ls_writer = writer_spawn e capacity,
      ls_wire = [], ls_client = dedup_new, ls_start = 0, ls_got = []\<rparr>"

definition carried :: "(nat \<times> bool) option \<Rightarrow> (ServerFrame \<times> bool) list \<Rightarrow> ServerFrame list" where
  "carried sock out = (case sock of None \<Rightarrow> [] | Some (n, _) \<Rightarrow> take n (map fst out))"

definition do_push :: "link_state \<Rightarrow> ServerBody \<Rightarrow> link_state" where
  "do_push s b =
     (let (w, _, out) = writer_step link_send (ls_writer s) (Body b)
      in s\<lparr>ls_log := ls_log s @ [b], ls_writer := w,
           ls_wire := ls_wire s @ carried (dw_socket (ls_writer s)) out\<rparr>)"

text \<open>The client reconnects over a fresh link and the server answers its \<open>Hello\<close>.\<close>

definition do_reconnect :: "link_state \<Rightarrow> nat \<times> bool \<Rightarrow> link_state" where
  "do_reconnect s sink =
     (let c = sd_cursor (ls_client s);
          cursor = resume_cursor (ls_epoch s) (last_epoch c) (last_seen_seq c);
          (w, reply, out) = writer_step link_send (ls_writer s) (Resume cursor sink);
          s' = s\<lparr>ls_writer := w, ls_wire := carried (Some sink) out\<rparr>
      in if reply = Some ResumeExceeded then s'\<lparr>ls_start := length (ls_log s), ls_got := []\<rparr>
         else if cursor = None then s'\<lparr>ls_start := length (ls_log s) - ls_cap s, ls_got := []\<rparr>
         else s')"

definition do_deliver :: "link_state \<Rightarrow> link_state" where
  "do_deliver s =
     (case ls_wire s of
        [] \<Rightarrow> s
      | f # fs \<Rightarrow>
          (let (ok, d) = accept (ls_client s) (sf_epoch f) (sf_seq f)
           in s\<lparr>ls_wire := fs, ls_client := d,
                ls_got := (if ok then ls_got s @ [f] else ls_got s)\<rparr>))"

definition do_drop :: "link_state \<Rightarrow> link_state" where
  "do_drop s = s\<lparr>ls_wire := [],
     ls_writer := (ls_writer s)\<lparr>dw_socket := map_option (\<lambda>(n, l). (0, l)) (dw_socket (ls_writer s))\<rparr>\<rparr>"

definition do_detach :: "link_state \<Rightarrow> link_state" where
  "do_detach s = s\<lparr>ls_writer := fst (writer_step link_send (ls_writer s) Detach)\<rparr>"

definition do_restart :: "link_state \<Rightarrow> u64 \<Rightarrow> nat \<Rightarrow> link_state" where
  "do_restart s e capacity =
     (link_init e capacity)\<lparr>ls_client := ls_client s\<rparr>"

inductive link_step :: "link_state \<Rightarrow> link_state \<Rightarrow> bool" where
  push: "length (ls_log s) + 1 < 2 ^ 64 \<Longrightarrow> link_step s (do_push s b)"
| reconnect: "link_step s (do_reconnect s sink)"
| deliver: "link_step s (do_deliver s)"
| linkdown: "link_step s (do_drop s)"
| detach: "link_step s (do_detach s)"
| restart: "last_epoch (sd_cursor (ls_client s)) \<noteq> Some e \<Longrightarrow> link_step s (do_restart s e cap)"

inductive link_reachable :: "link_state \<Rightarrow> bool" where
  init: "link_reachable (link_init e cap)"
| step: "link_reachable s \<Longrightarrow> link_step s t \<Longrightarrow> link_reachable t"

section \<open>Invariant\<close>

abbreviation ls_frames :: "link_state \<Rightarrow> ServerFrame list" where
  "ls_frames s \<equiv> log_frames (ls_epoch s) (ls_log s)"

abbreviation ls_pos :: "link_state \<Rightarrow> nat" where
  "ls_pos s \<equiv> ls_start s + length (ls_got s)"

definition cursor_inv :: "link_state \<Rightarrow> bool" where
  "cursor_inv s \<longleftrightarrow>
     (let c = sd_cursor (ls_client s)
      in if ls_got s \<noteq> []
         then c = \<lparr>last_epoch = Some (ls_epoch s), last_seen_seq = Some (of_nat (ls_pos s - 1))\<rparr>
         else last_epoch c = Some (ls_epoch s) \<longrightarrow>
              (\<exists>x. last_seen_seq c = Some x \<and> unat x < ls_start s \<and>
                   Suc (unat x) < length (ls_log s) - ls_cap s))"

definition link_inv :: "link_state \<Rightarrow> bool" where
  "link_inv s \<longleftrightarrow>
     ring_of (ls_epoch s) (ls_cap s) (ls_log s) (dw_ring (ls_writer s)) \<and> seq_fits (ls_log s) \<and>
     ls_got s = take (length (ls_got s)) (drop (ls_start s) (ls_frames s)) \<and>
     ls_wire s = take (length (ls_wire s)) (drop (ls_pos s) (ls_frames s)) \<and>
     (\<forall>n l. dw_socket (ls_writer s) = Some (n, l) \<and> 0 < n \<longrightarrow>
        ls_pos s + length (ls_wire s) = length (ls_log s)) \<and>
     ls_pos s \<le> length (ls_log s) \<and> cursor_inv s"

section \<open>Facts on links\<close>

lemma send_link: "send_with_timeout link_send (n, l) f = ((n - 1, l), 0 < n \<and> \<not> (n = 1 \<and> l))"
  by (auto simp: send_with_timeout_def)

lemma send_replay_link: "fst (send_replay link_send (n, l) fs) = (n - length fs, l)"
  by (induction fs arbitrary: n) (simp_all add: send_link case_prod_beta)

lemma prefix_length:
  "w = take (length w) (drop p L) \<Longrightarrow> p \<le> length L \<Longrightarrow> p + length w \<le> length L"
  by (metis add.commute length_drop length_take le_diff_conv2 min.cobounded1 min.commute)

lemma take_min_frames [simp]:
  "take (min (length bs - p) n) (drop p (log_frames e bs)) = take n (drop p (log_frames e bs))"
  by (metis length_drop length_log_frames min.commute take_all_iff take_take nat_le_linear)

lemma take_drop_snoc:
  assumes "w = take (length w) (drop p L)" "p \<le> length L"
  shows "take (length w) (drop p (L @ [f])) = w"
  using assms prefix_length [OF assms] by simp

lemma take_drop_snoc_full:
  assumes "w = take (length w) (drop p L)" "p + length w = length L"
  shows "take (Suc (length w)) (drop p (L @ [f])) = w @ [f]"
  using assms by simp

lemma cursor_inv_frame [frame_simps]:
  "cursor_inv (s\<lparr>ls_writer := w\<rparr>) = cursor_inv s"
  "cursor_inv (s\<lparr>ls_wire := fs\<rparr>) = cursor_inv s"
  by (simp_all add: cursor_inv_def)

lemma cursor_inv_log: "cursor_inv s \<Longrightarrow> cursor_inv (s\<lparr>ls_log := ls_log s @ [b]\<rparr>)"
  by (auto simp: cursor_inv_def Let_def)

lemma cursor_inv_seen:
  assumes "cursor_inv s" "ls_pos s < 2 ^ 64" "last_epoch (sd_cursor (ls_client s)) = Some (ls_epoch s)"
  shows "\<exists>x. last_seen_seq (sd_cursor (ls_client s)) = Some x \<and> unat x < ls_pos s \<and>
             (ls_got s \<noteq> [] \<longrightarrow> Suc (unat x) = ls_pos s) \<and>
             (ls_got s = [] \<longrightarrow> Suc (unat x) < length (ls_log s) - ls_cap s)"
proof (cases "ls_got s = []")
  case True
  with assms show ?thesis by (auto simp: cursor_inv_def Let_def)
next
  case False
  have "unat (of_nat (ls_pos s - 1) :: u64) = ls_pos s - 1"
    using assms(2) by (intro unat_of_nat_fits) simp
  moreover from False have "0 < ls_pos s" by simp
  moreover have "last_seen_seq (sd_cursor (ls_client s)) = Some (of_nat (ls_pos s - 1))"
    using False assms(1) by (simp add: cursor_inv_def Let_def)
  ultimately show ?thesis using False by (intro exI [of _ "of_nat (ls_pos s - 1)"]) linarith
qed

section \<open>Every step keeps the invariant\<close>

lemma link_inv_init: "link_inv (link_init e cap)"
  using ring_of_new [of e cap]
  by (simp add: link_inv_def link_init_def writer_spawn_def seq_fits_def cursor_inv_def
      dedup_new_def cursor_fresh_def)

lemma link_inv_detach: "link_inv s \<Longrightarrow> link_inv (do_detach s)"
  by (simp add: link_inv_def do_detach_def writer_step_def frame_simps)

lemma link_inv_drop: "link_inv s \<Longrightarrow> link_inv (do_drop s)"
  by (auto simp: link_inv_def do_drop_def frame_simps)

lemma link_inv_restart:
  assumes "link_inv s" "last_epoch (sd_cursor (ls_client s)) \<noteq> Some e"
  shows "link_inv (do_restart s e cap)"
  using assms link_inv_init [of e cap]
  by (simp add: link_inv_def do_restart_def link_init_def cursor_inv_def)

lemma link_inv_push:
  assumes inv: "link_inv s" and fits: "length (ls_log s) + 1 < 2 ^ 64"
  shows "link_inv (do_push s b)"
proof -
  let ?w = "ls_writer s" and ?L = "ls_frames s"
  let ?f = "fst (rb_push (dw_ring ?w) b)"
  have ring: "ring_of (ls_epoch s) (ls_cap s) (ls_log s) (dw_ring ?w)"
    and got: "ls_got s = take (length (ls_got s)) (drop (ls_start s) ?L)"
    and wire: "ls_wire s = take (length (ls_wire s)) (drop (ls_pos s) ?L)"
    and pos: "ls_pos s \<le> length ?L"
    using inv by (auto simp: link_inv_def)
  have L': "log_frames (ls_epoch s) (ls_log s @ [b]) = ?L @ [?f]"
    using ring_of_push_frame [OF ring, of b] by (simp add: log_frames_snoc)
  have got': "take (length (ls_got s)) (drop (ls_start s) (?L @ [?f])) = ls_got s"
    using take_drop_snoc [OF got] pos by simp
  have wire': "take (length (ls_wire s)) (drop (ls_pos s) (?L @ [?f])) = ls_wire s"
    using take_drop_snoc [OF wire pos] .
  note base = inv fits ring_of_push [OF ring, of b] L' got' wire'
  show ?thesis
  proof (cases "dw_socket ?w")
    case None
    with base show ?thesis
      by (auto simp: link_inv_def do_push_def writer_step_def carried_def frame_simps cursor_inv_log
          seq_fits_def case_prod_beta)
  next
    case (Some nl)
    then obtain n l where nl: "dw_socket ?w = Some (n, l)" by (cases nl) auto
    show ?thesis
    proof (cases "n = 0")
      case True
      with base nl show ?thesis
        by (auto simp: link_inv_def do_push_def writer_step_def carried_def frame_simps cursor_inv_log
            seq_fits_def case_prod_beta send_link)
    next
      case False
      with inv nl have full: "ls_pos s + length (ls_wire s) = length ?L"
        by (auto simp: link_inv_def)
      from take_drop_snoc_full [OF wire full]
      have wire'': "take (Suc (length (ls_wire s))) (drop (ls_pos s) (?L @ [?f])) = ls_wire s @ [?f]" .
      from False base nl full wire'' show ?thesis
        by (auto simp: link_inv_def do_push_def writer_step_def carried_def frame_simps cursor_inv_log
            seq_fits_def case_prod_beta send_link)
    qed
  qed
qed

lemma link_inv_deliver:
  assumes inv: "link_inv s"
  shows "link_inv (do_deliver s)"
proof (cases "ls_wire s")
  case Nil
  with inv show ?thesis by (simp add: do_deliver_def)
next
  case (Cons f fs)
  let ?L = "ls_frames s"
  have got: "ls_got s = take (length (ls_got s)) (drop (ls_start s) ?L)"
    and wire: "ls_wire s = take (length (ls_wire s)) (drop (ls_pos s) ?L)"
    and pos: "ls_pos s \<le> length ?L" and fits: "seq_fits (ls_log s)"
    using inv by (auto simp: link_inv_def)
  from prefix_length [OF wire pos] Cons have lt: "ls_pos s < length ?L" by simp
  from wire Cons have "f # fs = take (Suc (length fs)) (drop (ls_pos s) ?L)" by simp
  also have "\<dots> = ?L ! ls_pos s # take (length fs) (drop (Suc (ls_pos s)) ?L)"
    using lt by (simp add: Cons_nth_drop_Suc [symmetric])
  finally have f: "f = ?L ! ls_pos s" and fs: "fs = take (length fs) (drop (Suc (ls_pos s)) ?L)"
    by auto
  have ep: "sf_epoch f = ls_epoch s" and sq: "sf_seq f = of_nat (ls_pos s)"
    using f lt by (simp_all add: nth_log_frames)
  have bound: "ls_pos s < 2 ^ 64" using lt fits by (simp add: seq_fits_def)
  have "fst (accept (ls_client s) (ls_epoch s) (of_nat (ls_pos s)))"
  proof (cases "last_epoch (sd_cursor (ls_client s)) = Some (ls_epoch s)")
    case True
    then obtain x where "last_seen_seq (sd_cursor (ls_client s)) = Some x" "unat x < ls_pos s"
      using cursor_inv_seen [OF _ bound True] inv unfolding link_inv_def by blast
    with True bound show ?thesis
      by (simp add: accept_same_epoch word_less_nat_alt unat_of_nat_fits del: of_nat_add)
  next
    case False
    then show ?thesis by (rule accept_new_epoch)
  qed
  then obtain d where acc: "accept (ls_client s) (ls_epoch s) (of_nat (ls_pos s)) = (True, d)"
    by (metis prod.collapse)
  with accept_cursor have cur: "sd_cursor d =
      \<lparr>last_epoch = Some (ls_epoch s), last_seen_seq = Some (of_nat (ls_pos s))\<rparr>"
    by (metis fst_conv snd_conv)
  have got': "ls_got s @ [f] = take (Suc (length (ls_got s))) (drop (ls_start s) ?L)"
  proof -
    have "take (Suc (length (ls_got s))) (drop (ls_start s) ?L)
        = take (length (ls_got s)) (drop (ls_start s) ?L) @ [drop (ls_start s) ?L ! length (ls_got s)]"
      using lt by (intro take_Suc_conv_app_nth) simp
    with got f lt show ?thesis by simp
  qed
  have "do_deliver s = s\<lparr>ls_wire := fs, ls_client := d, ls_got := ls_got s @ [f]\<rparr>"
    using Cons acc ep sq by (simp add: do_deliver_def)
  with inv Cons fs got' cur lt show ?thesis
    by (auto simp: link_inv_def cursor_inv_def Let_def)
qed

text \<open>A reconnect, by the three answers the server can give.\<close>

lemma reconnect_ok:
  assumes inv: "link_inv s" and e: "last_epoch (sd_cursor (ls_client s)) = Some (ls_epoch s)"
    and got: "ls_got s \<noteq> []"
    and ok: "replay_since (dw_ring (ls_writer s)) (last_seen_seq (sd_cursor (ls_client s))) = Inr fs"
  shows "fs = drop (ls_pos s) (ls_frames s)"
proof -
  have fits: "seq_fits (ls_log s)" and pos: "ls_pos s \<le> length (ls_log s)"
    and ring: "ring_of (ls_epoch s) (ls_cap s) (ls_log s) (dw_ring (ls_writer s))"
    using inv by (auto simp: link_inv_def)
  then have "ls_pos s < 2 ^ 64" by (simp add: seq_fits_def)
  with cursor_inv_seen [OF _ this e] inv got obtain x
    where x: "last_seen_seq (sd_cursor (ls_client s)) = Some x" "Suc (unat x) = ls_pos s"
    by (auto simp: link_inv_def)
  have "x \<noteq> - 1"
    using x(2) \<open>ls_pos s < 2 ^ 64\<close> by (auto simp: unsigned_minus_1_eq_mask mask_eq_exp_minus_1)
  with replay_since_ok [OF ring fits, of x fs] ok x filter_log_frames [OF fits] show ?thesis
    by simp
qed

lemma reconnect_refused:
  assumes inv: "link_inv s" and e: "last_epoch (sd_cursor (ls_client s)) = Some (ls_epoch s)"
  shows "(\<exists>y. replay_since (dw_ring (ls_writer s)) (last_seen_seq (sd_cursor (ls_client s))) = Inl y) \<longrightarrow>
           (\<exists>x. last_seen_seq (sd_cursor (ls_client s)) = Some x \<and>
             unat x < length (ls_log s) \<and> Suc (unat x) < length (ls_log s) - ls_cap s)" (is ?A)
    and "ls_got s = [] \<Longrightarrow>
           \<exists>y. replay_since (dw_ring (ls_writer s)) (last_seen_seq (sd_cursor (ls_client s))) = Inl y"
proof -
  have fits: "seq_fits (ls_log s)" and pos: "ls_pos s \<le> length (ls_log s)"
    and ring: "ring_of (ls_epoch s) (ls_cap s) (ls_log s) (dw_ring (ls_writer s))"
    using inv by (auto simp: link_inv_def)
  then have b: "ls_pos s < 2 ^ 64" by (simp add: seq_fits_def)
  from cursor_inv_seen [OF _ b e] inv obtain x
    where x: "last_seen_seq (sd_cursor (ls_client s)) = Some x" "unat x < ls_pos s"
      "ls_got s = [] \<Longrightarrow> Suc (unat x) < length (ls_log s) - ls_cap s"
    by (auto simp: link_inv_def)
  have "x \<noteq> - 1"
    using x(2) b by (auto simp: unsigned_minus_1_eq_mask mask_eq_exp_minus_1)
  note err = replay_since_err [OF ring fits this]
  show ?A
    using x pos err by auto
  show "ls_got s = [] \<Longrightarrow>
      \<exists>y. replay_since (dw_ring (ls_writer s)) (last_seen_seq (sd_cursor (ls_client s))) = Inl y"
    using x err by auto
qed

lemma link_inv_reconnect_refused:
  assumes inv: "link_inv s" and e: "last_epoch (sd_cursor (ls_client s)) = Some (ls_epoch s)"
    and r: "replay_since (dw_ring (ls_writer s)) (last_seen_seq (sd_cursor (ls_client s))) = Inl y"
  shows "link_inv (do_reconnect s (n, l))"
proof -
  from reconnect_refused(1) [OF inv e] r obtain x
    where x: "last_seen_seq (sd_cursor (ls_client s)) = Some x" "unat x < length (ls_log s)"
      "Suc (unat x) < length (ls_log s) - ls_cap s" by auto
  with inv e r show ?thesis
    by (auto simp: link_inv_def do_reconnect_def resume_cursor_def writer_step_def Let_def
        carried_def cursor_inv_def split: WindowExceeded.splits)
qed

lemma link_inv_reconnect:
  assumes inv: "link_inv s"
  shows "link_inv (do_reconnect s (n, l))"
proof (cases "last_epoch (sd_cursor (ls_client s)) = Some (ls_epoch s)")
  case e: True
  show ?thesis
  proof (cases "replay_since (dw_ring (ls_writer s)) (last_seen_seq (sd_cursor (ls_client s)))")
    case (Inl y)
    with inv e show ?thesis by (rule link_inv_reconnect_refused)
  next
    case (Inr fs)
    then have got: "ls_got s \<noteq> []" using reconnect_refused(2) [OF inv e] by auto
    from inv got have "last_seen_seq (sd_cursor (ls_client s)) \<noteq> None"
      by (auto simp: link_inv_def cursor_inv_def Let_def)
    with inv e Inr reconnect_ok [OF inv e got Inr] send_replay_link [of n l fs]
      map_fst_send_replay [of link_send "(n, l)" fs]
    show ?thesis
      by (auto simp: link_inv_def do_reconnect_def resume_cursor_def writer_step_def Let_def
          carried_def frame_simps case_prod_beta)
  qed
next
  case False
  let ?k = "length (ls_log s) - ls_cap s"
  have ring: "ring_of (ls_epoch s) (ls_cap s) (ls_log s) (dw_ring (ls_writer s))"
    using inv by (simp add: link_inv_def)
  with inv False replay_since_None [OF ring] send_replay_link [of n l "drop ?k (ls_frames s)"]
    map_fst_send_replay [of link_send "(n, l)" "drop ?k (ls_frames s)"]
  show ?thesis
    by (auto simp: link_inv_def do_reconnect_def resume_cursor_def writer_step_def Let_def
        carried_def cursor_inv_def case_prod_beta)
qed

lemma link_step_inv: "link_step s t \<Longrightarrow> link_inv s \<Longrightarrow> link_inv t"
proof (induction rule: link_step.induct)
  case (reconnect s sink)
  then show ?case by (cases sink) (simp add: link_inv_reconnect)
qed (simp_all add: link_inv_push link_inv_deliver link_inv_drop link_inv_detach link_inv_restart)

lemma link_reachable_inv: "link_reachable s \<Longrightarrow> link_inv s"
  by (induction rule: link_reachable.induct) (auto intro: link_inv_init link_step_inv)

section \<open>Properties\<close>


definition example_run :: link_state where
  "example_run = do_deliver (do_reconnect (do_push (do_drop (do_deliver
     (do_push (do_reconnect (link_init 7 4) (9, False)) Pong))) (KillState True)) (9, False))"

lemma example_run_reachable: "link_reachable example_run"
  unfolding example_run_def
  by (intro link_reachable.step [OF _ link_step.deliver] link_reachable.step [OF _ link_step.linkdown]
      link_reachable.step [OF _ link_step.reconnect] link_reachable.step [OF _ link_step.push]
      link_reachable.init)
    (simp_all add: do_push_def do_drop_def do_deliver_def do_reconnect_def link_init_def
      case_prod_beta Let_def split: list.splits)


text \<open>
  The replay loop does not stop at a failed send. If one send of a replay times out but
  the socket recovers, the resume still reports success, the client accepts the later frames, and
  its cursor moves past the lost frame, which no later resume will deliver again.
\<close>

fun flaky_send :: "nat frame_sink" where
  "flaky_send 0 f = (1, None)"
| "flaky_send n f = (Suc n, Some True)"

lemma replay_ignores_failed_send:
  "\<exists>(w :: nat DeviceWriter) w' out.
     writer_step flaky_send w (Resume (Some 0) 0) = (w', Some ResumeOk, out) \<and>
     map (\<lambda>(f, ok). (sf_seq f, ok)) out = [(1, False), (2, True)] \<and> dw_socket w' \<noteq> None \<and>
     (let d = \<lparr>sd_cursor = \<lparr>last_epoch = Some 7, last_seen_seq = Some 0\<rparr>\<rparr>;
          (accepted, d') = accept_all d (map fst (filter snd out))
      in map sf_seq accepted = [2] \<and>
         replay_since (dw_ring w') (last_seen_seq (sd_cursor d')) = Inr [])"
proof -
  let ?r = "rb_push_all (rb_new 7 5) [Pong, Pong, Pong]"
  let ?w = "\<lparr>dw_ring = ?r, dw_socket = None\<rparr> :: nat DeviceWriter"
  let ?o = "writer_step flaky_send ?w (Resume (Some 0) 0)"
  have "fst (snd ?o) = Some ResumeOk"
    "map (\<lambda>(f, ok). (sf_seq f, ok)) (snd (snd ?o)) = [(1, False), (2, True)]"
    "dw_socket (fst ?o) \<noteq> None"
    "map sf_seq (fst (accept_all \<lparr>sd_cursor = \<lparr>last_epoch = Some 7, last_seen_seq = Some 0\<rparr>\<rparr>
        (map fst (filter snd (snd (snd ?o)))))) = [2]"
    "replay_since (dw_ring (fst ?o)) (last_seen_seq (sd_cursor (snd (accept_all
        \<lparr>sd_cursor = \<lparr>last_epoch = Some 7, last_seen_seq = Some 0\<rparr>\<rparr>
        (map fst (filter snd (snd (snd ?o)))))))) = Inr []"
    by code_simp+
  then show ?thesis
    by (intro exI [of _ ?w] exI [of _ "fst ?o"] exI [of _ "snd (snd ?o)"])
      (simp add: Let_def case_prod_beta prod_eq_iff)
qed

end
