(* ===== verification/RateWindow.thy ===== *)
theory RateWindow
  imports Prelude
begin

text \<open>
  The contract of a fixed-window rate limiter with a 60 second window, shared by the inbound frame
  limiter (\<open>guard.rs\<close>) and the pairing attempt limiter (\<open>pairing.rs\<close>). \<open>expired s t\<close> says that an event
  at time \<open>t\<close> opens a new window, \<open>used\<close> counts the events of the current one, and \<open>safe n s\<close> that \<open>n\<close>
  more events do not overflow the counter.
\<close>

definition WINDOW :: duration where
  "WINDOW = from_secs 60"

locale fixed_window =
  fixes tick :: "'s \<Rightarrow> instant \<Rightarrow> bool \<times> 's"
    and expired :: "'s \<Rightarrow> instant \<Rightarrow> bool"
    and used :: "'s \<Rightarrow> nat"
    and lim :: "'s \<Rightarrow> nat"
    and safe :: "nat \<Rightarrow> 's \<Rightarrow> bool"
  assumes tick_reset: "safe (Suc n) s \<Longrightarrow> expired s t \<Longrightarrow> used (snd (tick s t)) = 1"
    and tick_opens: "expired s t \<Longrightarrow> t' \<le> t + WINDOW \<Longrightarrow> \<not> expired (snd (tick s t)) t'"
    and tick_counts: "safe (Suc n) s \<Longrightarrow> \<not> expired s t \<Longrightarrow> used (snd (tick s t)) = Suc (used s)"
    and tick_keeps: "\<not> expired s t \<Longrightarrow> expired (snd (tick s t)) t' = expired s t'"
    and tick_allows: "fst (tick s t) \<longleftrightarrow> used (snd (tick s t)) \<le> lim s"
    and tick_lim: "lim (snd (tick s t)) = lim s"
    and tick_safe: "safe (Suc n) s \<Longrightarrow> safe n (snd (tick s t))"
begin

primrec run :: "'s \<Rightarrow> instant list \<Rightarrow> bool list" where
  "run s [] = []"
| "run s (t # ts) = fst (tick s t) # run (snd (tick s t)) ts"

definition allowed :: "'s \<Rightarrow> instant list \<Rightarrow> nat" where
  "allowed s ts = length (filter id (run s ts))"

lemma allowed_Nil [simp]: "allowed s [] = 0"
  by (simp add: allowed_def)

lemma allowed_Cons:
  "allowed s (t # ts) = (if fst (tick s t) then 1 else 0) + allowed (snd (tick s t)) ts"
  by (simp add: allowed_def)

text \<open>Inside one window at most the unused part of the limit passes.\<close>

lemma allowed_in_window:
  assumes "safe (length ts) s" "\<forall>t\<in>set ts. \<not> expired s t"
  shows "allowed s ts \<le> lim s - used s"
  using assms
proof (induction ts arbitrary: s)
  case (Cons t ts)
  let ?s' = "snd (tick s t)"
  have u: "used ?s' = Suc (used s)" using Cons.prems tick_counts by simp
  have "allowed ?s' ts \<le> lim ?s' - used ?s'"
    using Cons.prems by (intro Cons.IH) (auto simp: tick_safe tick_keeps)
  with u show ?case by (auto simp: allowed_Cons tick_allows tick_lim)
qed simp

text \<open>
  Over any 60 seconds at most twice the limit passes: a second window can open at most once in
  them.
\<close>

lemma allowed_any_minute:
  assumes "safe (length ts) s" "\<forall>t\<in>set ts. a \<le> t \<and> t \<le> a + WINDOW"
  shows "allowed s ts \<le> (lim s - used s) + lim s"
  using assms
proof (induction ts arbitrary: s)
  case (Cons t ts)
  let ?s' = "snd (tick s t)"
  have safe': "safe (length ts) ?s'" using Cons.prems by (simp add: tick_safe)
  show ?case
  proof (cases "expired s t")
    case True
    have "\<forall>t'\<in>set ts. \<not> expired ?s' t'"
    proof
      fix t' assume "t' \<in> set ts"
      with Cons.prems have "t' \<le> t + WINDOW" by fastforce
      with True show "\<not> expired ?s' t'" by (rule tick_opens)
    qed
    with safe' have "allowed ?s' ts \<le> lim ?s' - used ?s'" by (rule allowed_in_window)
    moreover have "used ?s' = 1" using True Cons.prems tick_reset by simp
    ultimately show ?thesis by (auto simp: allowed_Cons tick_allows tick_lim)
  next
    case False
    have "allowed ?s' ts \<le> (lim ?s' - used ?s') + lim ?s'"
      using safe' Cons.prems by (intro Cons.IH) auto
    moreover have "used ?s' = Suc (used s)" using False Cons.prems tick_counts by simp
    ultimately show ?thesis by (auto simp: allowed_Cons tick_allows tick_lim)
  qed
qed simp

end

end
