(* ===== verification/MobileGuard.thy ===== *)
theory MobileGuard
  imports WireTypes RateWindow
begin

text \<open>
  \<open>crates/haily-io/src/mobile/guard.rs\<close>: the per-frame checks of an authenticated mobile connection:
  whether a remote approval is honoured, which device owns a session, and the inbound rate limit.
\<close>

section \<open>Model\<close>

definition approval_allowed :: "MobileApprovalPolicy \<Rightarrow> bool \<Rightarrow> bool \<Rightarrow> bool \<Rightarrow> bool" where
  "approval_allowed policy reversible biometric_ok approved =
     (if \<not> approved then False
      else case policy of
             Allow \<Rightarrow> True
           | BiometricRequired \<Rightarrow> reversible \<or> biometric_ok
           | DenyIrreversible \<Rightarrow> reversible)"

definition claim_or_verify_session ::
  "(uuid, uuid) fmap \<Rightarrow> uuid \<Rightarrow> uuid \<Rightarrow> bool \<times> (uuid, uuid) fmap" where
  "claim_or_verify_session session_owner session_id device_id =
     (let (owner, m) = dm_or_insert session_id device_id session_owner
      in (owner = device_id, m))"

record RateLimiter =
  rl_limit_per_minute :: u32
  rl_count :: u32
  rl_window_start :: instant

definition rl_new :: "u32 \<Rightarrow> instant \<Rightarrow> RateLimiter" where
  "rl_new limit_per_minute now =
     \<lparr>rl_limit_per_minute = limit_per_minute, rl_count = 0, rl_window_start = now\<rparr>"

definition rl_allow :: "RateLimiter \<Rightarrow> instant \<Rightarrow> bool \<times> RateLimiter" where
  "rl_allow self now =
     (let self1 = (if duration_since now (rl_window_start self) > from_secs 60
                   then self\<lparr>rl_window_start := now, rl_count := 0\<rparr> else self);
          self2 = self1\<lparr>rl_count := rl_count self1 + 1\<rparr>
      in (rl_count self2 \<le> rl_limit_per_minute self2, self2))"

text \<open>The limiter's verdicts on frames arriving at the given times.\<close>

fun rl_run :: "RateLimiter \<Rightarrow> instant list \<Rightarrow> bool list" where
  "rl_run r [] = []"
| "rl_run r (t # ts) = (let (ok, r') = rl_allow r t in ok # rl_run r' ts)"

text \<open>A sequence of session-scoped frames, each by a device on a session.\<close>

fun claims :: "(uuid, uuid) fmap \<Rightarrow> (uuid \<times> uuid) list \<Rightarrow> bool list" where
  "claims m [] = []"
| "claims m ((sid, dev) # rest) =
     (let (ok, m') = claim_or_verify_session m sid dev in ok # claims m' rest)"

section \<open>The inbound limiter is a fixed window\<close>

definition rl_expired :: "RateLimiter \<Rightarrow> instant \<Rightarrow> bool" where
  "rl_expired r t \<longleftrightarrow> duration_since t (rl_window_start r) > from_secs 60"

definition rl_safe :: "nat \<Rightarrow> RateLimiter \<Rightarrow> bool" where
  "rl_safe n r \<longleftrightarrow> unat (rl_count r) + n < 2 ^ 32"

lemma unat_count_1: "unat (c :: u32) + Suc n < 2 ^ 32 \<Longrightarrow> unat (c + 1) = Suc (unat c)"
  by (rule unat_add_1) simp

interpretation rl: fixed_window rl_allow rl_expired "\<lambda>r. unat (rl_count r)"
  "\<lambda>r. unat (rl_limit_per_minute r)" rl_safe
  by unfold_locales
    (auto simp: rl_allow_def rl_expired_def rl_safe_def Let_def WINDOW_def duration_since_def
      word_le_nat_alt unat_count_1)

lemma rl_run_allowed: "length (filter id (rl_run r ts)) = rl.allowed r ts"
  by (induction ts arbitrary: r) (simp_all add: rl.allowed_Cons case_prod_beta)

section \<open>Session ownership\<close>

lemma claim_result:
  "fst (claim_or_verify_session m sid dev) \<longleftrightarrow> fmlookup m sid \<in> {None, Some dev}"
  by (auto simp: claim_or_verify_session_def dm_or_insert_def split: option.splits)

lemma claim_store:
  "fmlookup (snd (claim_or_verify_session m sid dev)) s =
     (if s = sid \<and> fmlookup m sid = None then Some dev else fmlookup m s)"
  by (auto simp: claim_or_verify_session_def dm_or_insert_def split: option.splits)

lemma claim_owner: "fmlookup (snd (claim_or_verify_session m sid dev)) sid \<noteq> None"
  by (auto simp: claim_store)

text \<open>The owner is the first device that named the session.\<close>

definition first_claimer :: "(uuid, uuid) fmap \<Rightarrow> (uuid \<times> uuid) list \<Rightarrow> uuid \<Rightarrow> uuid option" where
  "first_claimer m cs sid =
     (case fmlookup m sid of Some d \<Rightarrow> Some d | None \<Rightarrow> map_option snd (find (\<lambda>c. fst c = sid) cs))"

lemma first_claimer_Cons:
  "first_claimer m ((sid, dev) # cs) s =
     first_claimer (snd (claim_or_verify_session m sid dev)) cs s"
  by (auto simp: first_claimer_def claim_store split: option.splits)

lemma claims_first:
  "i < length cs \<Longrightarrow>
   claims m cs ! i \<longleftrightarrow> first_claimer m cs (fst (cs ! i)) = Some (snd (cs ! i))"
proof (induction cs arbitrary: m i)
  case (Cons c cs)
  obtain sid dev where c: "c = (sid, dev)" by fastforce
  show ?case
  proof (cases i)
    case 0
    then show ?thesis
      using claim_result [of m sid dev]
      by (auto simp: c case_prod_beta first_claimer_def split: option.splits)
  next
    case (Suc j)
    with Cons show ?thesis
      by (simp add: c case_prod_beta first_claimer_Cons [symmetric])
  qed
qed simp

section \<open>Properties\<close>

text \<open>
  A remote approval is honoured exactly when the user approved and the policy permits
  it: always under \<open>Allow\<close>, for a reversible action or after a biometric check under
  \<open>BiometricRequired\<close>, and only for a reversible action under \<open>DenyIrreversible\<close>. In particular an
  irreversible action is never approved remotely under \<open>DenyIrreversible\<close>, and never without a
  biometric check under the default policy.
\<close>

lemma remote_approval_policy:
  "approval_allowed p reversible bio approved \<longleftrightarrow>
     approved \<and> (p = BiometricRequired \<longrightarrow> reversible \<or> bio) \<and> (p = DenyIrreversible \<longrightarrow> reversible)"
  by (cases p) (auto simp: approval_allowed_def)

text \<open>
  A session belongs to the first device that names it. In any sequence of session-scoped
  frames from any devices, a frame passes the check exactly when its device is the first one that
  used that session.
\<close>

lemma session_owned_by_first_claimer:
  assumes "i < length cs"
  shows "claims fmempty cs ! i \<longleftrightarrow>
           map_option snd (find (\<lambda>c. fst c = fst (cs ! i)) cs) = Some (snd (cs ! i))"
  using claims_first [OF assms, of fmempty] by (simp add: first_claimer_def)

text \<open>
  In any 60 seconds at most twice the configured number of inbound frames pass, and at
  most the configured number within one window of the limiter.
\<close>

lemma inbound_rate_bound:
  assumes "unat (rl_count r) + length ts < 2 ^ 32"
    and "\<forall>t\<in>set ts. a \<le> t \<and> t \<le> a + from_secs 60"
  shows "length (filter id (rl_run r ts)) \<le> 2 * unat (rl_limit_per_minute r) \<and>
         ((\<forall>t\<in>set ts. t \<le> rl_window_start r + from_secs 60) \<longrightarrow>
            length (filter id (rl_run r ts)) \<le> unat (rl_limit_per_minute r) - unat (rl_count r))"
proof -
  have safe: "rl_safe (length ts) r" using assms(1) by (simp add: rl_safe_def)
  have "rl.allowed r ts \<le> 2 * unat (rl_limit_per_minute r)"
    using rl.allowed_any_minute [OF safe, of a] assms(2) by (simp add: WINDOW_def)
  moreover have "rl.allowed r ts \<le> unat (rl_limit_per_minute r) - unat (rl_count r)"
    if "\<forall>t\<in>set ts. t \<le> rl_window_start r + from_secs 60"
    using that by (intro rl.allowed_in_window [OF safe]) (auto simp: rl_expired_def duration_since_def)
  ultimately show ?thesis by (simp add: rl_run_allowed)
qed

lemma inbound_rate_bound_witness:
  "length (filter id (rl_run (rl_new 2 0) [1, 2, 3])) \<le> 4 \<and>
   rl_run (rl_new 2 0) [1, 2, 3] = [True, True, False]"
proof -
  have "length (filter id (rl_run (rl_new 2 0) [1, 2, 3])) \<le> 4"
    using inbound_rate_bound [of "rl_new 2 0" "[1, 2, 3]" 0]
    by (simp add: rl_new_def from_secs_def)
  moreover have "rl_run (rl_new 2 0) [1, 2, 3] = [True, True, False]"
    by (simp add: rl_new_def rl_allow_def Let_def time_simps)
  ultimately show ?thesis by simp
qed

text \<open>
  The limiter is not a sliding window. With a limit of two frames per minute, four
  frames pass within less than one second across a window boundary.
\<close>

lemma limiter_not_sliding:
  "rl_run (rl_new 2 0) [from_millis 59500, from_millis 59600, from_millis 60100, from_millis 60200] =
     [True, True, True, True]"
  by (simp add: rl_new_def rl_allow_def Let_def time_simps)

end
