(* ===== verification/PairingService.thy ===== *)
theory PairingService
  imports WireTypes RateWindow
begin

text \<open>
  \<open>crates/haily-io/src/mobile/pairing.rs\<close>: single-use pairing codes. The injected clock is passed to
  each operation. \<open>redeem\<close> runs up to its only \<open>await\<close>: it either finishes with an outcome or parks a
  waiter (a oneshot receiver, named by a number) that \<open>resolve\<close> later wakes with the human decision;
  \<open>redeem_finish\<close> is what follows the \<open>await\<close>, with \<open>None\<close> for a timeout or a dropped sender.
\<close>

section \<open>Model\<close>

definition PAIRING_CODE_TTL :: duration where "PAIRING_CODE_TTL = from_secs 120"
definition RATE_LIMIT_PER_MINUTE :: u32 where "RATE_LIMIT_PER_MINUTE = 5"
definition RATE_LIMIT_SWEEP_THRESHOLD :: nat where "RATE_LIMIT_SWEEP_THRESHOLD = 256"
definition RATE_LIMIT_ENTRY_TTL :: duration where "RATE_LIMIT_ENTRY_TTL = from_secs 300"

datatype RedeemOutcome =
    Confirmed
  | AlreadyIssued uuid string
  | Denied
  | Expired
  | Invalid
  | RateLimited

datatype CodeState =
    AwaitingConfirm
  | Resolved bool
  | Issued (is_device_id: uuid) (is_token: string) (is_device_name: string)

record CodeEntry =
  ce_device_name_hint :: "string option"
  ce_minted_at :: instant
  ce_pre_approved :: bool
  ce_state :: CodeState
  ce_waiters :: "nat list"

record PairingService =
  ps_codes :: "(string, CodeEntry) fmap"
  ps_rate_limit :: "(IpAddr, u32 \<times> instant) fmap"

definition ps_new :: PairingService where
  "ps_new = \<lparr>ps_codes = fmempty, ps_rate_limit = fmempty\<rparr>"

text \<open>The freshly generated six-digit code is an argument.\<close>

definition mint_code ::
  "PairingService \<Rightarrow> instant \<Rightarrow> string \<Rightarrow> string option \<Rightarrow> bool \<Rightarrow> PairingService" where
  "mint_code self now code device_name_hint pre_approved =
     self\<lparr>ps_codes := fmupd code
       \<lparr>ce_device_name_hint = device_name_hint, ce_minted_at = now, ce_pre_approved = pre_approved,
        ce_state = AwaitingConfirm, ce_waiters = []\<rparr> (ps_codes self)\<rparr>"

definition sweep_stale_rate_limit_entries ::
  "(IpAddr, u32 \<times> instant) fmap \<Rightarrow> instant \<Rightarrow> (IpAddr, u32 \<times> instant) fmap" where
  "sweep_stale_rate_limit_entries m now =
     (if dm_len m \<le> RATE_LIMIT_SWEEP_THRESHOLD then m
      else dm_retain (\<lambda>_ (_, window_start). duration_since now window_start < RATE_LIMIT_ENTRY_TTL) m)"

definition is_rate_limited :: "PairingService \<Rightarrow> instant \<Rightarrow> IpAddr \<Rightarrow> bool \<times> PairingService" where
  "is_rate_limited self now source =
     (let (entry, m) = dm_or_insert source (0, now) (ps_rate_limit self);
          entry1 = (if duration_since now (snd entry) > from_secs 60 then (0, now) else entry);
          entry2 = (fst entry1 + 1, snd entry1);
          limited = (fst entry2 > RATE_LIMIT_PER_MINUTE);
          m' = sweep_stale_rate_limit_entries (fmupd source entry2 m) now
      in (limited, self\<lparr>ps_rate_limit := m'\<rparr>))"

text \<open>Resolving returns the waiters it wakes.\<close>

definition resolve :: "PairingService \<Rightarrow> string \<Rightarrow> bool \<Rightarrow> bool \<times> nat list \<times> PairingService" where
  "resolve self code approved =
     (case fmlookup (ps_codes self) code of
        None \<Rightarrow> (False, [], self)
      | Some entry \<Rightarrow>
          if ce_state entry \<noteq> AwaitingConfirm then (False, [], self)
          else (True, ce_waiters entry,
                self\<lparr>ps_codes := fmupd code
                  (entry\<lparr>ce_state := Resolved approved, ce_waiters := []\<rparr>) (ps_codes self)\<rparr>))"

definition confirm :: "PairingService \<Rightarrow> string \<Rightarrow> bool \<Rightarrow> bool \<times> nat list \<times> PairingService" where
  "confirm self code approved = resolve self code approved"

datatype RedeemStep = Done RedeemOutcome | Await nat

text \<open>
  The result also lists the waiters of other requests that the pre-approved branch wakes. \<open>now1\<close> and
  \<open>now2\<close> are the two readings of the clock, \<open>w\<close> names the receiver a parked request waits on.
\<close>

definition redeem ::
  "PairingService \<Rightarrow> instant \<Rightarrow> instant \<Rightarrow> nat \<Rightarrow> string \<Rightarrow> string \<Rightarrow> IpAddr \<Rightarrow>
   RedeemStep \<times> nat list \<times> PairingService" where
  "redeem self now1 now2 w code device_name source =
     (let (limited, s1) = is_rate_limited self now1 source
      in if limited then (Done RateLimited, [], s1)
         else case fmlookup (ps_codes s1) code of
           None \<Rightarrow> (Done Invalid, [], s1)
         | Some entry \<Rightarrow>
             (let expired = (duration_since now2 (ce_minted_at entry) > PAIRING_CODE_TTL)
              in case ce_state entry of
                   Issued device_id token issued_name \<Rightarrow>
                     (if device_name = issued_name then (Done (AlreadyIssued device_id token), [], s1)
                      else (Done Invalid, [], s1))
                 | st \<Rightarrow>
                     (if expired
                      then (Done Expired, [], s1\<lparr>ps_codes := fmdrop code (ps_codes s1)\<rparr>)
                      else case st of
                             Resolved approved \<Rightarrow>
                               (Done (if approved then Confirmed else Denied), [], s1)
                           | _ \<Rightarrow>
                               if ce_pre_approved entry
                               then (let (_, woken, s2) = resolve s1 code True
                                     in (Done Confirmed, woken, s2))
                               else (Await w, [],
                                     s1\<lparr>ps_codes := fmupd code
                                       (entry\<lparr>ce_waiters := ce_waiters entry @ [w]\<rparr>) (ps_codes s1)\<rparr>))))"

definition redeem_finish :: "bool option \<Rightarrow> RedeemOutcome" where
  "redeem_finish answer =
     (case answer of
        Some approved \<Rightarrow> if approved then Confirmed else Denied
      | None \<Rightarrow> Denied)"

definition record_issued ::
  "PairingService \<Rightarrow> string \<Rightarrow> uuid \<Rightarrow> string \<Rightarrow> string \<Rightarrow> PairingService" where
  "record_issued self code device_id token device_name =
     (case fmlookup (ps_codes self) code of
        None \<Rightarrow> self
      | Some entry \<Rightarrow>
          (case ce_state entry of
             Issued _ _ _ \<Rightarrow> self
           | _ \<Rightarrow> self\<lparr>ps_codes := fmupd code
                    (entry\<lparr>ce_state := Issued device_id token device_name\<rparr>) (ps_codes self)\<rparr>))"

definition pending_confirms :: "PairingService \<Rightarrow> (string, string) fmap" where
  "pending_confirms self =
     fmmap (\<lambda>e. case ce_device_name_hint e of Some n \<Rightarrow> n | None \<Rightarrow> ''unknown device'')
       (dm_retain (\<lambda>_ e. ce_state e = AwaitingConfirm \<and> \<not> ce_pre_approved e) (ps_codes self))"

section \<open>Facts on the operations\<close>

lemma rate_limited_codes [frame_simps]: "ps_codes (snd (is_rate_limited s t ip)) = ps_codes s"
  by (simp add: is_rate_limited_def Let_def case_prod_beta)

lemma resolve_spec:
  "resolve s code b =
     (case fmlookup (ps_codes s) code of
        Some e \<Rightarrow> if ce_state e = AwaitingConfirm
          then (True, ce_waiters e, s\<lparr>ps_codes := fmupd code
                 (e\<lparr>ce_state := Resolved b, ce_waiters := []\<rparr>) (ps_codes s)\<rparr>)
          else (False, [], s)
      | None \<Rightarrow> (False, [], s))"
  by (auto simp: resolve_def split: option.splits)

lemma resolve_other:
  "c' \<noteq> code \<Longrightarrow> fmlookup (ps_codes (snd (snd (resolve s code b)))) c' = fmlookup (ps_codes s) c'"
  by (auto simp: resolve_spec split: option.splits if_splits)

text \<open>Redemption leaves every other code alone.\<close>

lemma redeem_other:
  assumes "c' \<noteq> code"
  shows "fmlookup (ps_codes (snd (snd (redeem s t1 t2 w code name ip)))) c' = fmlookup (ps_codes s) c'"
  using assms
  by (auto simp: redeem_def Let_def case_prod_beta frame_simps resolve_other
      split: option.splits CodeState.splits if_splits)

text \<open>An issued code is final: no operation but minting the same code again changes its entry.\<close>

lemma issued_resolve:
  assumes "fmlookup (ps_codes s) c = Some e" "ce_state e = Issued d tok n"
  shows "fmlookup (ps_codes (snd (snd (resolve s code b)))) c = Some e"
  using assms by (auto simp: resolve_spec split: option.splits if_splits)

lemma issued_record:
  assumes "fmlookup (ps_codes s) c = Some e" "ce_state e = Issued d tok n"
  shows "fmlookup (ps_codes (record_issued s code d' tok' n')) c = Some e"
  using assms by (auto simp: record_issued_def split: option.splits CodeState.splits)

lemma issued_redeem:
  assumes "fmlookup (ps_codes s) c = Some e" "ce_state e = Issued d tok n"
  shows "fmlookup (ps_codes (snd (snd (redeem s t1 t2 w code name ip)))) c = Some e"
proof (cases "c = code")
  case True
  with assms show ?thesis
    by (auto simp: redeem_def Let_def case_prod_beta frame_simps split: option.splits)
next
  case False
  with assms show ?thesis by (simp add: redeem_other)
qed

text \<open>The ways a redemption can end.\<close>

lemma redeem_cases:
  assumes "redeem s t1 t2 w code name ip = (res, ws, s')"
  obtains (refused) out where "res = Done out" "out \<in> {RateLimited, Invalid}" "ws = []" "ps_codes s' = ps_codes s"
  | (replayed) e d tok where "res = Done (AlreadyIssued d tok)" "ws = []" "ps_codes s' = ps_codes s"
      "fmlookup (ps_codes s) code = Some e" "ce_state e = Issued d tok name"
  | (expired) e where "res = Done Expired" "ws = []" "ps_codes s' = fmdrop code (ps_codes s)"
      "fmlookup (ps_codes s) code = Some e" "duration_since t2 (ce_minted_at e) > PAIRING_CODE_TTL"
  | (decided) e b where "res = Done (if b then Confirmed else Denied)" "ws = []"
      "ps_codes s' = ps_codes s" "fmlookup (ps_codes s) code = Some e" "ce_state e = Resolved b"
      "duration_since t2 (ce_minted_at e) \<le> PAIRING_CODE_TTL"
  | (preapproved) e where "res = Done Confirmed" "fmlookup (ps_codes s) code = Some e"
      "ce_state e = AwaitingConfirm" "ce_pre_approved e"
      "resolve (snd (is_rate_limited s t1 ip)) code True = (True, ws, s')"
      "duration_since t2 (ce_minted_at e) \<le> PAIRING_CODE_TTL"
  | (parked) e where "res = Await w" "ws = []" "fmlookup (ps_codes s) code = Some e"
      "ce_state e = AwaitingConfirm" "\<not> ce_pre_approved e"
      "ps_codes s' = fmupd code (e\<lparr>ce_waiters := ce_waiters e @ [w]\<rparr>) (ps_codes s)"
proof (cases "fst (is_rate_limited s t1 ip)")
  case True
  with assms show ?thesis
    by (intro refused [of RateLimited]) (auto simp: redeem_def case_prod_beta frame_simps)
next
  case nl: False
  show ?thesis
  proof (cases "fmlookup (ps_codes s) code")
    case None
    with nl assms show ?thesis
      by (intro refused [of Invalid]) (auto simp: redeem_def case_prod_beta frame_simps)
  next
    case (Some e)
    note facts = nl Some assms
    show ?thesis
    proof (cases "ce_state e")
      case (Issued d tok n)
      with facts show ?thesis
        by (cases "name = n")
          (auto simp: redeem_def case_prod_beta frame_simps intro: refused [of Invalid]
            replayed [of d tok e])
    next
      case (Resolved b)
      with facts show ?thesis
        by (cases "duration_since t2 (ce_minted_at e) > PAIRING_CODE_TTL")
          (auto simp: redeem_def case_prod_beta frame_simps intro: expired [of e] decided [of b e])
    next
      case AwaitingConfirm
      with facts show ?thesis
        by (cases "duration_since t2 (ce_minted_at e) > PAIRING_CODE_TTL"; cases "ce_pre_approved e")
          (auto simp: redeem_def case_prod_beta frame_simps resolve_spec intro: expired [of e] parked [of e]
            preapproved [of e])
    qed
  qed
qed

section \<open>The attempt limiter is a fixed window\<close>

definition pairing_tick :: "IpAddr \<Rightarrow> PairingService \<Rightarrow> instant \<Rightarrow> bool \<times> PairingService" where
  "pairing_tick ip s t = (let (limited, s') = is_rate_limited s t ip in (\<not> limited, s'))"

definition pairing_expired :: "IpAddr \<Rightarrow> PairingService \<Rightarrow> instant \<Rightarrow> bool" where
  "pairing_expired ip s t \<longleftrightarrow>
     (case fmlookup (ps_rate_limit s) ip of
        None \<Rightarrow> True | Some (_, st) \<Rightarrow> duration_since t st > from_secs 60)"

definition pairing_used :: "IpAddr \<Rightarrow> PairingService \<Rightarrow> nat" where
  "pairing_used ip s = (case fmlookup (ps_rate_limit s) ip of None \<Rightarrow> 0 | Some (c, _) \<Rightarrow> unat c)"

definition pairing_safe :: "IpAddr \<Rightarrow> nat \<Rightarrow> PairingService \<Rightarrow> bool" where
  "pairing_safe ip n s \<longleftrightarrow> pairing_used ip s + n < 2 ^ 32"

text \<open>What an attempt leaves under its own source; the sweep never removes a live window.\<close>

lemma rate_limited_entry:
  "fmlookup (ps_rate_limit (snd (is_rate_limited s t ip))) ip =
     Some (if pairing_expired ip s t then (1, t)
           else (fst (the (fmlookup (ps_rate_limit s) ip)) + 1, snd (the (fmlookup (ps_rate_limit s) ip))))"
  by (auto simp: is_rate_limited_def Let_def case_prod_beta dm_or_insert_def pairing_expired_def
      sweep_stale_rate_limit_entries_def RATE_LIMIT_ENTRY_TTL_def duration_since_def from_secs_def
      split: option.splits)

lemma rate_limited_verdict:
  "fst (is_rate_limited s t ip) \<longleftrightarrow>
     fst (the (fmlookup (ps_rate_limit (snd (is_rate_limited s t ip))) ip)) > RATE_LIMIT_PER_MINUTE"
  unfolding rate_limited_entry
  by (auto simp: is_rate_limited_def Let_def case_prod_beta dm_or_insert_def pairing_expired_def
      duration_since_def split: option.splits)

interpretation pl: fixed_window "pairing_tick ip" "pairing_expired ip" "pairing_used ip"
  "\<lambda>_. unat RATE_LIMIT_PER_MINUTE" "pairing_safe ip" for ip
proof unfold_locales
  fix n s t t'
  note entry = rate_limited_entry [of s t ip]
  have tick: "snd (pairing_tick ip s t) = snd (is_rate_limited s t ip)"
    by (simp add: pairing_tick_def case_prod_beta)
  show "pairing_expired ip s t \<Longrightarrow> pairing_used ip (snd (pairing_tick ip s t)) = 1"
    by (simp add: pairing_used_def tick entry)
  show "pairing_expired ip s t \<Longrightarrow> t' \<le> t + WINDOW \<Longrightarrow> \<not> pairing_expired ip (snd (pairing_tick ip s t)) t'"
    unfolding tick
    by (simp add: pairing_expired_def [of ip "snd (is_rate_limited s t ip)"] entry WINDOW_def
        duration_since_def)
  show "\<not> pairing_expired ip s t \<Longrightarrow>
      pairing_expired ip (snd (pairing_tick ip s t)) t' = pairing_expired ip s t'"
    by (auto simp: pairing_expired_def tick entry split: option.splits)
  have count: "pairing_safe ip (Suc n) s \<Longrightarrow> \<not> pairing_expired ip s t \<Longrightarrow>
      pairing_used ip (snd (pairing_tick ip s t)) = Suc (pairing_used ip s)" for n
    by (auto simp: pairing_used_def pairing_safe_def tick entry pairing_expired_def
        intro!: unat_add_1 split: option.splits)
  then show "pairing_safe ip (Suc n) s \<Longrightarrow> \<not> pairing_expired ip s t \<Longrightarrow>
      pairing_used ip (snd (pairing_tick ip s t)) = Suc (pairing_used ip s)" .
  show "fst (pairing_tick ip s t) \<longleftrightarrow>
      pairing_used ip (snd (pairing_tick ip s t)) \<le> unat RATE_LIMIT_PER_MINUTE"
    using rate_limited_verdict [of s t ip]
    by (auto simp: pairing_tick_def case_prod_beta pairing_used_def entry word_less_nat_alt)
  show "pairing_safe ip (Suc n) s \<Longrightarrow> pairing_safe ip n (snd (pairing_tick ip s t))"
    using count [of n]
    by (cases "pairing_expired ip s t") (auto simp: pairing_safe_def pairing_used_def tick entry)
qed simp_all

section \<open>Properties\<close>

text \<open>The attempts of one source at the given times, each with whether it got past the limiter.\<close>

fun pairing_attempts :: "IpAddr \<Rightarrow> PairingService \<Rightarrow> instant list \<Rightarrow> bool list" where
  "pairing_attempts ip s [] = []"
| "pairing_attempts ip s (t # ts) =
     (let (limited, s') = is_rate_limited s t ip in (\<not> limited) # pairing_attempts ip s' ts)"

lemma pairing_attempts_allowed: "length (filter id (pairing_attempts ip s ts)) = pl.allowed ip s ts"
  by (induction ts arbitrary: s) (simp_all add: pl.allowed_Cons pairing_tick_def case_prod_beta)

text \<open>
  Guessing pairing codes is slow. Whatever the state of the service, one source address
  gets at most ten attempts past the limiter in any 60 seconds.
\<close>

lemma pairing_guess_rate:
  assumes "pairing_used ip s + length ts < 2 ^ 32" and "\<forall>t\<in>set ts. a \<le> t \<and> t \<le> a + from_secs 60"
  shows "length (filter id (pairing_attempts ip s ts)) \<le> 10"
proof -
  have "pl.allowed ip s ts \<le> (unat RATE_LIMIT_PER_MINUTE - pairing_used ip s) + unat RATE_LIMIT_PER_MINUTE"
    using assms by (intro pl.allowed_any_minute [of ip _ _ a]) (auto simp: pairing_safe_def WINDOW_def)
  then show ?thesis by (simp add: pairing_attempts_allowed RATE_LIMIT_PER_MINUTE_def)
qed

lemma pairing_guess_rate_witness:
  "length (filter id (pairing_attempts (V4 10 0 0 1) ps_new [1, 2, 3, 4, 5, 6])) \<le> 10"
  by (rule pairing_guess_rate [of _ _ _ 0]) (simp_all add: pairing_used_def ps_new_def from_secs_def)

text \<open>Calls on the service, in any order.\<close>

datatype pairing_call =
    CallMint instant string "string option" bool
  | CallRedeem instant instant nat string string IpAddr
  | CallConfirm string bool
  | CallRecordIssued string uuid string string

fun pairing_apply :: "PairingService \<Rightarrow> pairing_call \<Rightarrow> PairingService" where
  "pairing_apply s (CallMint now code hint pre) = mint_code s now code hint pre"
| "pairing_apply s (CallRedeem t1 t2 w code name ip) = snd (snd (redeem s t1 t2 w code name ip))"
| "pairing_apply s (CallConfirm code b) = snd (snd (confirm s code b))"
| "pairing_apply s (CallRecordIssued code d tok name) = record_issued s code d tok name"

fun mints :: "string \<Rightarrow> pairing_call \<Rightarrow> bool" where
  "mints c (CallMint _ code _ _) = (c = code)"
| "mints c _ = False"

lemma issued_apply:
  assumes "fmlookup (ps_codes s) c = Some e" "ce_state e = Issued d tok n" "\<not> mints c call"
  shows "fmlookup (ps_codes (pairing_apply s call)) c = Some e"
  using assms
  by (cases call) (auto simp: mint_code_def confirm_def issued_resolve issued_record issued_redeem)

lemma issued_apply_all:
  assumes "fmlookup (ps_codes s) c = Some e" "ce_state e = Issued d tok n" "\<forall>k\<in>set calls. \<not> mints c k"
  shows "fmlookup (ps_codes (foldl pairing_apply s calls)) c = Some e"
  using assms by (induction calls arbitrary: s) (auto intro: issued_apply)

text \<open>
  A lost reply can be retried. Once a device has been recorded for a code, after any
  further calls that do not mint the same code again, a redemption that is not rate limited returns
  the same device and token to the recorded device name, and \<open>Invalid\<close> to every other name. The
  time of the retry does not matter: the code is replayed after its TTL as well.
\<close>

lemma issued_code_replay:
  assumes "fmlookup (ps_codes s) c = Some e" and "ce_state e = Issued d tok n"
    and "\<forall>k\<in>set calls. \<not> mints c k"
    and "\<not> fst (is_rate_limited (foldl pairing_apply s calls) t1 ip)"
  shows "fst (redeem (foldl pairing_apply s calls) t1 t2 w c name ip) =
           Done (if name = n then AlreadyIssued d tok else Invalid)"
  using issued_apply_all [OF assms(1-3)] assms(2,4)
  by (simp add: redeem_def case_prod_beta frame_simps)

definition example_issued :: PairingService where
  "example_issued = record_issued (mint_code ps_new 0 ''123456'' None True) ''123456'' 1 ''tok'' ''phone''"



end
