(* ===== verification/PairingFlow.thy ===== *)
theory PairingFlow
  imports PairingService
begin

text \<open>
  The pairing ceremony as a whole: \<open>pair_handler\<close> of \<open>crates/haily-io/src/mobile/server.rs\<close> over the
  service of \<open>PairingService\<close>, with requests parked on a human decision, decisions, timeouts and new
  codes interleaved in any order. The token generator and the device store are outside the handler:
  the token and the result of \<open>create_device\<close> (\<open>None\<close> for a persistence failure) are inputs of a step.
\<close>

section \<open>Model\<close>

datatype PairResponse = PairOk (pr_token: string) (pr_device_id: uuid) | PairFail nat MobileError

definition pair_complete ::
  "PairingService \<Rightarrow> RedeemOutcome \<Rightarrow> string \<Rightarrow> uuid option \<Rightarrow> string \<Rightarrow> string \<Rightarrow>
   PairResponse \<times> PairingService" where
  "pair_complete s outcome token created code device_name =
     (case outcome of
        Confirmed \<Rightarrow>
          (case created of
             Some device_id \<Rightarrow>
               (PairOk token device_id, record_issued s code device_id token device_name)
           | None \<Rightarrow> (PairFail 500 Internal, s))
      | AlreadyIssued device_id tok \<Rightarrow> (PairOk tok device_id, s)
      | Denied \<Rightarrow> (PairFail 403 PairingNotConfirmed, s)
      | Expired \<Rightarrow> (PairFail 410 PairingCodeExpired, s)
      | Invalid \<Rightarrow> (PairFail 404 PairingCodeInvalid, s)
      | RateLimited \<Rightarrow> (PairFail 429 PairingRateLimited, s))"

text \<open>
  \<open>py_parked\<close> holds the requests that wait for a decision (code and device name), \<open>py_woken\<close> the
  decisions they have been sent, \<open>py_approved\<close> the codes a human has authorised, and \<open>py_replies\<close> the
  replies so far, each with whether its code was authorised at that moment.
\<close>

record pair_sys =
  py_service :: PairingService
  py_parked :: "(nat, string \<times> string) fmap"
  py_woken :: "(nat, bool) fmap"
  py_approved :: "string set"
  py_replies :: "(string \<times> PairResponse \<times> bool) list"

definition pair_init :: pair_sys where
  "pair_init = \<lparr>py_service = ps_new, py_parked = fmempty, py_woken = fmempty, py_approved = {},
                py_replies = []\<rparr>"

definition wake :: "nat list \<Rightarrow> bool \<Rightarrow> (nat, bool) fmap \<Rightarrow> (nat, bool) fmap" where
  "wake ws b m = foldl (\<lambda>m w. fmupd w b m) m ws"

definition reply :: "pair_sys \<Rightarrow> string \<Rightarrow> PairResponse \<times> PairingService \<Rightarrow> pair_sys" where
  "reply y code res =
     y\<lparr>py_service := snd res,
       py_replies := py_replies y @ [(code, fst res, code \<in> py_approved y)]\<rparr>"

definition do_mint :: "pair_sys \<Rightarrow> instant \<Rightarrow> string \<Rightarrow> string option \<Rightarrow> bool \<Rightarrow> pair_sys" where
  "do_mint y now code hint pre =
     y\<lparr>py_service := mint_code (py_service y) now code hint pre,
       py_approved := (if pre then insert code (py_approved y) else py_approved y - {code})\<rparr>"

definition do_confirm :: "pair_sys \<Rightarrow> string \<Rightarrow> bool \<Rightarrow> pair_sys" where
  "do_confirm y code b =
     (let (ok, ws, s) = confirm (py_service y) code b
      in y\<lparr>py_service := s, py_woken := wake ws b (py_woken y),
           py_approved := (if ok \<and> b then insert code (py_approved y) else py_approved y)\<rparr>)"

definition do_post ::
  "pair_sys \<Rightarrow> instant \<Rightarrow> instant \<Rightarrow> nat \<Rightarrow> string \<Rightarrow> string \<Rightarrow> IpAddr \<Rightarrow> string \<Rightarrow> uuid option \<Rightarrow> pair_sys" where
  "do_post y now1 now2 w code name ip token created =
     (let (res, ws, s) = redeem (py_service y) now1 now2 w code name ip;
          y' = y\<lparr>py_service := s, py_woken := wake ws True (py_woken y)\<rparr>
      in case res of
           Done outcome \<Rightarrow> reply y' code (pair_complete s outcome token created code name)
         | Await v \<Rightarrow> y'\<lparr>py_parked := fmupd v (code, name) (py_parked y')\<rparr>)"

definition do_finish :: "pair_sys \<Rightarrow> nat \<Rightarrow> bool option \<Rightarrow> string \<Rightarrow> uuid option \<Rightarrow> pair_sys" where
  "do_finish y w answer token created =
     (case fmlookup (py_parked y) w of
        None \<Rightarrow> y
      | Some (code, name) \<Rightarrow>
          (reply y code (pair_complete (py_service y) (redeem_finish answer) token created code name))
            \<lparr>py_parked := fmdrop w (py_parked y), py_woken := fmdrop w (py_woken y)\<rparr>)"

text \<open>
  A new code is not one whose approved request is still being completed, and a parked request gets
  a receiver no other request uses.
\<close>

inductive pair_step :: "pair_sys \<Rightarrow> pair_sys \<Rightarrow> bool" where
  mint: "(\<forall>w name. fmlookup (py_parked y) w = Some (code, name) \<longrightarrow> fmlookup (py_woken y) w = None) \<Longrightarrow>
         pair_step y (do_mint y now code hint pre)"
| confirm: "pair_step y (do_confirm y code b)"
| post: "fmlookup (py_parked y) w = None \<Longrightarrow> fmlookup (py_woken y) w = None \<Longrightarrow>
         (\<forall>c e. fmlookup (ps_codes (py_service y)) c = Some e \<longrightarrow> w \<notin> set (ce_waiters e)) \<Longrightarrow>
         pair_step y (do_post y now1 now2 w code name ip token created)"
| finish: "fmlookup (py_woken y) w = Some b \<Longrightarrow> pair_step y (do_finish y w (Some b) token created)"
| timeout: "fmlookup (py_woken y) w = None \<Longrightarrow> pair_step y (do_finish y w None token created)"

inductive pair_reachable :: "pair_sys \<Rightarrow> bool" where
  init: "pair_reachable pair_init"
| step: "pair_reachable y \<Longrightarrow> pair_step y z \<Longrightarrow> pair_reachable z"

section \<open>Invariant\<close>

definition entry_ok :: "pair_sys \<Rightarrow> string \<Rightarrow> CodeEntry \<Rightarrow> bool" where
  "entry_ok y c e \<longleftrightarrow>
     (ce_pre_approved e \<or> ce_state e = Resolved True \<or> (\<exists>d t n. ce_state e = Issued d t n) \<longrightarrow>
        c \<in> py_approved y) \<and>
     (\<forall>w\<in>set (ce_waiters e). fmlookup (py_woken y) w = None \<and>
        (\<forall>c' n. fmlookup (py_parked y) w = Some (c', n) \<longrightarrow> c' = c))"

definition waiters_unique :: "(string, CodeEntry) fmap \<Rightarrow> bool" where
  "waiters_unique m \<longleftrightarrow>
     (\<forall>c c' e e' w. fmlookup m c = Some e \<longrightarrow> fmlookup m c' = Some e' \<longrightarrow>
        w \<in> set (ce_waiters e) \<longrightarrow> w \<in> set (ce_waiters e') \<longrightarrow> c = c')"

definition woken_ok :: "pair_sys \<Rightarrow> bool" where
  "woken_ok y \<longleftrightarrow>
     (\<forall>w c n. fmlookup (py_parked y) w = Some (c, n) \<longrightarrow> fmlookup (py_woken y) w = Some True \<longrightarrow>
        c \<in> py_approved y)"

definition replies_ok :: "pair_sys \<Rightarrow> bool" where
  "replies_ok y \<longleftrightarrow> (\<forall>(c, r, a)\<in>set (py_replies y). (\<exists>tok d. r = PairOk tok d) \<longrightarrow> a)"

definition pair_inv :: "pair_sys \<Rightarrow> bool" where
  "pair_inv y \<longleftrightarrow>
     (\<forall>c e. fmlookup (ps_codes (py_service y)) c = Some e \<longrightarrow> entry_ok y c e) \<and>
     waiters_unique (ps_codes (py_service y)) \<and> woken_ok y \<and> replies_ok y"

lemma waiters_unique_upd:
  assumes "waiters_unique m"
    and "\<And>w c e. w \<in> set (ce_waiters e') \<Longrightarrow> c \<noteq> code \<Longrightarrow> fmlookup m c = Some e \<Longrightarrow>
           w \<notin> set (ce_waiters e)"
  shows "waiters_unique (fmupd code e' m)"
  using assms unfolding waiters_unique_def by (metis fmupd_lookup option.inject)

lemma waiters_unique_drop: "waiters_unique m \<Longrightarrow> waiters_unique (fmdrop code m)"
  unfolding waiters_unique_def by (metis fmlookup_drop option.distinct(1))

lemma entry_ok_frame [simp]:
  "entry_ok (y\<lparr>py_service := s\<rparr>) = entry_ok y" "entry_ok (y\<lparr>py_replies := r\<rparr>) = entry_ok y"
  by (simp_all add: entry_ok_def fun_eq_iff)

lemma woken_ok_frame [simp]:
  "woken_ok (y\<lparr>py_service := s\<rparr>) = woken_ok y" "woken_ok (y\<lparr>py_replies := r\<rparr>) = woken_ok y"
  by (simp_all add: woken_ok_def)

lemma replies_ok_frame [simp]:
  "replies_ok (y\<lparr>py_service := s\<rparr>) = replies_ok y" "replies_ok (y\<lparr>py_woken := m\<rparr>) = replies_ok y"
  "replies_ok (y\<lparr>py_approved := A\<rparr>) = replies_ok y" "replies_ok (y\<lparr>py_parked := k\<rparr>) = replies_ok y"
  by (simp_all add: replies_ok_def)

lemma fmlookup_wake [simp]:
  "fmlookup (wake ws b m) w = (if w \<in> set ws then Some b else fmlookup m w)"
  unfolding wake_def by (induction ws arbitrary: m) auto


lemma pair_inv_entry:
  "pair_inv y \<Longrightarrow> fmlookup (ps_codes (py_service y)) c = Some e \<Longrightarrow> entry_ok y c e"
  by (simp add: pair_inv_def)

text \<open>Storing an entry whose waiters are new or were there before keeps the invariant.\<close>

lemma pair_inv_store:
  assumes inv: "pair_inv y"
    and codes: "ps_codes s = fmupd code e' (ps_codes (py_service y))"
    and ok: "entry_ok y code e'"
    and fresh: "\<And>w c e. w \<in> set (ce_waiters e') \<Longrightarrow> c \<noteq> code \<Longrightarrow>
                  fmlookup (ps_codes (py_service y)) c = Some e \<Longrightarrow> w \<notin> set (ce_waiters e)"
  shows "pair_inv (y\<lparr>py_service := s\<rparr>)"
  using inv ok fresh unfolding pair_inv_def by (auto simp: codes intro: waiters_unique_upd)

lemma pair_inv_delete:
  "pair_inv y \<Longrightarrow> ps_codes s = fmdrop code (ps_codes (py_service y)) \<Longrightarrow>
   pair_inv (y\<lparr>py_service := s\<rparr>)"
  unfolding pair_inv_def by (auto simp: waiters_unique_drop split: if_splits)

lemma pair_inv_same_codes:
  "pair_inv y \<Longrightarrow> ps_codes s = ps_codes (py_service y) \<Longrightarrow> pair_inv (y\<lparr>py_service := s\<rparr>)"
  unfolding pair_inv_def by simp

text \<open>Resolving a code that is authorised, or denying it.\<close>

lemma pair_inv_resolve:
  assumes inv: "pair_inv y" and r: "resolve (py_service y) code b = (ok, ws, s)"
    and auth: "b \<Longrightarrow> code \<in> py_approved y"
  shows "pair_inv (y\<lparr>py_service := s, py_woken := wake ws b (py_woken y)\<rparr>)"
proof (cases "fmlookup (ps_codes (py_service y)) code")
  case None
  with r have "ws = []" "s = py_service y" by (auto simp: resolve_spec)
  with inv show ?thesis by (simp add: wake_def)
next
  case (Some e)
  show ?thesis
  proof (cases "ce_state e = AwaitingConfirm")
    case False
    with Some r have "ws = []" "s = py_service y" by (auto simp: resolve_spec)
    with inv show ?thesis by (simp add: wake_def)
  next
    case True
    let ?e' = "e\<lparr>ce_state := Resolved b, ce_waiters := []\<rparr>"
    let ?y = "y\<lparr>py_service := s, py_woken := wake ws b (py_woken y)\<rparr>"
    from True Some r have ws: "ws = ce_waiters e"
      and s: "ps_codes s = fmupd code ?e' (ps_codes (py_service y))"
      by (auto simp: resolve_spec)
    have e: "entry_ok y code e" using inv Some by (rule pair_inv_entry)
    have "entry_ok ?y c e2" if l: "fmlookup (ps_codes s) c = Some e2" for c e2
    proof (cases "c = code")
      case True
      with l e s auth show ?thesis by (auto simp: entry_ok_def)
    next
      case False
      with l s have l': "fmlookup (ps_codes (py_service y)) c = Some e2" by simp
      then have "entry_ok y c e2" using inv by (simp add: pair_inv_entry)
      moreover have "\<forall>w\<in>set (ce_waiters e2). w \<notin> set ws"
        using inv Some l' False ws unfolding pair_inv_def waiters_unique_def by blast
      ultimately show ?thesis by (auto simp: entry_ok_def)
    qed
    moreover have "c \<in> py_approved y"
      if "fmlookup (py_parked y) w = Some (c, n)" "w \<in> set ws" b for w c n
      using that e auth ws by (auto simp: entry_ok_def)
    moreover have "waiters_unique (ps_codes s)"
      using inv unfolding s pair_inv_def by (intro waiters_unique_upd) auto
    ultimately show ?thesis
      using inv unfolding pair_inv_def woken_ok_def by (auto split: if_splits)
  qed
qed

lemma pair_inv_approve:
  assumes "pair_inv y" shows "pair_inv (y\<lparr>py_approved := insert c (py_approved y)\<rparr>)"
proof -
  have "entry_ok y k e \<Longrightarrow> entry_ok (y\<lparr>py_approved := insert c (py_approved y)\<rparr>) k e" for k e
    by (auto simp: entry_ok_def)
  with assms show ?thesis unfolding pair_inv_def woken_ok_def by auto
qed

lemma pair_inv_confirm: "pair_inv y \<Longrightarrow> pair_inv (do_confirm y code b)"
proof -
  assume inv: "pair_inv y"
  obtain ok ws s where r: "resolve (py_service y) code b = (ok, ws, s)" by (metis prod_cases3)
  show ?thesis
  proof (cases "ok \<and> b")
    case True
    let ?y = "y\<lparr>py_approved := insert code (py_approved y)\<rparr>"
    have "pair_inv (?y\<lparr>py_service := s, py_woken := wake ws b (py_woken ?y)\<rparr>)"
      using pair_inv_approve [OF inv, of code] r by (intro pair_inv_resolve) auto
    moreover have "do_confirm y code b = ?y\<lparr>py_service := s, py_woken := wake ws b (py_woken ?y)\<rparr>"
      using True r by (cases y) (simp add: do_confirm_def confirm_def)
    ultimately show ?thesis by simp
  next
    case False
    have "pair_inv (y\<lparr>py_service := s, py_woken := wake ws b (py_woken y)\<rparr>)"
    proof (cases ok)
      case True
      with False inv r show ?thesis by (intro pair_inv_resolve) auto
    next
      case False
      with r have "ws = []" "s = py_service y"
        by (auto simp: resolve_spec split: option.splits if_splits)
      with inv show ?thesis by (simp add: wake_def)
    qed
    with False r show ?thesis by (auto simp: do_confirm_def confirm_def)
  qed
qed

lemma pair_inv_mint:
  assumes inv: "pair_inv y"
    and guard: "\<forall>w name. fmlookup (py_parked y) w = Some (code, name) \<longrightarrow> fmlookup (py_woken y) w = None"
  shows "pair_inv (do_mint y now code hint pre)"
proof -
  let ?y = "do_mint y now code hint pre"
  have "entry_ok ?y c e" if l: "fmlookup (ps_codes (py_service ?y)) c = Some e" for c e
  proof (cases "c = code")
    case True
    with l show ?thesis by (auto simp: entry_ok_def do_mint_def mint_code_def)
  next
    case False
    with l have "fmlookup (ps_codes (py_service y)) c = Some e"
      by (simp add: do_mint_def mint_code_def)
    with inv have "entry_ok y c e" by (rule pair_inv_entry)
    with False show ?thesis by (auto simp: entry_ok_def do_mint_def)
  qed
  moreover have "waiters_unique (ps_codes (py_service ?y))"
    using inv unfolding pair_inv_def do_mint_def mint_code_def by (auto intro: waiters_unique_upd)
  moreover have "woken_ok ?y"
    using inv guard by (auto simp: pair_inv_def woken_ok_def do_mint_def)
  ultimately show ?thesis
    using inv by (simp add: pair_inv_def do_mint_def)
qed

lemma pair_inv_complete:
  assumes inv: "pair_inv y"
    and auth: "outcome = Confirmed \<or> (\<exists>d t. outcome = AlreadyIssued d t) \<Longrightarrow> code \<in> py_approved y"
  shows "pair_inv (reply y code (pair_complete (py_service y) outcome token created code name))"
proof -
  let ?res = "pair_complete (py_service y) outcome token created code name"
  have "pair_inv (y\<lparr>py_service := snd ?res\<rparr>)"
  proof (cases "snd ?res = py_service y")
    case True
    with inv show ?thesis by (simp add: pair_inv_same_codes)
  next
    case False
    then obtain d where out: "outcome = Confirmed" "created = Some d"
      by (auto simp: pair_complete_def split: RedeemOutcome.splits option.splits)
    with False obtain e where e: "fmlookup (ps_codes (py_service y)) code = Some e"
      and codes: "ps_codes (snd ?res) =
        fmupd code (e\<lparr>ce_state := Issued d token name\<rparr>) (ps_codes (py_service y))"
      by (auto simp: pair_complete_def record_issued_def split: option.splits CodeState.splits)
    have "entry_ok y code e" using inv e by (rule pair_inv_entry)
    with auth out have "entry_ok y code (e\<lparr>ce_state := Issued d token name\<rparr>)"
      by (simp add: entry_ok_def)
    moreover have "w \<notin> set (ce_waiters e2)"
      if "w \<in> set (ce_waiters e)" "c \<noteq> code" "fmlookup (ps_codes (py_service y)) c = Some e2" for w c e2
      using inv e that unfolding pair_inv_def waiters_unique_def by blast
    ultimately show ?thesis using inv codes by (intro pair_inv_store) auto
  qed
  moreover have "(\<exists>tok d. fst ?res = PairOk tok d) \<longrightarrow> code \<in> py_approved y"
    using auth by (auto simp: pair_complete_def split: RedeemOutcome.splits option.splits)
  ultimately show ?thesis
    by (auto simp: pair_inv_def reply_def replies_ok_def)
qed

lemma pair_inv_park:
  assumes inv: "pair_inv y" and w: "fmlookup (py_woken y) w = None"
    and ok: "\<forall>c e. fmlookup (ps_codes (py_service y)) c = Some e \<longrightarrow> w \<in> set (ce_waiters e) \<longrightarrow> c = code"
  shows "pair_inv (y\<lparr>py_parked := fmupd w (code, name) (py_parked y)\<rparr>)"
proof -
  have "entry_ok (y\<lparr>py_parked := fmupd w (code, name) (py_parked y)\<rparr>) c e"
    if "fmlookup (ps_codes (py_service y)) c = Some e" for c e
    using pair_inv_entry [OF inv that] ok that by (auto simp: entry_ok_def split: if_splits)
  with inv w show ?thesis by (auto simp: pair_inv_def woken_ok_def)
qed

lemma pair_inv_post:
  assumes inv: "pair_inv y" and w: "fmlookup (py_parked y) w = None" "fmlookup (py_woken y) w = None"
    and fresh: "\<forall>c e. fmlookup (ps_codes (py_service y)) c = Some e \<longrightarrow> w \<notin> set (ce_waiters e)"
  shows "pair_inv (do_post y t1 t2 w code name ip token created)"
proof -
  obtain res ws s where r: "redeem (py_service y) t1 t2 w code name ip = (res, ws, s)"
    by (metis prod_cases3)
  let ?y = "y\<lparr>py_service := s, py_woken := wake ws True (py_woken y)\<rparr>"
  have authd: "code \<in> py_approved y" if "fmlookup (ps_codes (py_service y)) code = Some e"
    "ce_pre_approved e \<or> ce_state e = Resolved True \<or> (\<exists>d t n. ce_state e = Issued d t n)" for e
    using pair_inv_entry [OF inv that(1)] that(2) by (auto simp: entry_ok_def)
  have finish: "pair_inv (do_post y t1 t2 w code name ip token created)"
    if "res = Done out" "pair_inv ?y"
      "out = Confirmed \<or> (\<exists>d t. out = AlreadyIssued d t) \<Longrightarrow> code \<in> py_approved y" for out
    using pair_inv_complete [of ?y out code token created name] that r by (simp add: do_post_def)
  have quiet: "pair_inv ?y" if "ws = []" "pair_inv (y\<lparr>py_service := s\<rparr>)"
    using that by (simp add: wake_def)
  from r show ?thesis
  proof (cases rule: redeem_cases)
    case (refused out)
    with inv show ?thesis by (intro finish [of out] quiet) (auto intro: pair_inv_same_codes)
  next
    case (replayed e d tok)
    with inv authd show ?thesis by (intro finish quiet) (auto intro: pair_inv_same_codes)
  next
    case (expired e)
    with inv show ?thesis by (intro finish quiet) (auto intro: pair_inv_delete)
  next
    case (decided e b)
    with inv authd show ?thesis
      by (intro finish quiet) (auto intro: pair_inv_same_codes split: if_splits)
  next
    case (preapproved e)
    let ?z = "y\<lparr>py_service := snd (is_rate_limited (py_service y) t1 ip)\<rparr>"
    have "pair_inv ?z" using inv by (auto intro: pair_inv_same_codes simp: frame_simps)
    from pair_inv_resolve [OF this, of code True True ws s] preapproved authd have "pair_inv ?y" by simp
    with preapproved authd show ?thesis by (intro finish) auto
  next
    case (parked e)
    have ok: "entry_ok y code (e\<lparr>ce_waiters := ce_waiters e @ [w]\<rparr>)"
      using pair_inv_entry [OF inv parked(3)] w by (auto simp: entry_ok_def)
    have "pair_inv ?y"
    proof (rule quiet [OF parked(2)], rule pair_inv_store [OF inv parked(6) ok])
      fix v c e2 assume "v \<in> set (ce_waiters (e\<lparr>ce_waiters := ce_waiters e @ [w]\<rparr>))" "c \<noteq> code"
        "fmlookup (ps_codes (py_service y)) c = Some e2"
      with inv fresh parked(3) show "v \<notin> set (ce_waiters e2)"
        unfolding pair_inv_def waiters_unique_def by auto
    qed
    moreover have "\<forall>c e2. fmlookup (ps_codes s) c = Some e2 \<longrightarrow> w \<in> set (ce_waiters e2) \<longrightarrow> c = code"
      using fresh parked(6) by auto
    ultimately have "pair_inv (?y\<lparr>py_parked := fmupd w (code, name) (py_parked ?y)\<rparr>)"
      using w parked(2) by (intro pair_inv_park) (auto simp: wake_def)
    with r parked show ?thesis by (simp add: do_post_def)
  qed
qed

lemma pair_inv_unpark:
  assumes "pair_inv y"
  shows "pair_inv (y\<lparr>py_parked := fmdrop w (py_parked y), py_woken := fmdrop w (py_woken y)\<rparr>)"
proof -
  have "entry_ok y c e \<Longrightarrow>
      entry_ok (y\<lparr>py_parked := fmdrop w (py_parked y), py_woken := fmdrop w (py_woken y)\<rparr>) c e" for c e
    by (auto simp: entry_ok_def split: if_splits)
  with assms show ?thesis by (auto simp: pair_inv_def woken_ok_def split: if_splits)
qed

lemma pair_inv_finish:
  assumes inv: "pair_inv y" and b: "answer = Some True \<Longrightarrow> fmlookup (py_woken y) w = Some True"
  shows "pair_inv (do_finish y w answer token created)"
proof (cases "fmlookup (py_parked y) w")
  case None
  with inv show ?thesis by (simp add: do_finish_def)
next
  case (Some cn)
  then obtain code name where cn: "fmlookup (py_parked y) w = Some (code, name)" by (cases cn) auto
  let ?y = "reply y code (pair_complete (py_service y) (redeem_finish answer) token created code name)"
  have "code \<in> py_approved y" if "redeem_finish answer = Confirmed"
  proof -
    from that have "answer = Some True"
      by (auto simp: redeem_finish_def split: option.splits if_splits)
    with b cn inv show ?thesis unfolding pair_inv_def woken_ok_def by blast
  qed
  moreover have "redeem_finish answer \<noteq> AlreadyIssued d t" for d t
    by (simp add: redeem_finish_def split: option.splits)
  ultimately have "pair_inv ?y" using inv by (intro pair_inv_complete) auto
  from pair_inv_unpark [OF this, of w] cn show ?thesis by (simp add: do_finish_def reply_def)
qed

lemma pair_step_inv: "pair_step y z \<Longrightarrow> pair_inv y \<Longrightarrow> pair_inv z"
  by (induction rule: pair_step.induct)
    (auto intro: pair_inv_mint pair_inv_confirm pair_inv_post pair_inv_finish)

lemma pair_reachable_inv: "pair_reachable y \<Longrightarrow> pair_inv y"
proof (induction rule: pair_reachable.induct)
  case init
  show ?case
    by (simp add: pair_inv_def pair_init_def ps_new_def waiters_unique_def woken_ok_def replies_ok_def)
next
  case (step y z)
  then show ?case by (blast intro: pair_step_inv)
qed

section \<open>Properties\<close>

text \<open>
  Property C4: no device token without an out-of-band confirmation. In every reachable state of the
  ceremony, whatever requests, decisions, timeouts and new codes were interleaved, each successful
  \<open>POST /pair\<close> reply was given at a moment when a human had authorised its code, by confirming it on
  the desktop or by minting it pre-approved.
\<close>

theorem token_needs_confirmation:
  assumes "pair_reachable y" and "(code, PairOk tok d, authorised) \<in> set (py_replies y)"
  shows authorised
  using pair_reachable_inv [OF assms(1)] assms(2) by (fastforce simp: pair_inv_def replies_ok_def)

definition example_ceremony :: pair_sys where
  "example_ceremony =
     do_finish (do_confirm (do_post (do_mint pair_init 0 ''123456'' None False) 1 1 0 ''123456'' ''phone''
       (V4 10 0 0 1) ''unused'' None) ''123456'' True) 0 (Some True) ''tok'' (Some 42)"

lemma example_ceremony_reachable: "pair_reachable example_ceremony"
  unfolding example_ceremony_def
  by (intro pair_reachable.step [OF _ pair_step.finish] pair_reachable.step [OF _ pair_step.confirm]
      pair_reachable.step [OF _ pair_step.post] pair_reachable.step [OF _ pair_step.mint]
      pair_reachable.init)
    (simp_all add: do_post_def do_confirm_def do_mint_def pair_init_def mint_code_def ps_new_def
      redeem_def is_rate_limited_def dm_or_insert_def sweep_stale_rate_limit_entries_def dm_len_def
      confirm_def resolve_def wake_def RATE_LIMIT_SWEEP_THRESHOLD_def RATE_LIMIT_PER_MINUTE_def
      PAIRING_CODE_TTL_def time_simps Let_def case_prod_beta)

theorem token_needs_confirmation_witness:
  "pair_reachable example_ceremony \<and>
   (''123456'', PairOk ''tok'' 42, ''123456'' \<in> py_approved example_ceremony)
     \<in> set (py_replies example_ceremony) \<and> ''123456'' \<in> py_approved example_ceremony"
proof -
  have r: "py_replies example_ceremony =
      [(''123456'', PairOk ''tok'' 42, ''123456'' \<in> py_approved example_ceremony)]"
    by (simp add: example_ceremony_def do_finish_def do_post_def do_confirm_def do_mint_def pair_init_def
        mint_code_def ps_new_def reply_def pair_complete_def redeem_finish_def
        redeem_def is_rate_limited_def dm_or_insert_def sweep_stale_rate_limit_entries_def dm_len_def
        confirm_def resolve_def wake_def RATE_LIMIT_SWEEP_THRESHOLD_def RATE_LIMIT_PER_MINUTE_def
        PAIRING_CODE_TTL_def time_simps Let_def case_prod_beta)
  then show ?thesis
    using example_ceremony_reachable token_needs_confirmation [OF example_ceremony_reachable] by simp
qed

end
