(* ===== verification/BindPolicy.thy ===== *)
theory BindPolicy
  imports Prelude "HOL-Library.List_Lexorder"
begin

text \<open>
  Which network addresses the mobile server listens on (\<open>crates/haily-io/src/mobile/bind.rs\<close> and
  \<open>run\<close> in \<open>mobile/server.rs\<close>). The operating system's interface list, the TLS identity and the
  outcome of each bind are parameters. The code tests address classes on single octets with bit
  masks; the lemmas show these tests are the CIDR blocks of the RFCs, and the properties describe
  exactly which listeners exist and which of them are unencrypted.
\<close>

unbundle bit_operations_syntax

section \<open>Address order\<close>

text \<open>The derived \<open>Ord\<close> of \<open>std::net::IpAddr\<close>: every IPv4 address first, by octets.\<close>

fun ip_key :: "IpAddr \<Rightarrow> nat list" where
  "ip_key (V4 a b c d) = [0, unat a, unat b, unat c, unat d]"
| "ip_key (V6 w) = [1, unat w]"

lemma ip_key_inj: "ip_key x = ip_key y \<longleftrightarrow> x = y"
  by (cases x; cases y) (auto simp: word_unat_eq_iff)

instantiation IpAddr :: linorder
begin

definition less_eq_IpAddr :: "IpAddr \<Rightarrow> IpAddr \<Rightarrow> bool" where
  "less_eq_IpAddr x y \<longleftrightarrow> ip_key x \<le> ip_key y"

definition less_IpAddr :: "IpAddr \<Rightarrow> IpAddr \<Rightarrow> bool" where
  "less_IpAddr x y \<longleftrightarrow> ip_key x < ip_key y"

instance
  by intro_classes (auto simp: less_eq_IpAddr_def less_IpAddr_def ip_key_inj order.strict_iff_order)

end

type_synonym SocketAddr = "IpAddr \<times> u16"

record NetInterface =
  ni_name :: string
  ni_ip :: IpAddr

section \<open>Address classes\<close>

definition LOCALHOST :: IpAddr where
  "LOCALHOST = V4 127 0 0 1"

text \<open>\<open>Ipv4Addr::is_loopback\<close> and \<open>is_link_local\<close> of the standard library.\<close>

fun is_loopback :: "IpAddr \<Rightarrow> bool" where
  "is_loopback (V4 a b c d) \<longleftrightarrow> a = 127"
| "is_loopback (V6 w) \<longleftrightarrow> w = 1"

fun is_link_local :: "IpAddr \<Rightarrow> bool" where
  "is_link_local (V4 a b c d) \<longleftrightarrow> a = 169 \<and> b = 254"
| "is_link_local (V6 w) \<longleftrightarrow> False"

fun is_tailnet_cgnat :: "IpAddr \<Rightarrow> bool" where
  "is_tailnet_cgnat (V4 a b c d) \<longleftrightarrow> a = 100 \<and> b AND 0b11000000 = 0b01000000"
| "is_tailnet_cgnat (V6 w) \<longleftrightarrow> False"

fun is_private_lan :: "IpAddr \<Rightarrow> bool" where
  "is_private_lan (V4 a b c d) \<longleftrightarrow>
     (if is_link_local (V4 a b c d) \<or> is_tailnet_cgnat (V4 a b c d) then False
      else a = 10 \<or> a = 172 \<and> 16 \<le> b \<and> b \<le> 31 \<or> a = 192 \<and> b = 168)"
| "is_private_lan (V6 w) \<longleftrightarrow> False"

section \<open>Selecting the addresses\<close>

definition selectable :: "bool \<Rightarrow> IpAddr \<Rightarrow> bool" where
  "selectable lan_opt_in v4 \<longleftrightarrow> is_tailnet_cgnat v4 \<or> (lan_opt_in \<and> is_private_lan v4)"

fun bind_push :: "bool \<Rightarrow> u16 \<Rightarrow> SocketAddr list \<Rightarrow> NetInterface \<Rightarrow> SocketAddr list" where
  "bind_push lan_opt_in port addrs iface =
     (case ni_ip iface of
        V6 _ \<Rightarrow> addrs
      | V4 a b c d \<Rightarrow>
          if is_loopback (V4 a b c d) then addrs
          else if selectable lan_opt_in (V4 a b c d) then addrs @ [(V4 a b c d, port)]
          else addrs)"

definition select_bind_addrs :: "NetInterface list \<Rightarrow> bool \<Rightarrow> u16 \<Rightarrow> SocketAddr list" where
  "select_bind_addrs interfaces lan_opt_in port =
     remdups_adj (sort_key fst (foldl (bind_push lan_opt_in port) [(LOCALHOST, port)] interfaces))"

fun requires_tls :: "IpAddr \<Rightarrow> bool" where
  "requires_tls (V4 a b c d) \<longleftrightarrow> \<not> is_loopback (V4 a b c d) \<and> \<not> is_tailnet_cgnat (V4 a b c d)"
| "requires_tls (V6 w) \<longleftrightarrow> False"

section \<open>Starting the listeners\<close>

text \<open>
  \<open>run\<close> of \<open>server.rs\<close>. \<open>load_tls\<close> is whether \<open>tls::load_or_generate\<close> returned an identity,
  \<open>tls_config_ok\<close> and \<open>bind_ok\<close> whether building the TLS configuration or binding the plain socket
  of an address succeeded. The result is the listeners started, each with whether it speaks TLS, and
  the value the function returns.
\<close>

fun run_addrs :: "bool \<Rightarrow> (SocketAddr \<Rightarrow> bool) \<Rightarrow> (SocketAddr \<Rightarrow> bool) \<Rightarrow> SocketAddr list
    \<Rightarrow> (SocketAddr \<times> bool) list" where
  "run_addrs cert tls_config_ok bind_ok [] = []"
| "run_addrs cert tls_config_ok bind_ok (addr # addrs) =
     (if requires_tls (fst addr) then
        (if \<not> cert then []
         else if tls_config_ok addr then [(addr, True)] else [])
      else (if bind_ok addr then [(addr, False)] else []))
     @ run_addrs cert tls_config_ok bind_ok addrs"

definition server_run :: "NetInterface list \<Rightarrow> bool \<Rightarrow> u16 \<Rightarrow> bool \<Rightarrow> (SocketAddr \<Rightarrow> bool)
    \<Rightarrow> (SocketAddr \<Rightarrow> bool) \<Rightarrow> (SocketAddr \<times> bool) list \<times> bool" where
  "server_run interfaces lan_opt_in port load_tls tls_config_ok bind_ok =
     (let addrs = select_bind_addrs interfaces lan_opt_in port in
      if addrs = [] then ([], False)
      else (let cert = (if list_ex (\<lambda>a. requires_tls (fst a)) addrs then load_tls else False);
                listeners = run_addrs cert tls_config_ok bind_ok addrs
            in (listeners, listeners \<noteq> [])))"

section \<open>The CIDR blocks behind the octet tests\<close>

text \<open>An address is in \<open>net/len\<close> when the first \<open>len\<close> of its 32 bits agree with \<open>net\<close>.\<close>

fun v4_value :: "IpAddr \<Rightarrow> nat option" where
  "v4_value (V4 a b c d) = Some (((unat a * 256 + unat b) * 256 + unat c) * 256 + unat d)"
| "v4_value (V6 w) = None"

definition in_cidr :: "IpAddr \<Rightarrow> nat \<Rightarrow> IpAddr \<Rightarrow> bool" where
  "in_cidr net len ip \<longleftrightarrow>
     (case (v4_value net, v4_value ip) of
        (Some n, Some x) \<Rightarrow> x div 2 ^ (32 - len) = n div 2 ^ (32 - len)
      | _ \<Rightarrow> False)"

lemma octet_bound: "unat (a :: 8 word) < 256"
  using unsigned_less [of a, where ?'a = nat] by simp

lemma digits_eq:
  fixes a a' q q' m :: nat
  assumes "q < m" and "q' < m"
  shows "a * m + q = a' * m + q' \<longleftrightarrow> a = a' \<and> q = q'"
proof
  assume eq: "a * m + q = a' * m + q'"
  have "(a * m + q) div m = a" "(a' * m + q') div m = a'" using assms by simp_all
  with eq show "a = a' \<and> q = q'" by simp
qed simp

lemma octet_div: "0 < k \<Longrightarrow> (x * (m * k) + y) div k = x * m + y div (k :: nat)"
  using div_mult_self1 [of k y "x * m"] by (simp add: ac_simps)

lemma octet_top_bits: "(b :: 8 word) AND 192 = 64 \<longleftrightarrow> unat b div 64 = 1"
proof -
  have "unat b AND 192 = push_bit 6 (take_bit 2 (drop_bit 6 (unat b)))"
  proof -
    have "(192 :: nat) = push_bit 6 (mask 2)" by (simp add: push_bit_eq_mult mask_eq_exp_minus_1)
    then show ?thesis by (simp add: bit_eq_iff bit_simps) auto
  qed
  also have "\<dots> = 64 * (unat b div 64)"
    using octet_bound [of b] by (simp add: push_bit_eq_mult take_bit_eq_mod drop_bit_eq_div div_less_iff_less_mult)
  finally show ?thesis by (simp add: word_unat_eq_iff unsigned_and_eq)
qed

lemma in_cidr_V4:
  assumes "len \<le> 16"
  shows "in_cidr (V4 n1 n2 n3 n4) len (V4 a b c d) \<longleftrightarrow>
         (unat a * 256 + unat b) div 2 ^ (16 - len) = (unat n1 * 256 + unat n2) div 2 ^ (16 - len)"
proof -
  have "(2 :: nat) ^ (32 - len) = 2 ^ (16 + (16 - len))" using assms by simp
  then have pow: "(2 :: nat) ^ (32 - len) = 256 * (256 * 2 ^ (16 - len))" unfolding power_add by simp
  have strip: "(x * 256 + unat w) div (256 * q) = x div q" for x q and w :: "8 word"
    unfolding div_mult2_eq [of _ 256] using octet_bound [of w] by simp
  show ?thesis unfolding in_cidr_def v4_value.simps prod.case option.case pow strip ..
qed

text \<open>The octet tests of the code, as prefixes: RFC 6598 shared space and the RFC 1918 blocks.\<close>

lemma tailnet_cidr: "is_tailnet_cgnat ip \<longleftrightarrow> in_cidr (V4 100 64 0 0) 10 ip"
proof (cases ip)
  case (V4 a b c d)
  have "(unat a * 256 + unat b) div 64 = 401 \<longleftrightarrow> unat a = 100 \<and> unat b div 64 = 1"
    using octet_div [of 64 "unat a" 4 "unat b"] digits_eq [of "unat b div 64" 4 1 "unat a" 100]
      octet_bound [of b] by (simp add: div_less_iff_less_mult)
  with V4 show ?thesis by (simp add: in_cidr_V4 octet_top_bits) (simp add: word_unat_eq_iff)
qed (simp add: in_cidr_def)

lemma private_cidr:
  "is_private_lan ip \<longleftrightarrow>
     in_cidr (V4 10 0 0 0) 8 ip \<or> in_cidr (V4 172 16 0 0) 12 ip \<or> in_cidr (V4 192 168 0 0) 16 ip"
proof (cases ip)
  case (V4 a b c d)
  have "(unat a * 256 + unat b) div 256 = 10 \<longleftrightarrow> unat a = 10"
    using octet_bound [of b] by simp
  moreover have "(unat a * 256 + unat b) div 16 = 2753 \<longleftrightarrow> unat a = 172 \<and> unat b div 16 = 1"
    using octet_div [of 16 "unat a" 16 "unat b"] digits_eq [of "unat b div 16" 16 1 "unat a" 172]
      octet_bound [of b] by (simp add: div_less_iff_less_mult)
  moreover have "unat b div 16 = 1 \<longleftrightarrow> 16 \<le> unat b \<and> unat b \<le> 31" by presburger
  moreover have "unat a * 256 + unat b = 49320 \<longleftrightarrow> unat a = 192 \<and> unat b = 168"
    using digits_eq [of "unat b" 256 168 "unat a" 192] octet_bound [of b] by simp
  ultimately show ?thesis using V4
    by (simp add: in_cidr_V4 octet_top_bits) (auto simp add: word_unat_eq_iff word_le_nat_alt)
qed (simp add: in_cidr_def)

section \<open>What is selected\<close>

lemma bind_push_eq:
  "bind_push lan port addrs i =
     (if \<not> is_loopback (ni_ip i) \<and> selectable lan (ni_ip i) then addrs @ [(ni_ip i, port)] else addrs)"
  by (cases "ni_ip i") (simp_all add: selectable_def)

lemma bind_push_set:
  "set (foldl (bind_push lan port) addrs ifs) =
     set addrs \<union> (\<lambda>i. (ni_ip i, port)) ` {i \<in> set ifs. \<not> is_loopback (ni_ip i) \<and> selectable lan (ni_ip i)}"
  by (induction ifs arbitrary: addrs) (auto simp: bind_push_eq simp del: bind_push.simps)

lemma remdups_adj_distinct:
  "sorted (map fst xs) \<Longrightarrow> \<forall>a\<in>set xs. snd a = p \<Longrightarrow> distinct (remdups_adj xs)"
proof (induction xs rule: remdups_adj.induct)
  case (3 x y xs)
  then show ?case by (cases x; cases y) (auto simp: order_antisym)
qed simp_all

lemma selected_set:
  "set (select_bind_addrs ifs lan port) =
     insert (LOCALHOST, port)
       ((\<lambda>i. (ni_ip i, port)) ` {i \<in> set ifs. \<not> is_loopback (ni_ip i) \<and> selectable lan (ni_ip i)})"
  by (simp add: select_bind_addrs_def bind_push_set)

lemma selected_distinct: "distinct (select_bind_addrs ifs lan port)"
  unfolding select_bind_addrs_def
  by (rule remdups_adj_distinct [where p = port]) (auto simp: bind_push_set)

lemma selected_nonempty: "select_bind_addrs ifs lan port \<noteq> []"
  using selected_set [of ifs lan port] by auto

lemma selectable_tls:
  "selectable lan ip \<Longrightarrow> \<not> is_loopback ip \<Longrightarrow> requires_tls ip \<longleftrightarrow> lan \<and> is_private_lan ip"
  by (cases ip) (auto simp: selectable_def)

lemma requires_tls_class: "\<not> requires_tls ip \<longleftrightarrow> is_loopback ip \<or> is_tailnet_cgnat ip \<or> (\<exists>w. ip = V6 w)"
  by (cases ip) auto

lemma selectable_V4: "selectable lan ip \<Longrightarrow> ip \<noteq> V6 w"
  by (auto simp: selectable_def)

lemma selected_tls:
  assumes "a \<in> set (select_bind_addrs ifs lan port)"
  shows "requires_tls (fst a) \<longleftrightarrow> lan \<and> is_private_lan (fst a)"
    and "\<not> requires_tls (fst a) \<longleftrightarrow> is_loopback (fst a) \<or> is_tailnet_cgnat (fst a)"
proof -
  from assms consider "fst a = LOCALHOST" | "selectable lan (fst a)" "\<not> is_loopback (fst a)"
    unfolding selected_set by auto
  then show "requires_tls (fst a) \<longleftrightarrow> lan \<and> is_private_lan (fst a)"
    by cases (simp add: LOCALHOST_def, rule selectable_tls)
  from assms consider "fst a = LOCALHOST" | "selectable lan (fst a)" "\<not> is_loopback (fst a)"
    unfolding selected_set by auto
  then show "\<not> requires_tls (fst a) \<longleftrightarrow> is_loopback (fst a) \<or> is_tailnet_cgnat (fst a)"
    by cases (simp add: LOCALHOST_def, use selectable_V4 in \<open>auto simp: requires_tls_class\<close>)
qed

lemma run_addrs_set:
  "set (run_addrs cert tls_ok bind_ok addrs) =
     {(a, tls). a \<in> set addrs \<and> tls = requires_tls (fst a) \<and> (if tls then cert \<and> tls_ok a else bind_ok a)}"
  by (induction addrs) auto

section \<open>Properties\<close>

text \<open>
  No public address is ever selected. The selected addresses are, without repetition,
  loopback and every non-loopback interface address in the tailnet block 100.64.0.0/10, plus, only
  when the operator opted in to the LAN, those in the RFC 1918 blocks 10.0.0.0/8, 172.16.0.0/12 and
  192.168.0.0/16; no other IPv4 address and no IPv6 address is selected, and no such interface
  is missed.
\<close>

lemma bind_selection_exact:
  "distinct (select_bind_addrs ifs lan port) \<and>
   set (select_bind_addrs ifs lan port) =
     insert (LOCALHOST, port)
       {(ip, port) | ip. ip \<in> ni_ip ` set ifs \<and> \<not> is_loopback ip \<and>
          (in_cidr (V4 100 64 0 0) 10 ip \<or>
           lan \<and> (in_cidr (V4 10 0 0 0) 8 ip \<or> in_cidr (V4 172 16 0 0) 12 ip \<or>
                  in_cidr (V4 192 168 0 0) 16 ip))}"
  unfolding selected_set selectable_def tailnet_cidr private_cidr by (auto simp: selected_distinct)

text \<open>
  Only loopback and the tailnet are served in plain text. Whatever the interfaces and
  whichever binds succeed, a listener started without TLS is on a loopback or tailnet address, one
  started with TLS is a LAN address under the operator's opt-in and needs the TLS identity, and the
  function reports success exactly when some listener was started. In particular losing the TLS
  identity removes only the LAN listeners.
\<close>

lemma listeners_encrypted:
  "\<exists>listeners. server_run ifs lan port load_tls tls_ok bind_ok = (listeners, listeners \<noteq> []) \<and>
     set listeners =
       {(a, False) | a. a \<in> set (select_bind_addrs ifs lan port) \<and> bind_ok a \<and>
          (is_loopback (fst a) \<or> in_cidr (V4 100 64 0 0) 10 (fst a))}
       \<union> {(a, True) | a. a \<in> set (select_bind_addrs ifs lan port) \<and> load_tls \<and> tls_ok a \<and> lan \<and>
          is_private_lan (fst a)}"
proof -
  let ?addrs = "select_bind_addrs ifs lan port"
  define cert where "cert = (if list_ex (\<lambda>a. requires_tls (fst a)) ?addrs then load_tls else False)"
  have run: "server_run ifs lan port load_tls tls_ok bind_ok =
      (run_addrs cert tls_ok bind_ok ?addrs, run_addrs cert tls_ok bind_ok ?addrs \<noteq> [])"
    by (simp add: server_run_def Let_def cert_def selected_nonempty)
  have cert: "cert \<longleftrightarrow> load_tls" if "a \<in> set ?addrs" "requires_tls (fst a)" for a
    using that by (auto simp: cert_def list_ex_iff)
  have "(a, b) \<in> set (run_addrs cert tls_ok bind_ok ?addrs) \<longleftrightarrow>
      (if b then a \<in> set ?addrs \<and> load_tls \<and> tls_ok a \<and> lan \<and> is_private_lan (fst a)
       else a \<in> set ?addrs \<and> bind_ok a \<and> (is_loopback (fst a) \<or> is_tailnet_cgnat (fst a)))" for a b
  proof (cases "a \<in> set ?addrs")
    case True
    note [simp] = selected_tls [OF True, symmetric]
    from cert [OF True] show ?thesis unfolding run_addrs_set by auto
  qed (simp add: run_addrs_set)
  then show ?thesis unfolding run tailnet_cidr [symmetric] by (auto split: if_splits)
qed

end
