(* ===== verification/ProactiveCards.thy ===== *)
theory ProactiveCards
  imports WireTypes "HOL-Library.Sublist"
begin

text \<open>
  \<open>crates/haily-io/src/proactive_cards.rs\<close>: the bounded panel of proactive cards kept for the GUI and
  for \<open>FetchProactive\<close>. The abstract panel is, per kind of card, the most recent cards of that kind up
  to the kind's cap; \<open>upsert_proactive_card\<close> implements it on one flat list with an in-place
  eviction pass.
\<close>

section \<open>Model\<close>

definition MAX_ALERT_CARDS :: nat where "MAX_ALERT_CARDS = 10"
definition MAX_REMINDER_CARDS :: nat where "MAX_REMINDER_CARDS = 10"
definition MAX_DISTILLATION_CARDS :: nat where "MAX_DISTILLATION_CARDS = 5"

fun kind_label :: "ProactiveCardKind \<Rightarrow> string" where
  "kind_label (CMorningBrief _) = ''morning_brief''"
| "kind_label (CAlert _ _ _) = ''alert''"
| "kind_label (CReminderFired _ _) = ''reminder_fired''"
| "kind_label (CDistillationProposal _ _ _) = ''distillation_proposal''"

fun kind_cap :: "ProactiveCardKind \<Rightarrow> nat" where
  "kind_cap (CMorningBrief _) = 1"
| "kind_cap (CAlert _ _ _) = MAX_ALERT_CARDS"
| "kind_cap (CReminderFired _ _) = MAX_REMINDER_CARDS"
| "kind_cap (CDistillationProposal _ _ _) = MAX_DISTILLATION_CARDS"

text \<open>\<open>Vec::retain\<close> with the closure that drops the first \<open>to_drop\<close> cards of the label.\<close>

fun evict :: "string \<Rightarrow> nat \<Rightarrow> ProactiveCard list \<Rightarrow> ProactiveCard list" where
  "evict label to_drop [] = []"
| "evict label to_drop (c # cs) =
     (if to_drop > 0 \<and> kind_label (pc_kind c) = label then evict label (to_drop - 1) cs
      else c # evict label to_drop cs)"

definition upsert_proactive_card :: "ProactiveCard list \<Rightarrow> ProactiveCard \<Rightarrow> ProactiveCard list" where
  "upsert_proactive_card current new_card =
     (let label = kind_label (pc_kind new_card);
          cap = kind_cap (pc_kind new_card);
          cards = current @ [new_card];
          same_kind_count = length (filter (\<lambda>c. kind_label (pc_kind c) = label) cards)
      in if same_kind_count > cap then evict label (same_kind_count - cap) cards else cards)"

section \<open>The abstract panel\<close>

abbreviation of_kind :: "string \<Rightarrow> ProactiveCard list \<Rightarrow> ProactiveCard list" where
  "of_kind l \<equiv> filter (\<lambda>c. kind_label (pc_kind c) = l)"

definition latest :: "nat \<Rightarrow> 'a list \<Rightarrow> 'a list" where
  "latest n xs = drop (length xs - n) xs"

lemma latest_latest_snoc: "0 < n \<Longrightarrow> latest n (latest n xs @ [x]) = latest n (xs @ [x])"
  by (cases "n \<le> length xs") (simp_all add: latest_def Suc_diff_le)

lemma evict_of_kind: "of_kind l (evict l n cs) = drop n (of_kind l cs)"
  by (induction cs arbitrary: n) (auto simp: drop_Cons')

lemma evict_other_kinds:
  "filter (\<lambda>c. kind_label (pc_kind c) \<noteq> l) (evict l n cs) = filter (\<lambda>c. kind_label (pc_kind c) \<noteq> l) cs"
  by (induction l n cs rule: evict.induct) auto

lemma evict_of_other_kind: "k \<noteq> l \<Longrightarrow> of_kind k (evict l n cs) = of_kind k cs"
  by (induction l n cs rule: evict.induct) auto

lemma evict_subseq: "subseq (evict l n cs) cs"
  by (induction l n cs rule: evict.induct) auto

lemma kind_cap_pos: "0 < kind_cap k"
  by (cases k) (simp_all add: MAX_ALERT_CARDS_def MAX_REMINDER_CARDS_def MAX_DISTILLATION_CARDS_def)

lemma kind_cap_label: "kind_label k = kind_label k' \<Longrightarrow> kind_cap k = kind_cap k'"
  by (cases k; cases k') simp_all

lemma upsert_of_kind:
  "of_kind (kind_label (pc_kind c)) (upsert_proactive_card cs c) =
     latest (kind_cap (pc_kind c)) (of_kind (kind_label (pc_kind c)) cs @ [c])"
  by (simp add: upsert_proactive_card_def Let_def evict_of_kind latest_def)

lemma upsert_of_other_kind:
  "k \<noteq> kind_label (pc_kind c) \<Longrightarrow> of_kind k (upsert_proactive_card cs c) = of_kind k cs"
  by (simp add: upsert_proactive_card_def Let_def evict_of_other_kind)

lemma upsert_subseq: "subseq (upsert_proactive_card cs c) (cs @ [c])"
  by (simp add: upsert_proactive_card_def Let_def evict_subseq)

section \<open>Properties\<close>

text \<open>
  The panel is a per-kind window of the most recent cards. After any sequence of
  arrivals, the cards shown of a kind are exactly the last ones of that kind that arrived, up to the
  kind's cap, whatever arrived of the other kinds; so a burst of alerts never evicts a morning brief.
  The panel as a whole lists its cards in arrival order.
\<close>

lemma panel_keeps_latest_per_kind:
  "of_kind (kind_label k) (foldl upsert_proactive_card [] arrivals) =
     latest (kind_cap k) (of_kind (kind_label k) arrivals) \<and>
   subseq (foldl upsert_proactive_card [] arrivals) arrivals"
proof (induction arrivals rule: rev_induct)
  case Nil
  then show ?case by (simp add: latest_def)
next
  case (snoc c cs)
  let ?p = "foldl upsert_proactive_card [] cs"
  have "subseq (upsert_proactive_card ?p c) (cs @ [c])"
    using upsert_subseq snoc.IH by (blast intro: subseq_order.trans list_emb_append_mono)
  moreover have "of_kind (kind_label k) (upsert_proactive_card ?p c) =
      latest (kind_cap k) (of_kind (kind_label k) (cs @ [c]))"
  proof (cases "kind_label k = kind_label (pc_kind c)")
    case True
    with snoc.IH kind_cap_label [OF True] show ?thesis
      by (simp add: upsert_of_kind latest_latest_snoc kind_cap_pos)
  next
    case False
    with snoc.IH show ?thesis by (simp add: upsert_of_other_kind)
  qed
  ultimately show ?case by simp
qed

end
