(* ===== verification/MobileServer.thy ===== *)
theory MobileServer
  imports DeviceWriter MobileGuard ProactiveCards
begin

text \<open>
  The mobile adapter (\<open>crates/haily-io/src/mobile/mod.rs\<close>) and its connection loop
  (\<open>mobile/server.rs\<close>) as a machine over events: an upgrade request, the first frame of a
  connection, every later frame, the end of a connection, a revocation poll, and the calls the
  orchestrator makes (\<open>deliver\<close>, \<open>deliver_run_event\<close>, \<open>notify\<close>, \<open>disconnect_device\<close>). Each handler
  runs as one step. Calls out of the adapter are returned as \<open>effect\<close> values. A writer task is the
  list of messages sent to its channel; the task's state is \<open>writer_run\<close> over that list.
  The services wired in after construction (resolver, kill switch, transcript, request channel,
  manager, turn canceller) are options, as in the code.
\<close>

section \<open>State\<close>

record MobileServerConfig =
  cfg_enabled :: bool
  cfg_port :: u16
  cfg_lan_opt_in :: bool
  cfg_approval_policy :: MobileApprovalPolicy
  cfg_inbound_rate_limit_per_minute :: u32
  cfg_deny_remote_deep :: bool
  cfg_ring_buffer_capacity :: nat

definition default_config :: MobileServerConfig where
  "default_config =
     \<lparr>cfg_enabled = False, cfg_port = 7443, cfg_lan_opt_in = False,
      cfg_approval_policy = BiometricRequired, cfg_inbound_rate_limit_per_minute = 60,
      cfg_deny_remote_deep = True, cfg_ring_buffer_capacity = 500\<rparr>"

text \<open>
  A cancellation token is named by the id of the connection it was created for, and
  \<open>ma_cancelled\<close> holds the tokens that have been cancelled. \<open>ma_kill\<close> is the value of the shared kill
  switch once it is wired; for the other services only whether they are wired matters, and for the
  transcript what it returns.
\<close>

record 's MobileAdapter =
  ma_config :: MobileServerConfig
  ma_epoch :: u64
  ma_writers :: "(uuid, 's WriterMsg list) fmap"
  ma_session_owner :: "(uuid, uuid) fmap"
  ma_proactive :: "ProactiveCard list"
  ma_approval_reversible :: "(uuid, bool \<times> instant) fmap"
  ma_revoked_cache :: "uuid fset"
  ma_connections :: "(uuid, uuid) fmap"
  ma_cancelled :: "uuid fset"
  ma_resolver :: bool
  ma_kill :: "bool option"
  ma_transcript :: "(uuid \<Rightarrow> TranscriptEntry list) option"
  ma_tx :: bool
  ma_manager :: bool
  ma_turn_canceller :: bool

definition adapter_new :: "MobileServerConfig \<Rightarrow> u64 \<Rightarrow> 's MobileAdapter" where
  "adapter_new config epoch =
     \<lparr>ma_config = config, ma_epoch = epoch, ma_writers = fmempty, ma_session_owner = fmempty,
      ma_proactive = [], ma_approval_reversible = fmempty, ma_revoked_cache = {||},
      ma_connections = fmempty, ma_cancelled = {||}, ma_resolver = False, ma_kill = None,
      ma_transcript = None, ma_tx = False, ma_manager = False, ma_turn_canceller = False\<rparr>"

text \<open>Calls that leave the adapter.\<close>

datatype effect =
    Resolve (ef_approval: uuid) (ef_session: uuid) (ef_honored: bool)
  | NotifyAll Notification
  | Forward Request
  | Cancel uuid

section \<open>The adapter's own operations\<close>

definition get_or_spawn_writer :: "'s MobileAdapter \<Rightarrow> uuid \<Rightarrow> 's MobileAdapter" where
  "get_or_spawn_writer s device_id =
     s\<lparr>ma_writers := snd (dm_or_insert device_id [] (ma_writers s))\<rparr>"

text \<open>Sending on a writer handle; handles exist only for devices whose writer was spawned.\<close>

definition writer_send :: "'s MobileAdapter \<Rightarrow> uuid \<Rightarrow> 's WriterMsg \<Rightarrow> 's MobileAdapter" where
  "writer_send s device_id msg =
     (case fmlookup (ma_writers s) device_id of
        None \<Rightarrow> s
      | Some msgs \<Rightarrow> s\<lparr>ma_writers := fmupd device_id (msgs @ [msg]) (ma_writers s)\<rparr>)"

definition disconnect_device :: "'s MobileAdapter \<Rightarrow> uuid \<Rightarrow> 's MobileAdapter" where
  "disconnect_device s device_id =
     (let s1 = s\<lparr>ma_revoked_cache := finsert device_id (ma_revoked_cache s)\<rparr>;
          s2 = (case fmlookup (ma_connections s1) device_id of
                  Some conn \<Rightarrow> s1\<lparr>ma_cancelled := finsert conn (ma_cancelled s1)\<rparr>
                | None \<Rightarrow> s1);
          s3 = s2\<lparr>ma_session_owner := dm_retain (\<lambda>_ owner. owner \<noteq> device_id) (ma_session_owner s2)\<rparr>
      in writer_send s3 device_id Detach)"

definition push_for_session :: "'s MobileAdapter \<Rightarrow> uuid \<Rightarrow> ServerBody \<Rightarrow> 's MobileAdapter" where
  "push_for_session s session_id body =
     (case fmlookup (ma_session_owner s) session_id of
        Some device_id \<Rightarrow>
          if device_id |\<in>| ma_revoked_cache s then s
          else writer_send (get_or_spawn_writer s device_id) device_id (Body body)
      | None \<Rightarrow> s)"

definition APPROVAL_REVERSIBLE_TTL :: duration where
  "APPROVAL_REVERSIBLE_TTL = from_secs 600"

definition APPROVAL_REVERSIBLE_SWEEP_THRESHOLD :: nat where
  "APPROVAL_REVERSIBLE_SWEEP_THRESHOLD = 256"

definition sweep_approval_reversible :: "'s MobileAdapter \<Rightarrow> instant \<Rightarrow> 's MobileAdapter" where
  "sweep_approval_reversible s now =
     (if dm_len (ma_approval_reversible s) \<le> APPROVAL_REVERSIBLE_SWEEP_THRESHOLD then s
      else s\<lparr>ma_approval_reversible :=
             dm_retain (\<lambda>_ (_, inserted_at). duration_since now inserted_at < APPROVAL_REVERSIBLE_TTL)
               (ma_approval_reversible s)\<rparr>)"

definition adapter_deliver :: "'s MobileAdapter \<Rightarrow> instant \<Rightarrow> uuid \<Rightarrow> ResponseChunk \<Rightarrow> 's MobileAdapter" where
  "adapter_deliver s now session_id chunk =
     (let s1 = (case chunk of
                  ToolApprovalRequest _ _ approval_id _ reversible \<Rightarrow>
                    sweep_approval_reversible
                      (s\<lparr>ma_approval_reversible :=
                           fmupd approval_id (reversible, now) (ma_approval_reversible s)\<rparr>) now
                | _ \<Rightarrow> s)
      in push_for_session s1 session_id (Chunk session_id chunk))"

definition adapter_deliver_run_event :: "'s MobileAdapter \<Rightarrow> uuid \<Rightarrow> RunEvent \<Rightarrow> 's MobileAdapter" where
  "adapter_deliver_run_event s session_id event = push_for_session s session_id (Run session_id event)"

definition adapter_notify :: "'s MobileAdapter \<Rightarrow> uuid \<Rightarrow> string \<Rightarrow> Notification \<Rightarrow> 's MobileAdapter" where
  "adapter_notify s fresh_id now msg =
     (case msg of
        NWorkItemsChanged _ \<Rightarrow> s
      | NKillStateChanged on \<Rightarrow>
          s\<lparr>ma_writers := fmmap (\<lambda>msgs. msgs @ [Body (KillState on)]) (ma_writers s)\<rparr>
      | other \<Rightarrow>
          (case from_notification fresh_id now other of
             Some pcard \<Rightarrow> s\<lparr>ma_proactive := upsert_proactive_card (ma_proactive s) pcard\<rparr>
           | None \<Rightarrow> s))"

text \<open>
  The post-construction wiring. \<open>WKill\<close> stands for \<open>set_kill_switch\<close> and for every later store to the
  shared flag made outside this adapter; \<open>WStart\<close> for \<open>start\<close>, which keeps the request channel.
\<close>

datatype wiring =
    WResolver
  | WKill bool
  | WTranscript "uuid \<Rightarrow> TranscriptEntry list"
  | WManager
  | WTurnCanceller
  | WStart

fun adapter_wire :: "'s MobileAdapter \<Rightarrow> wiring \<Rightarrow> 's MobileAdapter" where
  "adapter_wire s WResolver = s\<lparr>ma_resolver := True\<rparr>"
| "adapter_wire s (WKill on) = s\<lparr>ma_kill := Some on\<rparr>"
| "adapter_wire s (WTranscript t) = s\<lparr>ma_transcript := Some t\<rparr>"
| "adapter_wire s WManager = s\<lparr>ma_manager := True\<rparr>"
| "adapter_wire s WTurnCanceller = s\<lparr>ma_turn_canceller := True\<rparr>"
| "adapter_wire s WStart = s\<lparr>ma_tx := True\<rparr>"

section \<open>Handling a client frame\<close>

text \<open>\<open>uuid_str\<close> is the \<open>Display\<close> of the uuid crate.\<close>

definition forward_user_message ::
  "(uuid \<Rightarrow> string) \<Rightarrow> 's MobileAdapter \<Rightarrow> uuid \<Rightarrow> uuid \<Rightarrow> string \<Rightarrow> DepthMode \<Rightarrow> effect list" where
  "forward_user_message uuid_str s session_id device_id message depth =
     (if ma_tx s
      then [Forward \<lparr>req_session_id = session_id, req_adapter_id = ''mobile'', req_message = message,
                     req_user_ref = Some (uuid_str device_id), req_depth = depth, req_origin = Chat\<rparr>]
      else [])"

definition current_kill_state :: "'s MobileAdapter \<Rightarrow> bool" where
  "current_kill_state s = (case ma_kill s of None \<Rightarrow> False | Some on \<Rightarrow> on)"

text \<open>
  The common head of the session-scoped arms: claim or verify the session, and answer
  \<open>SessionUnknown\<close> when another device owns it.
\<close>

definition with_session ::
  "'s MobileAdapter \<Rightarrow> uuid \<Rightarrow> uuid \<Rightarrow> ('s MobileAdapter \<Rightarrow> 's MobileAdapter \<times> effect list)
   \<Rightarrow> 's MobileAdapter \<times> effect list" where
  "with_session s device_id session_id k =
     (let (ok, owners) = claim_or_verify_session (ma_session_owner s) session_id device_id;
          s1 = s\<lparr>ma_session_owner := owners\<rparr>
      in if \<not> ok then (writer_send s1 device_id (Body (Error SessionUnknown)), []) else k s1)"

definition handle_approve ::
  "uuid \<Rightarrow> uuid \<Rightarrow> bool \<Rightarrow> bool \<Rightarrow> 's MobileAdapter \<Rightarrow> 's MobileAdapter \<times> effect list" where
  "handle_approve approval_id session_id approved biometric_ok s =
     (let reversible = (case fmlookup (ma_approval_reversible s) approval_id of
                          Some (v, _) \<Rightarrow> v | None \<Rightarrow> False);
          s1 = s\<lparr>ma_approval_reversible := fmdrop approval_id (ma_approval_reversible s)\<rparr>;
          honored = approval_allowed (cfg_approval_policy (ma_config s)) reversible biometric_ok approved
      in (s1, if ma_resolver s then [Resolve approval_id session_id honored] else []))"

text \<open>
  Enabling the kill switch notifies every adapter through the manager this adapter is registered
  with, so its own \<open>notify\<close> runs too.
\<close>

definition handle_kill :: "bool \<Rightarrow> 's MobileAdapter \<Rightarrow> 's MobileAdapter \<times> effect list" where
  "handle_kill on s =
     (if on then
        (case ma_kill s of
           Some _ \<Rightarrow>
             (let s1 = s\<lparr>ma_kill := Some True\<rparr>
              in if ma_manager s
                 then (adapter_notify s1 0 [] (NKillStateChanged True), [NotifyAll (NKillStateChanged True)])
                 else (s1, []))
         | None \<Rightarrow> (s, []))
      else (s, []))"

definition handle_client_frame ::
  "(uuid \<Rightarrow> string) \<Rightarrow> 's MobileAdapter \<Rightarrow> uuid \<Rightarrow> ClientFrame \<Rightarrow> 's MobileAdapter \<times> effect list" where
  "handle_client_frame uuid_str s device_id frame =
     (case frame of
        Ping \<Rightarrow> (writer_send s device_id (Body Pong), [])
      | Hello _ _ _ \<Rightarrow> (s, [])
      | CUnknown _ \<Rightarrow> (s, [])
      | UserMessage session_id message depth \<Rightarrow>
          with_session s device_id session_id (\<lambda>s.
            let depth = (if cfg_deny_remote_deep (ma_config s) \<and> depth = Deep then Normal else depth)
            in (s, forward_user_message uuid_str s session_id device_id message depth))
      | Approve approval_id session_id approved biometric_ok \<Rightarrow>
          with_session s device_id session_id (handle_approve approval_id session_id approved biometric_ok)
      | SetKillSwitch session_id on \<Rightarrow> with_session s device_id session_id (handle_kill on)
      | FetchProactive session_id \<Rightarrow>
          with_session s device_id session_id (\<lambda>s.
            (writer_send s device_id (Body (ProactiveList (ma_proactive s))), []))
      | FetchSession session_id \<Rightarrow>
          with_session s device_id session_id (\<lambda>s.
            let entries = (case ma_transcript s of Some t \<Rightarrow> t session_id | None \<Rightarrow> [])
            in (writer_send s device_id (Body (SSnapshot
                 \<lparr>ss_session_id = session_id, ss_transcript = entries, ss_latest_run_status = None,
                  ss_depth = Normal\<rparr>)), []))
      | CancelTurn session_id \<Rightarrow>
          with_session s device_id session_id (\<lambda>s.
            (s, if ma_turn_canceller s then [Cancel session_id] else [])))"

section \<open>Connections\<close>

text \<open>
  A connection task has passed the upgrade and waits for its \<open>Hello\<close>, or runs its loop with its own
  rate limiter.
\<close>

datatype conn_phase = AwaitHello | Open RateLimiter

record 's Server =
  sv_adapter :: "'s MobileAdapter"
  sv_conns :: "(uuid, uuid \<times> conn_phase) fmap"

text \<open>The state of a writer task once it has processed every message sent to it so far.\<close>

definition writer_state :: "'s frame_sink \<Rightarrow> 's MobileAdapter \<Rightarrow> uuid \<Rightarrow> 's DeviceWriter" where
  "writer_state send s device_id =
     fst (writer_run send (writer_spawn (ma_epoch s) (cfg_ring_buffer_capacity (ma_config s)))
       (case fmlookup (ma_writers s) device_id of None \<Rightarrow> [] | Some msgs \<Rightarrow> msgs))"

text \<open>
  \<open>ws_upgrade_handler\<close> and the head of \<open>handle_socket\<close>: \<open>active\<close> is what
  \<open>find_active_by_token_hash\<close> returned for the bearer token (\<open>None\<close> also for a missing header).
\<close>

definition ws_upgrade :: "'s Server \<Rightarrow> uuid option \<Rightarrow> uuid \<Rightarrow> 's Server" where
  "ws_upgrade sv active conn_id =
     (case active of
        None \<Rightarrow> sv
      | Some device_id \<Rightarrow>
          (let s = sv_adapter sv;
               s1 = s\<lparr>ma_revoked_cache := ma_revoked_cache s |-| {|device_id|}\<rparr>;
               s2 = s1\<lparr>ma_connections := fmupd device_id conn_id (ma_connections s1)\<rparr>
           in sv\<lparr>sv_adapter := s2, sv_conns := fmupd conn_id (device_id, AwaitHello) (sv_conns sv)\<rparr>))"

text \<open>The tail of \<open>handle_socket\<close>: a connection removes its own registration only.\<close>

definition socket_cleanup :: "'s Server \<Rightarrow> uuid \<Rightarrow> uuid \<Rightarrow> 's Server" where
  "socket_cleanup sv device_id conn_id =
     (let s = sv_adapter sv;
          s1 = (if fmlookup (ma_connections s) device_id = Some conn_id
                then s\<lparr>ma_connections := fmdrop device_id (ma_connections s)\<rparr> else s)
      in sv\<lparr>sv_adapter := s1, sv_conns := fmdrop conn_id (sv_conns sv)\<rparr>)"

text \<open>
  The head of \<open>connection_loop\<close>: \<open>first\<close> is the decoded first message, \<open>None\<close> after the ten-second
  timeout, for a non-text message or for one that does not decode; \<open>sink\<close> is the socket's send half.
\<close>

definition connection_hello ::
  "'s frame_sink \<Rightarrow> 's Server \<Rightarrow> uuid \<Rightarrow> uuid \<Rightarrow> instant \<Rightarrow> ClientFrame option \<Rightarrow> 's \<Rightarrow> 's Server" where
  "connection_hello send sv device_id conn_id now first sink =
     (let s = get_or_spawn_writer (sv_adapter sv) device_id
      in case first of
           Some (Hello last_seen_seq last_epoch protocol_version) \<Rightarrow>
             if protocol_version \<noteq> PROTOCOL_VERSION then
               (let s1 = writer_send s device_id (Body (Error ProtocolVersion));
                    s2 = writer_send s1 device_id (Resume None sink)
                in socket_cleanup (sv\<lparr>sv_adapter := s2\<rparr>) device_id conn_id)
             else
               (let s1 = writer_send s device_id
                           (Body (HelloAck (ma_epoch s) PROTOCOL_VERSION (current_kill_state s)
                                   (cfg_approval_policy (ma_config s))));
                    cursor = resume_cursor (ma_epoch s) last_epoch last_seen_seq;
                    outcome = fst (snd (writer_step send (writer_state send s1 device_id) (Resume cursor sink)));
                    s2 = writer_send s1 device_id (Resume cursor sink);
                    s3 = (if outcome = Some ResumeExceeded
                          then writer_send s2 device_id (Body (Error ResumeWindowExceeded)) else s2);
                    limiter = rl_new (cfg_inbound_rate_limit_per_minute (ma_config s)) now
                in sv\<lparr>sv_adapter := s3, sv_conns := fmupd conn_id (device_id, Open limiter) (sv_conns sv)\<rparr>)
         | _ \<Rightarrow> socket_cleanup (sv\<lparr>sv_adapter := s\<rparr>) device_id conn_id)"

text \<open>The loop ends: the socket is detached from the writer and the registration removed.\<close>

definition connection_end :: "'s Server \<Rightarrow> uuid \<Rightarrow> uuid \<Rightarrow> 's Server" where
  "connection_end sv device_id conn_id =
     socket_cleanup (sv\<lparr>sv_adapter := writer_send (sv_adapter sv) device_id Detach\<rparr>) device_id conn_id"

text \<open>
  One text message in the loop; \<open>frame\<close> is \<open>None\<close> when it does not decode. The effects are tagged with
  the device whose frame caused them.
\<close>

definition connection_frame ::
  "(uuid \<Rightarrow> string) \<Rightarrow> 's Server \<Rightarrow> uuid \<Rightarrow> uuid \<Rightarrow> RateLimiter \<Rightarrow> instant \<Rightarrow> ClientFrame option
   \<Rightarrow> 's Server \<times> (uuid \<times> effect) list" where
  "connection_frame uuid_str sv device_id conn_id limiter now frame =
     (let (allowed, limiter') = rl_allow limiter now;
          sv1 = sv\<lparr>sv_conns := fmupd conn_id (device_id, Open limiter') (sv_conns sv)\<rparr>
      in if \<not> allowed then (sv1, [])
         else if device_id |\<in>| ma_revoked_cache (sv_adapter sv1) then (connection_end sv1 device_id conn_id, [])
         else case frame of
                None \<Rightarrow> (sv1, [])
              | Some f \<Rightarrow>
                  (let (s, effs) = handle_client_frame uuid_str (sv_adapter sv1) device_id f
                   in (sv1\<lparr>sv_adapter := s\<rparr>, map (Pair device_id) effs)))"

text \<open>One tick of \<open>revoke_poll_loop\<close>, which ends once its connection's token is cancelled.\<close>

definition revoke_poll :: "'s Server \<Rightarrow> uuid \<Rightarrow> uuid \<Rightarrow> bool \<Rightarrow> 's Server" where
  "revoke_poll sv device_id conn_id is_revoked =
     (if conn_id |\<in>| ma_cancelled (sv_adapter sv) \<or> \<not> is_revoked then sv
      else sv\<lparr>sv_adapter := disconnect_device (sv_adapter sv) device_id\<rparr>)"

section \<open>The machine\<close>

datatype 's event =
    Upgrade "uuid option" uuid
  | First uuid instant "ClientFrame option" 's
  | Frame uuid instant "ClientFrame option"
  | Close uuid
  | Poll uuid bool
  | Disconnect uuid
  | Deliver instant uuid ResponseChunk
  | DeliverRun uuid RunEvent
  | NotifyEv uuid string Notification
  | Wire wiring

fun server_step ::
  "(uuid \<Rightarrow> string) \<Rightarrow> 's frame_sink \<Rightarrow> 's Server \<Rightarrow> 's event \<Rightarrow> 's Server \<times> (uuid \<times> effect) list" where
  "server_step us send sv (Upgrade active conn) = (ws_upgrade sv active conn, [])"
| "server_step us send sv (First conn now first sink) =
     (case fmlookup (sv_conns sv) conn of
        Some (dev, AwaitHello) \<Rightarrow> (connection_hello send sv dev conn now first sink, [])
      | _ \<Rightarrow> (sv, []))"
| "server_step us send sv (Frame conn now frame) =
     (case fmlookup (sv_conns sv) conn of
        Some (dev, Open limiter) \<Rightarrow> connection_frame us sv dev conn limiter now frame
      | _ \<Rightarrow> (sv, []))"
| "server_step us send sv (Close conn) =
     (case fmlookup (sv_conns sv) conn of
        Some (dev, Open limiter) \<Rightarrow> (connection_end sv dev conn, [])
      | _ \<Rightarrow> (sv, []))"
| "server_step us send sv (Poll conn is_revoked) =
     (case fmlookup (sv_conns sv) conn of
        Some (dev, _) \<Rightarrow> (revoke_poll sv dev conn is_revoked, [])
      | None \<Rightarrow> (sv, []))"
| "server_step us send sv (Disconnect dev) =
     (sv\<lparr>sv_adapter := disconnect_device (sv_adapter sv) dev\<rparr>, [])"
| "server_step us send sv (Deliver now sid chunk) =
     (sv\<lparr>sv_adapter := adapter_deliver (sv_adapter sv) now sid chunk\<rparr>, [])"
| "server_step us send sv (DeliverRun sid ev) =
     (sv\<lparr>sv_adapter := adapter_deliver_run_event (sv_adapter sv) sid ev\<rparr>, [])"
| "server_step us send sv (NotifyEv i t n) =
     (sv\<lparr>sv_adapter := adapter_notify (sv_adapter sv) i t n\<rparr>, [])"
| "server_step us send sv (Wire w) = (sv\<lparr>sv_adapter := adapter_wire (sv_adapter sv) w\<rparr>, [])"

fun server_exec ::
  "(uuid \<Rightarrow> string) \<Rightarrow> 's frame_sink \<Rightarrow> 's Server \<Rightarrow> 's event list \<Rightarrow> 's Server \<times> (uuid \<times> effect) list" where
  "server_exec us send sv [] = (sv, [])"
| "server_exec us send sv (ev # evs) =
     (let (sv', effs) = server_step us send sv ev;
          (sv'', effs') = server_exec us send sv' evs
      in (sv'', effs @ effs'))"

section \<open>What reaches a writer\<close>

definition inbox :: "'s MobileAdapter \<Rightarrow> uuid \<Rightarrow> 's WriterMsg list" where
  "inbox s d = (case fmlookup (ma_writers s) d of None \<Rightarrow> [] | Some msgs \<Rightarrow> msgs)"

text \<open>The session whose content a body carries.\<close>

fun body_session :: "ServerBody \<Rightarrow> uuid option" where
  "body_session (Chunk sid _) = Some sid"
| "body_session (Run sid _) = Some sid"
| "body_session (SSnapshot snap) = Some (ss_session_id snap)"
| "body_session _ = None"

fun effect_session :: "effect \<Rightarrow> uuid option" where
  "effect_session (Resolve _ sid _) = Some sid"
| "effect_session (Forward r) = Some (req_session_id r)"
| "effect_session (Cancel sid) = Some sid"
| "effect_session (NotifyAll _) = None"

lemma inbox_writer_send:
  "inbox (writer_send s d m) d' =
     (if d = d' \<and> d |\<in>| fmdom (ma_writers s) then inbox s d' @ [m] else inbox s d')"
  by (auto simp: inbox_def writer_send_def fmlookup_dom_iff split: option.splits)

lemma inbox_spawn: "inbox (get_or_spawn_writer s d) d' = inbox s d'"
  by (auto simp: inbox_def get_or_spawn_writer_def dm_or_insert_def split: option.splits)

lemma spawn_dom: "d |\<in>| fmdom (ma_writers (get_or_spawn_writer s d))"
  by (auto simp: get_or_spawn_writer_def dm_or_insert_def fmlookup_dom_iff split: option.splits)

lemma inbox_upd_other [simp]:
  "inbox (s\<lparr>ma_revoked_cache := a\<rparr>) d = inbox s d" "inbox (s\<lparr>ma_session_owner := b\<rparr>) d = inbox s d"
  "inbox (s\<lparr>ma_connections := c\<rparr>) d = inbox s d" "inbox (s\<lparr>ma_cancelled := e\<rparr>) d = inbox s d"
  "inbox (s\<lparr>ma_approval_reversible := f\<rparr>) d = inbox s d" "inbox (s\<lparr>ma_kill := g\<rparr>) d = inbox s d"
  "inbox (s\<lparr>ma_proactive := h\<rparr>) d = inbox s d"
  by (simp_all add: inbox_def)

text \<open>The fields a writer message leaves alone.\<close>

lemma writer_send_frame [frame_simps]:
  "ma_session_owner (writer_send s d m) = ma_session_owner s"
  "ma_revoked_cache (writer_send s d m) = ma_revoked_cache s"
  "ma_approval_reversible (writer_send s d m) = ma_approval_reversible s"
  "ma_config (writer_send s d m) = ma_config s"
  "ma_epoch (writer_send s d m) = ma_epoch s"
  "ma_kill (writer_send s d m) = ma_kill s"
  "ma_connections (writer_send s d m) = ma_connections s"
  by (simp_all add: writer_send_def split: option.splits)

lemma spawn_frame [frame_simps]:
  "ma_session_owner (get_or_spawn_writer s d) = ma_session_owner s"
  "ma_revoked_cache (get_or_spawn_writer s d) = ma_revoked_cache s"
  "ma_approval_reversible (get_or_spawn_writer s d) = ma_approval_reversible s"
  "ma_config (get_or_spawn_writer s d) = ma_config s"
  "ma_epoch (get_or_spawn_writer s d) = ma_epoch s"
  "ma_kill (get_or_spawn_writer s d) = ma_kill s"
  by (simp_all add: get_or_spawn_writer_def)

lemma push_frame [frame_simps]:
  "ma_session_owner (push_for_session s sid b) = ma_session_owner s"
  "ma_revoked_cache (push_for_session s sid b) = ma_revoked_cache s"
  "ma_approval_reversible (push_for_session s sid b) = ma_approval_reversible s"
  "ma_config (push_for_session s sid b) = ma_config s"
  "ma_kill (push_for_session s sid b) = ma_kill s"
  by (simp_all add: push_for_session_def frame_simps split: option.splits)

lemma sweep_frame [frame_simps]:
  "ma_session_owner (sweep_approval_reversible s t) = ma_session_owner s"
  "ma_revoked_cache (sweep_approval_reversible s t) = ma_revoked_cache s"
  "ma_writers (sweep_approval_reversible s t) = ma_writers s"
  "ma_config (sweep_approval_reversible s t) = ma_config s"
  "ma_kill (sweep_approval_reversible s t) = ma_kill s"
  by (simp_all add: sweep_approval_reversible_def)

lemma inbox_sweep: "inbox (sweep_approval_reversible s t) d = inbox s d"
  by (simp add: inbox_def frame_simps)

lemma notify_frame [frame_simps]:
  "ma_session_owner (adapter_notify s i t n) = ma_session_owner s"
  "ma_revoked_cache (adapter_notify s i t n) = ma_revoked_cache s"
  "ma_approval_reversible (adapter_notify s i t n) = ma_approval_reversible s"
  "ma_config (adapter_notify s i t n) = ma_config s"
  "ma_kill (adapter_notify s i t n) = ma_kill s"
  by (simp_all add: adapter_notify_def split: Notification.splits option.splits)

lemma inbox_push_for_session:
  "inbox (push_for_session s sid b) d =
     (if fmlookup (ma_session_owner s) sid = Some d \<and> d |\<notin>| ma_revoked_cache s
      then inbox s d @ [Body b] else inbox s d)"
  using spawn_dom
  by (auto simp: push_for_session_def inbox_writer_send inbox_spawn split: option.splits)

text \<open>
  Writers only grow. \<open>grow P s s'\<close> says every message the move from \<open>s\<close> to \<open>s'\<close> added for a device
  satisfies \<open>P\<close>. A message is \<open>quiet\<close> when it carries no session content and \<open>owned\<close> when its session
  belongs to the receiving device, which is not revoked.
\<close>

definition grow :: "(uuid \<Rightarrow> 's WriterMsg \<Rightarrow> bool) \<Rightarrow> 's MobileAdapter \<Rightarrow> 's MobileAdapter \<Rightarrow> bool" where
  "grow P s s' \<longleftrightarrow> (\<forall>d. \<exists>new. inbox s' d = inbox s d @ new \<and> (\<forall>m\<in>set new. P d m))"

fun quiet :: "uuid \<Rightarrow> 's WriterMsg \<Rightarrow> bool" where
  "quiet d (Body b) \<longleftrightarrow> body_session b = None"
| "quiet d _ \<longleftrightarrow> True"

fun owned :: "'s MobileAdapter \<Rightarrow> uuid \<Rightarrow> 's WriterMsg \<Rightarrow> bool" where
  "owned s d (Body b) \<longleftrightarrow>
     (case body_session b of
        None \<Rightarrow> True
      | Some sid \<Rightarrow> fmlookup (ma_session_owner s) sid = Some d \<and> d |\<notin>| ma_revoked_cache s)"
| "owned s d _ \<longleftrightarrow> True"

lemma quiet_owned: "quiet d m \<Longrightarrow> owned s d m"
  by (cases m) auto

lemma grow_same: "(\<And>d. inbox s' d = inbox s d) \<Longrightarrow> grow P s s'"
  by (simp add: grow_def)

lemma grow_refl [simp]: "grow P s s"
  by (rule grow_same) simp

lemma grow_trans: "grow P s s' \<Longrightarrow> grow P s' s'' \<Longrightarrow> grow P s s''"
  unfolding grow_def by (metis (no_types, lifting) Un_iff append.assoc set_append)

lemma grow_mono: "grow P s s' \<Longrightarrow> (\<And>d m. P d m \<Longrightarrow> Q d m) \<Longrightarrow> grow Q s s'"
  unfolding grow_def by metis

lemma grow_send: "P d m \<Longrightarrow> grow P s (writer_send s d m)"
  by (auto simp: grow_def inbox_writer_send)

lemma grow_spawn: "grow P s (get_or_spawn_writer s d)"
  by (rule grow_same) (simp add: inbox_spawn)

lemma grow_notify: "grow quiet s (adapter_notify s i t n)"
proof -
  have "\<exists>new. inbox (s\<lparr>ma_writers := fmmap (\<lambda>msgs. msgs @ [Body (KillState on)]) (ma_writers s)\<rparr>) d
      = inbox s d @ new \<and> (\<forall>m\<in>set new. quiet d m)" for on d
    by (cases "fmlookup (ma_writers s) d") (auto simp: inbox_def)
  then show ?thesis
    by (auto simp: adapter_notify_def grow_def split: Notification.splits option.splits)
qed

lemma grow_send_after: "(\<And>d. inbox s1 d = inbox s d) \<Longrightarrow> P d m \<Longrightarrow> grow P s (writer_send s1 d m)"
  by (rule grow_trans [OF grow_same grow_send])

lemma grow_disconnect: "grow quiet s (disconnect_device s d)"
  unfolding disconnect_device_def Let_def
  by (cases "fmlookup (ma_connections s) d") (auto intro!: grow_send_after)

lemma grow_push:
  assumes "body_session b = Some sid"
  shows "grow (owned (push_for_session s sid b)) s (push_for_session s sid b)"
  using assms by (auto simp: grow_def inbox_push_for_session frame_simps)

lemmas grow_quiet = grow_mono [where P = quiet, OF _ quiet_owned]

lemma disconnect_frame [frame_simps]:
  "ma_revoked_cache (disconnect_device s d) = finsert d (ma_revoked_cache s)"
  "ma_session_owner (disconnect_device s d) = dm_retain (\<lambda>_ owner. owner \<noteq> d) (ma_session_owner s)"
  "ma_approval_reversible (disconnect_device s d) = ma_approval_reversible s"
  "ma_config (disconnect_device s d) = ma_config s"
  "ma_kill (disconnect_device s d) = ma_kill s"
  by (simp_all add: disconnect_device_def Let_def frame_simps split: option.splits)

text \<open>A session-scoped arm runs its body only for the owner, after the claim.\<close>

lemma with_session_cases:
  obtains (foreign) "with_session s d sid k =
      (writer_send (s\<lparr>ma_session_owner := snd (claim_or_verify_session (ma_session_owner s) sid d)\<rparr>) d
         (Body (Error SessionUnknown)), [])"
    "fmlookup (ma_session_owner s) sid \<notin> {None, Some d}"
  | (owner) s1 where "with_session s d sid k = k s1"
    "s1 = s\<lparr>ma_session_owner := fmupd sid d (ma_session_owner s)\<rparr>" "fmlookup (ma_session_owner s1) sid = Some d"
proof (cases "fst (claim_or_verify_session (ma_session_owner s) sid d)")
  case True
  then have "snd (claim_or_verify_session (ma_session_owner s) sid d) = fmupd sid d (ma_session_owner s)"
    by (intro fmap_ext) (auto simp: claim_store claim_result)
  with True show ?thesis by (intro owner) (auto simp: with_session_def case_prod_beta)
next
  case False
  then show ?thesis by (intro foreign) (auto simp: with_session_def case_prod_beta claim_result)
qed

lemma handle_approve_frame:
  "ma_session_owner (fst (handle_approve a sid ap bio s)) = ma_session_owner s"
  "ma_revoked_cache (fst (handle_approve a sid ap bio s)) = ma_revoked_cache s"
  "ma_config (fst (handle_approve a sid ap bio s)) = ma_config s"
  "ma_kill (fst (handle_approve a sid ap bio s)) = ma_kill s"
  "inbox (fst (handle_approve a sid ap bio s)) d = inbox s d"
  by (simp_all add: handle_approve_def Let_def)

lemma handle_kill_frame:
  "ma_session_owner (fst (handle_kill on s)) = ma_session_owner s"
  "ma_revoked_cache (fst (handle_kill on s)) = ma_revoked_cache s"
  "ma_approval_reversible (fst (handle_kill on s)) = ma_approval_reversible s"
  "ma_config (fst (handle_kill on s)) = ma_config s"
  by (simp_all add: handle_kill_def Let_def frame_simps split: option.splits)

lemma grow_kill: "grow quiet s (fst (handle_kill on s))"
proof -
  have "grow quiet s (adapter_notify (s\<lparr>ma_kill := Some True\<rparr>) 0 [] (NKillStateChanged True))"
    by (rule grow_trans [OF grow_same grow_notify]) simp
  then show ?thesis by (auto simp: handle_kill_def Let_def grow_same split: option.splits)
qed

lemma handle_approve_effects:
  "snd (handle_approve a sid ap bio s) =
     (if ma_resolver s
      then [Resolve a sid (approval_allowed (cfg_approval_policy (ma_config s))
              (case fmlookup (ma_approval_reversible s) a of Some (v, _) \<Rightarrow> v | None \<Rightarrow> False) bio ap)]
      else [])"
  by (simp add: handle_approve_def Let_def)

lemma handle_kill_effects:
  "snd (handle_kill on s) =
     (if on \<and> ma_kill s \<noteq> None \<and> ma_manager s then [NotifyAll (NKillStateChanged True)] else [])"
  by (auto simp: handle_kill_def Let_def split: option.splits)

lemmas arm_frame = handle_approve_frame handle_kill_frame

text \<open>The frame handler as a whole.\<close>

lemma handle_client_frame_revoked:
  "ma_revoked_cache (fst (handle_client_frame us s d f)) = ma_revoked_cache s"
proof -
  have arm: "ma_revoked_cache (fst (with_session s d sid k)) = ma_revoked_cache s"
    if "\<And>s1. ma_revoked_cache (fst (k s1)) = ma_revoked_cache s1" for sid k
    by (rule with_session_cases [of s d sid k]) (simp_all add: frame_simps that)
  show ?thesis
    by (cases f) (auto simp: handle_client_frame_def frame_simps intro!: arm simp: Let_def arm_frame)
qed

lemma handle_client_frame_grow:
  assumes "d |\<notin>| ma_revoked_cache s"
  shows "grow (owned (fst (handle_client_frame us s d f))) s (fst (handle_client_frame us s d f))"
proof -
  have arm: "grow (owned (fst (with_session s d sid k))) s (fst (with_session s d sid k))"
    if k: "\<And>s1. fmlookup (ma_session_owner s1) sid = Some d \<Longrightarrow> d |\<notin>| ma_revoked_cache s1 \<Longrightarrow>
             grow (owned (fst (k s1))) s1 (fst (k s1))" for sid k
  proof (rule with_session_cases [of s d sid k])
    fix s1
    assume "with_session s d sid k = k s1" "fmlookup (ma_session_owner s1) sid = Some d"
      and s1: "s1 = s\<lparr>ma_session_owner := fmupd sid d (ma_session_owner s)\<rparr>"
    with k [of s1] assms have "grow (owned (fst (k s1))) s1 (fst (k s1))" by simp
    then have "grow (owned (fst (k s1))) s (fst (k s1))"
      by (rule grow_trans [rotated]) (simp add: s1 grow_same)
    with \<open>with_session s d sid k = k s1\<close> show ?thesis by simp
  qed (auto intro!: grow_send_after)
  show ?thesis
  proof (cases f)
    case UserMessage
    then show ?thesis by (auto simp: handle_client_frame_def Let_def intro!: arm)
  next
    case (Approve a sid ap bio)
    have "grow P s1 (fst (handle_approve a sid ap bio s1))" for P and s1 :: "'a MobileAdapter"
      by (rule grow_same) (simp add: arm_frame)
    with Approve show ?thesis by (auto simp: handle_client_frame_def intro!: arm)
  next
    case SetKillSwitch
    then show ?thesis by (auto simp: handle_client_frame_def intro!: arm grow_quiet [OF grow_kill])
  qed (auto simp: handle_client_frame_def Let_def frame_simps intro!: arm grow_send)
qed

lemma handle_client_frame_effects:
  assumes "e \<in> set (snd (handle_client_frame us s d f))" "effect_session e = Some sid"
  shows "fmlookup (ma_session_owner (fst (handle_client_frame us s d f))) sid = Some d"
proof -
  have arm: "fmlookup (ma_session_owner (fst (with_session s d sid' k))) sid = Some d"
    if "e \<in> set (snd (with_session s d sid' k))"
      and k: "\<And>s1. ma_session_owner (fst (k s1)) = ma_session_owner s1"
        "\<And>s1. e \<in> set (snd (k s1)) \<Longrightarrow> sid = sid'" for sid' k
    using that(1) by (rule_tac with_session_cases [of s d sid' k]) (auto simp: k)
  show ?thesis using assms
    by (cases f)
      (auto simp: handle_client_frame_def frame_simps Let_def forward_user_message_def arm_frame
        handle_approve_effects handle_kill_effects intro!: arm split: if_splits)
qed

section \<open>Steps of the machine\<close>

lemma cleanup_frame [frame_simps]:
  "inbox (sv_adapter (socket_cleanup sv d c)) d' = inbox (sv_adapter sv) d'"
  "ma_session_owner (sv_adapter (socket_cleanup sv d c)) = ma_session_owner (sv_adapter sv)"
  "ma_revoked_cache (sv_adapter (socket_cleanup sv d c)) = ma_revoked_cache (sv_adapter sv)"
  "ma_approval_reversible (sv_adapter (socket_cleanup sv d c)) = ma_approval_reversible (sv_adapter sv)"
  "ma_config (sv_adapter (socket_cleanup sv d c)) = ma_config (sv_adapter sv)"
  "ma_kill (sv_adapter (socket_cleanup sv d c)) = ma_kill (sv_adapter sv)"
  by (simp_all add: socket_cleanup_def Let_def)

lemma grow_cleanup: "grow P s (sv_adapter sv) \<Longrightarrow> grow P s (sv_adapter (socket_cleanup sv d c))"
  by (rule grow_trans, assumption, rule grow_same) (simp add: frame_simps)

lemma grow_then_send: "grow P s s1 \<Longrightarrow> P d m \<Longrightarrow> grow P s (writer_send s1 d m)"
  by (rule grow_trans, assumption, rule grow_send)

lemma hello_frame_simps [frame_simps]:
  "ma_session_owner (sv_adapter (connection_hello send sv d c t f k)) = ma_session_owner (sv_adapter sv)"
  "ma_revoked_cache (sv_adapter (connection_hello send sv d c t f k)) = ma_revoked_cache (sv_adapter sv)"
  "ma_approval_reversible (sv_adapter (connection_hello send sv d c t f k)) =
     ma_approval_reversible (sv_adapter sv)"
  "ma_config (sv_adapter (connection_hello send sv d c t f k)) = ma_config (sv_adapter sv)"
  "ma_kill (sv_adapter (connection_hello send sv d c t f k)) = ma_kill (sv_adapter sv)"
  by (simp_all add: connection_hello_def Let_def frame_simps split: option.splits ClientFrame.splits)

lemma grow_hello: "grow quiet (sv_adapter sv) (sv_adapter (connection_hello send sv d c t f k))"
  by (auto simp: connection_hello_def Let_def split: option.splits ClientFrame.splits
      intro!: grow_cleanup grow_then_send grow_spawn)

lemma grow_end: "grow quiet (sv_adapter sv) (sv_adapter (connection_end sv d c))"
  by (auto simp: connection_end_def intro!: grow_cleanup grow_send)

lemma connection_frame_cases:
  obtains (quiet) "snd (connection_frame us sv d c r t f) = []"
    "sv_adapter (fst (connection_frame us sv d c r t f)) = sv_adapter sv"
  | (revoked) "snd (connection_frame us sv d c r t f) = []" "d |\<in>| ma_revoked_cache (sv_adapter sv)"
    "sv_adapter (fst (connection_frame us sv d c r t f)) =
       sv_adapter (connection_end (sv\<lparr>sv_conns := fmupd c (d, Open (snd (rl_allow r t))) (sv_conns sv)\<rparr>) d c)"
  | (handled) g where "f = Some g" "d |\<notin>| ma_revoked_cache (sv_adapter sv)"
    "snd (connection_frame us sv d c r t f) = map (Pair d) (snd (handle_client_frame us (sv_adapter sv) d g))"
    "sv_adapter (fst (connection_frame us sv d c r t f)) = fst (handle_client_frame us (sv_adapter sv) d g)"
  by (cases f; cases "fst (rl_allow r t)"; cases "d |\<in>| ma_revoked_cache (sv_adapter sv)")
    (auto simp: connection_frame_def case_prod_beta Let_def)

lemma end_frame [frame_simps]:
  "ma_session_owner (sv_adapter (connection_end sv d c)) = ma_session_owner (sv_adapter sv)"
  "ma_revoked_cache (sv_adapter (connection_end sv d c)) = ma_revoked_cache (sv_adapter sv)"
  "ma_approval_reversible (sv_adapter (connection_end sv d c)) = ma_approval_reversible (sv_adapter sv)"
  "ma_config (sv_adapter (connection_end sv d c)) = ma_config (sv_adapter sv)"
  "ma_kill (sv_adapter (connection_end sv d c)) = ma_kill (sv_adapter sv)"
  by (simp_all add: connection_end_def frame_simps)

lemma grow_deliver: "grow (owned (adapter_deliver s t sid ch)) s (adapter_deliver s t sid ch)"
proof -
  define s1 where "s1 = (case ch of
      ToolApprovalRequest _ _ a _ r \<Rightarrow>
        sweep_approval_reversible (s\<lparr>ma_approval_reversible := fmupd a (r, t) (ma_approval_reversible s)\<rparr>) t
    | _ \<Rightarrow> s)"
  have "inbox s1 d = inbox s d" for d
    by (simp add: s1_def inbox_def frame_simps split: ResponseChunk.splits)
  then have "grow P s s1" for P by (simp add: grow_same)
  moreover have "grow (owned (push_for_session s1 sid (Chunk sid ch))) s1 (push_for_session s1 sid (Chunk sid ch))"
    by (rule grow_push) simp
  ultimately show ?thesis unfolding adapter_deliver_def Let_def s1_def [symmetric] by (rule grow_trans)
qed

lemma inbox_wire: "inbox (adapter_wire s w) d = inbox s d"
  by (cases w) (simp_all add: inbox_def)

lemma step_owned:
  "grow (owned (sv_adapter (fst (server_step us send sv ev)))) (sv_adapter sv)
     (sv_adapter (fst (server_step us send sv ev)))"
proof (cases ev)
  case (Frame c t f)
  then show ?thesis
  proof (cases "fmlookup (sv_conns sv) c")
    case (Some dp)
    obtain d p where dp: "dp = (d, p)" by (cases dp)
    show ?thesis
    proof (cases p)
      case (Open r)
      show ?thesis using Frame Some dp Open
        by (cases rule: connection_frame_cases [of us sv d c r t f])
          (auto simp: handle_client_frame_grow intro!: grow_quiet intro: grow_trans [OF grow_same grow_end])
    qed (use Frame Some dp in simp)
  qed simp
next
  case (Upgrade a c)
  then show ?thesis by (cases a) (auto simp: ws_upgrade_def Let_def intro!: grow_same)
next
  case (DeliverRun sid e)
  then show ?thesis by (simp add: adapter_deliver_run_event_def grow_push)
qed (auto simp: grow_deliver inbox_wire revoke_poll_def split: option.splits conn_phase.splits
    intro!: grow_quiet [OF grow_hello] grow_quiet [OF grow_end] grow_quiet [OF grow_disconnect]
      grow_quiet [OF grow_notify] intro: grow_same)

lemma step_effects:
  assumes "(d, e) \<in> set (snd (server_step us send sv ev))"
  obtains c t g r where "ev = Frame c t (Some g)" "fmlookup (sv_conns sv) c = Some (d, Open r)"
    "d |\<notin>| ma_revoked_cache (sv_adapter sv)" "e \<in> set (snd (handle_client_frame us (sv_adapter sv) d g))"
    "sv_adapter (fst (server_step us send sv ev)) = fst (handle_client_frame us (sv_adapter sv) d g)"
proof (cases ev)
  case (Frame c t f)
  with assms obtain d' r where conn: "fmlookup (sv_conns sv) c = Some (d', Open r)"
    and mem: "(d, e) \<in> set (snd (connection_frame us sv d' c r t f))"
    by (auto split: option.splits conn_phase.splits)
  show ?thesis
    using mem Frame conn by (cases rule: connection_frame_cases [of us sv d' c r t f]) (auto intro: that)
qed (use assms in \<open>auto split: option.splits conn_phase.splits\<close>)

lemma step_revoked:
  "d |\<in>| ma_revoked_cache (sv_adapter sv) \<Longrightarrow> (\<And>c. ev \<noteq> Upgrade (Some d) c) \<Longrightarrow>
   d |\<in>| ma_revoked_cache (sv_adapter (fst (server_step us send sv ev)))"
proof (cases ev)
  case (Frame c t f)
  assume d: "d |\<in>| ma_revoked_cache (sv_adapter sv)"
  have "ma_revoked_cache (sv_adapter (fst (connection_frame us sv d' c r t f))) =
      ma_revoked_cache (sv_adapter sv)" for d' r
    by (cases rule: connection_frame_cases [of us sv d' c r t f])
      (simp_all add: handle_client_frame_revoked frame_simps)
  with d Frame show ?thesis by (auto split: option.splits conn_phase.splits)
next
  case (Upgrade a c)
  assume "d |\<in>| ma_revoked_cache (sv_adapter sv)" "\<And>c. ev \<noteq> Upgrade (Some d) c"
  with Upgrade show ?thesis by (cases a) (auto simp: ws_upgrade_def Let_def)
next
  case (Wire w)
  then show "d |\<in>| ma_revoked_cache (sv_adapter sv) \<Longrightarrow> ?thesis" by (cases w) simp_all
qed (auto simp: frame_simps adapter_deliver_def adapter_deliver_run_event_def revoke_poll_def Let_def
    split: option.splits conn_phase.splits ResponseChunk.splits)

lemma handle_client_frame_config:
  "ma_config (fst (handle_client_frame us s d f)) = ma_config s"
proof -
  have arm: "ma_config (fst (with_session s d sid k)) = ma_config s"
    if "\<And>s1. ma_config (fst (k s1)) = ma_config s1" for sid k
    by (rule with_session_cases [of s d sid k]) (simp_all add: frame_simps that)
  show ?thesis
    by (cases f) (auto simp: handle_client_frame_def frame_simps intro!: arm simp: Let_def arm_frame)
qed

lemma handle_client_frame_kill:
  "ma_kill s = Some True \<Longrightarrow> ma_kill (fst (handle_client_frame us s d f)) = Some True"
proof -
  assume s: "ma_kill s = Some True"
  have arm: "ma_kill (fst (with_session s d sid k)) = Some True"
    if "\<And>s1. ma_kill s1 = Some True \<Longrightarrow> ma_kill (fst (k s1)) = Some True" for sid k
    using s by (rule_tac with_session_cases [of s d sid k]) (simp_all add: frame_simps that)
  show ?thesis using s
    by (cases f) (auto simp: handle_client_frame_def frame_simps Let_def arm_frame handle_kill_def
        intro!: arm split: if_splits)
qed

lemma handle_client_frame_flags:
  assumes "fmlookup (ma_approval_reversible (fst (handle_client_frame us s d f))) a = Some v"
  shows "fmlookup (ma_approval_reversible s) a = Some v"
proof -
  have arm: "fmlookup (ma_approval_reversible s) a = Some v"
    if "fmlookup (ma_approval_reversible (fst (with_session s d sid k))) a = Some v"
      and "\<And>s1. fmlookup (ma_approval_reversible (fst (k s1))) a = Some v \<Longrightarrow>
             fmlookup (ma_approval_reversible s1) a = Some v" for sid k
    using that(1) that(2) [of "s\<lparr>ma_session_owner := fmupd sid d (ma_session_owner s)\<rparr>"]
    by (rule_tac with_session_cases [of s d sid k]) (auto simp: frame_simps)
  show ?thesis using assms
    by (cases f)
      (auto simp: handle_client_frame_def frame_simps Let_def arm_frame handle_approve_def
        dest: arm split: if_splits)
qed

definition server_new :: "MobileServerConfig \<Rightarrow> u64 \<Rightarrow> 's Server" where
  "server_new config epoch = \<lparr>sv_adapter = adapter_new config epoch, sv_conns = fmempty\<rparr>"

text \<open>The reversible flag last delivered for an approval.\<close>

fun flag_of :: "'s event \<Rightarrow> uuid \<Rightarrow> bool option" where
  "flag_of (Deliver _ _ (ToolApprovalRequest _ _ a _ r)) a' = (if a = a' then Some r else None)"
| "flag_of _ _ = None"

definition last_flag :: "'s event list \<Rightarrow> uuid \<Rightarrow> bool option" where
  "last_flag evs a = foldl (\<lambda>acc ev. case flag_of ev a of None \<Rightarrow> acc | Some r \<Rightarrow> Some r) None evs"

definition flags_ok :: "'s event list \<Rightarrow> 's MobileAdapter \<Rightarrow> bool" where
  "flags_ok evs s \<longleftrightarrow>
     (\<forall>a r t. fmlookup (ma_approval_reversible s) a = Some (r, t) \<longrightarrow> last_flag evs a = Some r)"

lemma flags_ok_subset:
  assumes "flags_ok evs s" "\<And>a. flag_of ev a = None"
    and "\<And>a v. fmlookup (ma_approval_reversible s') a = Some v \<Longrightarrow> fmlookup (ma_approval_reversible s) a = Some v"
  shows "flags_ok (evs @ [ev]) s'"
  using assms unfolding flags_ok_def last_flag_def by fastforce

lemma flags_ok_deliver:
  assumes "flags_ok evs s"
  shows "flags_ok (evs @ [Deliver t sid ch]) (adapter_deliver s t sid ch)"
proof (cases ch)
  case (ToolApprovalRequest x1 x2 a x4 r)
  have "fmlookup (ma_approval_reversible (adapter_deliver s t sid ch)) b = Some v \<Longrightarrow>
      fmlookup (fmupd a (r, t) (ma_approval_reversible s)) b = Some v" for b v
    by (simp add: ToolApprovalRequest adapter_deliver_def frame_simps sweep_approval_reversible_def
        split: if_splits option.splits)
  with assms show ?thesis
    unfolding flags_ok_def last_flag_def ToolApprovalRequest by (fastforce split: if_splits)
qed (use assms in \<open>auto intro!: flags_ok_subset simp: adapter_deliver_def frame_simps\<close>)

lemma step_flags:
  assumes "flags_ok evs (sv_adapter sv)"
  shows "flags_ok (evs @ [ev]) (sv_adapter (fst (server_step us send sv ev)))"
proof (cases ev)
  case (Deliver t sid ch)
  with assms show ?thesis by (simp add: flags_ok_deliver)
next
  case (Frame c t f)
  have "fmlookup (ma_approval_reversible (sv_adapter (fst (connection_frame us sv d c r t f)))) a = Some v
      \<Longrightarrow> fmlookup (ma_approval_reversible (sv_adapter sv)) a = Some v" for d r a v
    by (cases rule: connection_frame_cases [of us sv d c r t f])
      (auto simp: frame_simps dest: handle_client_frame_flags)
  with assms Frame show ?thesis
    by (intro flags_ok_subset [OF assms]) (auto split: option.splits conn_phase.splits)
next
  case (Wire w)
  with assms show ?thesis by (intro flags_ok_subset [OF assms]) (cases w; simp)+
qed (use assms in \<open>auto intro!: flags_ok_subset [OF assms] simp: frame_simps ws_upgrade_def
      adapter_deliver_run_event_def revoke_poll_def Let_def split: option.splits conn_phase.splits\<close>)

lemma step_config: "ma_config (sv_adapter (fst (server_step us send sv ev))) = ma_config (sv_adapter sv)"
proof (cases ev)
  case (Frame c t f)
  have "ma_config (sv_adapter (fst (connection_frame us sv d c r t f))) = ma_config (sv_adapter sv)" for d r
    by (cases rule: connection_frame_cases [of us sv d c r t f])
      (simp_all add: handle_client_frame_config frame_simps)
  with Frame show ?thesis by (auto split: option.splits conn_phase.splits)
next
  case (Wire w)
  then show ?thesis by (cases w) simp_all
qed (auto simp: frame_simps adapter_deliver_def adapter_deliver_run_event_def revoke_poll_def Let_def
    ws_upgrade_def split: option.splits conn_phase.splits ResponseChunk.splits)

lemma step_kill:
  assumes "ma_kill (sv_adapter sv) = Some True" "\<And>w. ev \<noteq> Wire w"
  shows "ma_kill (sv_adapter (fst (server_step us send sv ev))) = Some True"
proof (cases ev)
  case (Frame c t f)
  have "ma_kill (sv_adapter (fst (connection_frame us sv d c r t f))) = Some True" for d r
    using assms(1) by (cases rule: connection_frame_cases [of us sv d c r t f])
      (simp_all add: handle_client_frame_kill frame_simps)
  with assms Frame show ?thesis by (auto split: option.splits conn_phase.splits)
qed (use assms in \<open>auto simp: frame_simps adapter_deliver_def adapter_deliver_run_event_def revoke_poll_def
    Let_def ws_upgrade_def split: option.splits conn_phase.splits ResponseChunk.splits\<close>)

text \<open>Runs are built from steps at the end.\<close>

lemma exec_snoc:
  "server_exec us send sv (evs @ [ev]) =
     (fst (server_step us send (fst (server_exec us send sv evs)) ev),
      snd (server_exec us send sv evs) @ snd (server_step us send (fst (server_exec us send sv evs)) ev))"
  by (induction evs arbitrary: sv) (simp_all add: case_prod_beta)

lemma exec_flags:
  "flags_ok evs (sv_adapter (fst (server_exec us send (server_new config epoch) evs)))"
proof (induction evs rule: rev_induct)
  case Nil
  then show ?case by (simp add: flags_ok_def server_new_def adapter_new_def)
next
  case (snoc ev evs)
  from step_flags [OF this] show ?case by (simp add: exec_snoc)
qed

lemma exec_config:
  "ma_config (sv_adapter (fst (server_exec us send sv evs))) = ma_config (sv_adapter sv)"
  by (induction evs rule: rev_induct) (simp_all add: exec_snoc step_config)

section \<open>Properties\<close>


definition example_server :: "unit Server" where
  "example_server =
     \<lparr>sv_adapter = (adapter_new default_config 1)
        \<lparr>ma_writers := fmupd 7 [] fmempty, ma_session_owner := fmupd 5 7 fmempty, ma_resolver := True,
         ma_kill := Some True, ma_tx := True, ma_manager := True\<rparr>,
      sv_conns = fmupd 100 (7, Open (rl_new 60 0)) fmempty\<rparr>"

abbreviation reliable :: "unit frame_sink" where
  "reliable \<equiv> (\<lambda>s f. (s, Some True))"


text \<open>
  A delivery is routed to exactly one place. A response chunk is queued, as the last
  message, for the device that owns its session if there is one and it is not revoked, and for no
  other device.
\<close>

lemma deliver_routes_to_owner:
  "inbox (sv_adapter (fst (server_step us send sv (Deliver now sid chunk)))) d =
     inbox (sv_adapter sv) d @
       (if fmlookup (ma_session_owner (sv_adapter sv)) sid = Some d \<and>
           d |\<notin>| ma_revoked_cache (sv_adapter sv)
        then [Body (Chunk sid chunk)] else [])"
  by (simp add: adapter_deliver_def inbox_push_for_session frame_simps inbox_sweep split: ResponseChunk.splits)



text \<open>
  A phone can only ever turn the kill switch on. No sequence of adapter events, whatever
  frames the devices send, clears a kill switch that is set; only a store from outside the adapter
  does.
\<close>

lemma kill_switch_stays_on:
  assumes "ma_kill (sv_adapter sv) = Some True" and "\<forall>w. Wire w \<notin> set evs"
  shows "ma_kill (sv_adapter (fst (server_exec us send sv evs))) = Some True"
  using assms(2)
proof (induction evs rule: rev_induct)
  case (snoc ev evs)
  then show ?case by (auto simp: exec_snoc intro!: step_kill)
qed (simp add: assms(1))

lemma kill_switch_stays_on_witness:
  "ma_kill (sv_adapter (fst (server_exec (\<lambda>_. []) reliable example_server
     [Frame 100 1 (Some (SetKillSwitch 5 False))]))) = Some True"
  by (rule kill_switch_stays_on) (simp_all add: example_server_def)

text \<open>
  A remote approval is honoured only under the operator's policy. In every run from a
  fresh server, an approval is resolved positively only by an \<open>Approve\<close> frame that approves it, and
  then either the policy allows every approval, or the frame asserts a biometric check under
  \<open>BiometricRequired\<close>, or the approval was last announced as reversible. An approval that was never
  announced counts as irreversible.
\<close>

lemma approval_follows_policy:
  assumes "(d, Resolve a sid True) \<in> set (snd (server_step us send
      (fst (server_exec us send (server_new config epoch) evs)) ev))"
  shows "\<exists>c t bio. ev = Frame c t (Some (Approve a sid True bio)) \<and>
           (cfg_approval_policy config = Allow \<or>
            cfg_approval_policy config = BiometricRequired \<and> bio \<or>
            last_flag evs a = Some True)"
proof -
  let ?sv = "fst (server_exec us send (server_new config epoch) evs)"
  from assms obtain c t g where ev: "ev = Frame c t (Some g)"
    and eff: "Resolve a sid True \<in> set (snd (handle_client_frame us (sv_adapter ?sv) d g))"
    by (rule step_effects)
  have arm: "Resolve a sid True \<in> set (snd (with_session s d sid' k)) \<Longrightarrow>
      \<exists>s1. Resolve a sid True \<in> set (snd (k s1)) \<and> ma_config s1 = ma_config s \<and>
        ma_approval_reversible s1 = ma_approval_reversible s" for s :: "'a MobileAdapter" and sid' k
    by (rule with_session_cases [of s d sid' k]) auto
  from eff obtain bio where g: "g = Approve a sid True bio"
    and ok: "approval_allowed (cfg_approval_policy (ma_config (sv_adapter ?sv)))
      (case fmlookup (ma_approval_reversible (sv_adapter ?sv)) a of Some (v, _) \<Rightarrow> v | None \<Rightarrow> False) bio True"
    by (cases g) (auto simp: handle_client_frame_def forward_user_message_def Let_def
        handle_approve_effects handle_kill_effects approval_allowed_def dest!: arm split: if_splits)
  have "ma_config (sv_adapter ?sv) = config" by (simp add: exec_config server_new_def adapter_new_def)
  with ok exec_flags [of evs us send config epoch] have "cfg_approval_policy config = Allow \<or>
      cfg_approval_policy config = BiometricRequired \<and> bio \<or> last_flag evs a = Some True"
    unfolding flags_ok_def approval_allowed_def
    by (cases "cfg_approval_policy config") (auto split: option.splits)
  with ev g show ?thesis by blast
qed

definition example_run :: "unit event list" where
  "example_run =
     [Wire WResolver, Upgrade (Some 7) 100, First 100 0 (Some (Hello None None 1)) (),
      Deliver 1 5 (ToolApprovalRequest ''delete'' ''{}'' 9 None True)]"

lemma example_run_state:
  "fst (server_exec (\<lambda>_. []) reliable (server_new default_config 1) example_run) =
     \<lparr>sv_adapter = (adapter_new default_config 1)
        \<lparr>ma_writers := fmupd 7 [Body (HelloAck 1 1 False BiometricRequired), Resume None ()] fmempty,
         ma_approval_reversible := fmupd 9 (True, 1) fmempty, ma_connections := fmupd 7 100 fmempty,
         ma_resolver := True\<rparr>,
      sv_conns = fmupd 100 (7, Open (rl_new 60 0)) fmempty\<rparr>"
  by (simp add: example_run_def server_new_def ws_upgrade_def connection_hello_def Let_def
      PROTOCOL_VERSION_def get_or_spawn_writer_def dm_or_insert_def writer_send_def adapter_new_def
      default_config_def current_kill_state_def resume_cursor_def writer_state_def writer_step_def
      writer_spawn_def rb_push_def rb_new_def replay_since_def send_with_timeout_def case_prod_beta
      adapter_deliver_def sweep_approval_reversible_def push_for_session_def dm_len_def
      fcard_finsert_if fcard_fempty APPROVAL_REVERSIBLE_SWEEP_THRESHOLD_def)

lemma approval_follows_policy_witness:
  "\<exists>c t bio. Frame 100 2 (Some (Approve 9 5 True False)) = Frame c t (Some (Approve 9 5 True bio)) \<and>
     (bio \<or> last_flag example_run 9 = Some True)"
  using approval_follows_policy [where us = "\<lambda>_. []" and send = reliable and config = default_config
      and epoch = 1 and evs = example_run and ev = "Frame 100 2 (Some (Approve 9 5 True False))"
      and d = 7 and a = 9 and sid = 5]
  unfolding example_run_state
  by (simp add: connection_frame_def rl_allow_def rl_new_def handle_client_frame_def with_session_def
      claim_or_verify_session_def dm_or_insert_def handle_approve_def approval_allowed_def Let_def
      adapter_new_def default_config_def time_simps)

section \<open>The handshake\<close>

text \<open>
  Three consequences of the handshake's order. The wait for the first frame does not look at the
  cancellation token or the revoked cache, so a device revoked after its upgrade still gets the
  replay of its ring when its \<open>Hello\<close> arrives. A client with another protocol version gets the error,
  but its socket stays attached to the writer after the connection has ended. A client whose cursor
  fell out of the window never sees a \<open>HelloAck\<close> on that connection, because the acknowledgement is
  buffered before the refused replay.
\<close>

lemma writer_run_snoc:
  "writer_run send w (ms @ [m]) =
     (let (w', out) = writer_run send w ms; (w'', r, out') = writer_step send w' m in (w'', out @ out'))"
  by (induction ms arbitrary: w) (simp_all add: case_prod_beta Let_def)

lemma writer_state_send:
  assumes "d |\<in>| fmdom (ma_writers s)"
  shows "writer_state send (writer_send s d m) d = fst (writer_step send (writer_state send s d) m)"
proof -
  obtain ms where "fmlookup (ma_writers s) d = Some ms" using assms by (auto simp: fmlookup_dom_iff)
  then show ?thesis
    by (simp add: writer_state_def frame_simps) (simp add: writer_send_def writer_run_snoc case_prod_beta Let_def)
qed

lemma writer_send_dom: "fmdom (ma_writers (writer_send s d m)) = fmdom (ma_writers s)"
  by (auto simp: writer_send_def fmlookup_dom_iff split: option.splits)

lemma writer_state_frame:
  "writer_state send (sv_adapter (socket_cleanup sv d c)) d' = writer_state send (sv_adapter sv) d'"
  by (simp add: writer_state_def socket_cleanup_def Let_def)

lemma resume_attaches: "dw_socket (fst (writer_step send w (Resume cur sink))) \<noteq> None"
  by (auto simp: writer_step_def case_prod_beta Let_def split: sum.splits WindowExceeded.splits)

lemma mismatch_stays_attached:
  assumes "fmlookup (sv_conns sv) c = Some (d, AwaitHello)" and "v \<noteq> PROTOCOL_VERSION"
    and "server_step us send sv (First c t (Some (Hello n e v)) sink) = (sv', effs)"
  shows "fmlookup (sv_conns sv') c = None \<and> dw_socket (writer_state send (sv_adapter sv') d) \<noteq> None"
proof -
  let ?s = "get_or_spawn_writer (sv_adapter sv) d"
  let ?s1 = "writer_send ?s d (Body (Error ProtocolVersion))"
  from assms have sv': "sv' = socket_cleanup (sv\<lparr>sv_adapter := writer_send ?s1 d (Resume None sink)\<rparr>) d c"
    by (simp add: connection_hello_def Let_def split: if_splits)
  have "dw_socket (writer_state send (writer_send ?s1 d (Resume None sink)) d) \<noteq> None"
    by (subst writer_state_send) (simp_all add: writer_send_dom spawn_dom resume_attaches)
  then show ?thesis by (simp add: sv' writer_state_frame) (simp add: socket_cleanup_def Let_def)
qed

text \<open>The revoked device 7 sends its \<open>Hello\<close>; the sink then holds the buffered chunk of session 5.\<close>

abbreviation recording :: "ServerBody list frame_sink" where
  "recording \<equiv> (\<lambda>s f. (s @ [sf_body f], Some True))"

definition revoked_waiting :: "ServerBody list Server" where
  "revoked_waiting =
     \<lparr>sv_adapter = disconnect_device ((adapter_new default_config 1)
        \<lparr>ma_writers := fmupd 7 [Body (Chunk 5 Complete)] fmempty, ma_session_owner := fmupd 5 7 fmempty,
         ma_connections := fmupd 7 100 fmempty\<rparr>) 7,
      sv_conns = fmupd 100 (7, AwaitHello) fmempty\<rparr>"

lemma revoked_hello_replays:
  "7 |\<in>| ma_revoked_cache (sv_adapter revoked_waiting) \<and> 100 |\<in>| ma_cancelled (sv_adapter revoked_waiting) \<and>
   dw_socket (writer_state recording (sv_adapter (fst (server_step (\<lambda>_. []) recording revoked_waiting
     (First 100 0 (Some (Hello None None 1)) [])))) 7)
   = Some [Chunk 5 Complete, HelloAck 1 1 False BiometricRequired]"
  by (simp add: revoked_waiting_def disconnect_device_def connection_hello_def Let_def
      PROTOCOL_VERSION_def get_or_spawn_writer_def dm_or_insert_def writer_send_def adapter_new_def
      default_config_def current_kill_state_def resume_cursor_def writer_state_def writer_step_def
      writer_spawn_def rb_push_def rb_new_def replay_since_def send_with_timeout_def case_prod_beta)

text \<open>A client in the current epoch whose cursor fell out of the window receives the error alone.\<close>

lemma refused_resume_hides_ack:
  fixes sv :: "ServerBody list Server"
  assumes conn: "fmlookup (sv_conns sv) c = Some (d, AwaitHello)"
    and ack: "s1 = writer_send (get_or_spawn_writer (sv_adapter sv) d) d
      (Body (HelloAck (ma_epoch (sv_adapter sv)) PROTOCOL_VERSION (current_kill_state (sv_adapter sv))
        (cfg_approval_policy (ma_config (sv_adapter sv)))))"
    and gap: "replay_since (dw_ring (writer_state recording s1 d)) (Some n) = Inl WindowExceeded"
    and step: "server_step us recording sv
      (First c t (Some (Hello (Some n) (Some (ma_epoch (sv_adapter sv))) PROTOCOL_VERSION)) []) = (sv', effs)"
  shows "dw_socket (writer_state recording (sv_adapter sv') d) = Some [Error ResumeWindowExceeded]"
proof -
  let ?r = "Resume (Some n) []" and ?err = "Body (Error ResumeWindowExceeded)"
  have kill: "current_kill_state (get_or_spawn_writer s d) = current_kill_state s"
    for s :: "ServerBody list MobileAdapter"
    by (simp add: current_kill_state_def frame_simps)
  have dom: "d |\<in>| fmdom (ma_writers s1)" by (simp add: ack writer_send_dom spawn_dom)
  have r: "writer_step recording (writer_state recording s1 d) ?r =
      (writer_state recording s1 d\<lparr>dw_socket := Some []\<rparr>, Some ResumeExceeded, [])"
    using gap by (simp add: writer_step_def)
  have "sv_adapter sv' = writer_send (writer_send s1 d ?r) d ?err"
    using step conn r unfolding ack
    by (auto simp: connection_hello_def Let_def resume_cursor_def frame_simps kill)
  then show ?thesis using dom
    by (simp add: writer_state_send writer_send_dom r)
      (simp add: writer_step_def case_prod_beta Let_def send_with_timeout_def rb_push_def)
qed

end
