(* ===== verification/ToolTags.thy ===== *)
theory ToolTags
  imports Prelude "HOL-Library.Sublist"
begin

text \<open>
  Recognising and removing tool-protocol tags in untrusted text: the canonical matcher
  (\<open>crates/haily-core/src/tag_matcher.rs\<close>), its users in \<open>crates/haily-core/src/tool_call.rs\<close>, and the
  independent stripper of \<open>crates/haily-io/src/run_event.rs\<close>, which \<open>haily-tools\<close> repeats in
  \<open>connector/redact.rs\<close>.

  Text is a list of Unicode code points and offsets count code points. The sources use byte offsets,
  but only at character boundaries; scanning for an ASCII byte at every byte offset finds the same
  characters as scanning the code points.
\<close>

section \<open>Text\<close>

type_synonym ustr = "nat list"

abbreviation lit :: "string \<Rightarrow> ustr" where
  "lit s \<equiv> map of_char s"

definition LT :: nat where "LT = 60"
definition GT :: nat where "GT = 62"
definition SLASH :: nat where "SLASH = 47"

definition is_ascii_whitespace :: "nat \<Rightarrow> bool" where
  "is_ascii_whitespace c \<longleftrightarrow> c \<in> {32, 9, 10, 12, 13}"

text \<open>\<open>char::is_whitespace\<close>, the Unicode property \<open>White_Space\<close> used by \<open>trim\<close> and \<open>trim_start\<close>.\<close>

definition is_whitespace :: "nat \<Rightarrow> bool" where
  "is_whitespace c \<longleftrightarrow> 9 \<le> c \<and> c \<le> 13 \<or> c = 32 \<or> c = 133 \<or> c = 160 \<or> c = 5760 \<or>
     8192 \<le> c \<and> c \<le> 8202 \<or> c \<in> {8232, 8233, 8239, 8287, 12288}"

definition to_ascii_lowercase :: "nat \<Rightarrow> nat" where
  "to_ascii_lowercase c = (if 65 \<le> c \<and> c \<le> 90 then c + 32 else c)"

abbreviation lower :: "ustr \<Rightarrow> ustr" where
  "lower \<equiv> map to_ascii_lowercase"

definition eq_ignore_ascii_case :: "ustr \<Rightarrow> ustr \<Rightarrow> bool" where
  "eq_ignore_ascii_case s t \<longleftrightarrow> lower s = lower t"

definition starts_with :: "nat \<Rightarrow> ustr \<Rightarrow> bool" where
  "starts_with c s \<longleftrightarrow> (case s of [] \<Rightarrow> False | x # _ \<Rightarrow> x = c)"

definition trim_start :: "ustr \<Rightarrow> ustr" where
  "trim_start s = dropWhile is_whitespace s"

definition trim :: "ustr \<Rightarrow> ustr" where
  "trim s = rev (dropWhile is_whitespace (rev (dropWhile is_whitespace s)))"

section \<open>The canonical matcher\<close>

definition TAG_NAMES :: "string list" where
  "TAG_NAMES = [''tool_call'', ''tool_result'']"

record TagMatch =
  tm_name :: string
  tm_closing :: bool
  tm_start :: nat
  tm_end :: nat

definition skip_ws :: "ustr \<Rightarrow> nat" where
  "skip_ws s = length (takeWhile is_ascii_whitespace s)"

definition after_ws :: "ustr \<Rightarrow> ustr" where
  "after_ws s = drop (skip_ws s) s"

text \<open>
  \<open>try_match_tag_at\<close> on the rest of the text: the name, the direction and the length of the tag. Each
  \<open>r\<close> is the source's \<open>&rest[cursor..]\<close> after one more advance of the cursor.
\<close>

definition match_rest :: "ustr \<Rightarrow> (string \<times> bool \<times> nat) option" where
  "match_rest rest =
     (if rest = [] then None
      else let r1 = after_ws (tl rest);
               closing = starts_with SLASH r1;
               r2 = (if closing then tl r1 else r1);
               r3 = after_ws r2
           in case find (\<lambda>n. eq_ignore_ascii_case (take (length n) r3) (lit n)) TAG_NAMES of
                None \<Rightarrow> None
              | Some name \<Rightarrow>
                  (let r4 = drop (length name) r3;
                       r5 = after_ws r4
                   in if \<not> starts_with GT r5 then None
                      else Some (name, closing, length rest - length r5 + 1)))"

definition try_match_tag_at :: "ustr \<Rightarrow> nat \<Rightarrow> TagMatch option" where
  "try_match_tag_at text start =
     map_option (\<lambda>(name, closing, n). \<lparr>tm_name = name, tm_closing = closing, tm_start = start,
                                       tm_end = start + n\<rparr>)
       (match_rest (drop start text))"

function find_next_tag :: "ustr \<Rightarrow> nat \<Rightarrow> TagMatch option" where
  "find_next_tag text i =
     (if i < length text then
        (if text ! i \<noteq> LT then find_next_tag text (i + 1)
         else case try_match_tag_at text i of
                Some m \<Rightarrow> Some m
              | None \<Rightarrow> find_next_tag text (i + 1))
      else None)"
  by pat_completeness auto
termination by (relation "measure (\<lambda>(text, i). length text - i)") auto

declare find_next_tag.simps [simp del]

section \<open>The grammar of a tag\<close>

text \<open>
  The documented regular expression \<open><\s*/?\s*tool_(call|result)\s*>\<close>, ignoring ASCII case, as the
  set of texts it matches (any first character, since callers only ask at a \<open><\<close>).
\<close>

definition all_ws :: "ustr \<Rightarrow> bool" where
  "all_ws s \<longleftrightarrow> list_all is_ascii_whitespace s"

definition tag_text :: "string \<Rightarrow> bool \<Rightarrow> ustr \<Rightarrow> bool" where
  "tag_text name closing s \<longleftrightarrow>
     (\<exists>c ws1 ws2 nm ws3. s = c # ws1 @ (if closing then SLASH # ws2 else []) @ nm @ ws3 @ [GT] \<and>
        all_ws ws1 \<and> all_ws ws2 \<and> all_ws ws3 \<and> name \<in> set TAG_NAMES \<and> lower nm = lit name)"

lemma skip_ws_app:
  "all_ws ws \<Longrightarrow> \<not> is_ascii_whitespace c \<Longrightarrow> after_ws (ws @ c # r) = c # r"
  by (induction ws) (auto simp: all_ws_def skip_ws_def after_ws_def)

lemma skip_ws_split: "\<exists>ws. s = ws @ after_ws s \<and> all_ws ws"
  using takeWhile_dropWhile_id [of is_ascii_whitespace s]
  by (intro exI [of _ "takeWhile is_ascii_whitespace s"])
    (auto simp: after_ws_def skip_ws_def all_ws_def list_all_iff dropWhile_eq_drop dest: set_takeWhileD)

lemma starts_with_split: "starts_with c s \<Longrightarrow> \<exists>r. s = c # r"
  by (cases s) (auto simp: starts_with_def)

lemma name_len: "lower nm = lit name \<Longrightarrow> length nm = length name"
  by (metis length_map)

lemma tag_lit_lower: "name \<in> set TAG_NAMES \<Longrightarrow> lower (lit name) = lit name"
  by (auto simp: TAG_NAMES_def to_ascii_lowercase_def)

lemma match_rest_tag:
  assumes "match_rest rest = Some (name, closing, n)"
  shows "\<exists>post. rest = take n rest @ post \<and> n = length rest - length post \<and> tag_text name closing (take n rest)"
proof -
  from assms obtain c s0 where rest: "rest = c # s0" by (cases rest) (auto simp: match_rest_def)
  obtain ws1 where s0: "s0 = ws1 @ after_ws s0" and ws1: "all_ws ws1"
    using skip_ws_split by blast
  define r1 where "r1 = after_ws s0"
  define r2 where "r2 = (if starts_with SLASH r1 then tl r1 else r1)"
  obtain ws2 where r2: "r2 = ws2 @ after_ws r2" and ws2: "all_ws ws2"
    using skip_ws_split by blast
  define r3 where "r3 = after_ws r2"
  from assms have cl: "closing = starts_with SLASH r1"
    and fnd: "find (\<lambda>n. eq_ignore_ascii_case (take (length n) r3) (lit n)) TAG_NAMES = Some name"
    and gt: "starts_with GT (after_ws (drop (length name) r3))"
    and n: "n = length rest - length (after_ws (drop (length name) r3)) + 1"
    unfolding match_rest_def Let_def rest r3_def r2_def r1_def
    by (auto split: if_splits option.splits)
  from fnd have name: "name \<in> set TAG_NAMES" and nm: "lower (take (length name) r3) = lit name"
    by (auto simp: find_Some_iff eq_ignore_ascii_case_def tag_lit_lower simp del: map_map)
  obtain ws3 where r4: "drop (length name) r3 = ws3 @ after_ws (drop (length name) r3)"
    and ws3: "all_ws ws3" using skip_ws_split by blast
  from gt obtain post where post_eq: "after_ws (drop (length name) r3) = GT # post"
    using starts_with_split by blast
  with r4 have r3: "r3 = take (length name) r3 @ ws3 @ GT # post"
    by (metis append_take_drop_id)
  have r1: "r1 = (if closing then SLASH # ws2 else ws2) @ r3"
    using r2 starts_with_split [of SLASH r1] unfolding cl r3_def [symmetric] by (auto simp: r2_def)
  have "rest = c # ws1 @ (if closing then SLASH # ws2 else ws2) @ take (length name) r3 @ ws3 @ [GT] @ post"
    using s0 r1 r3 unfolding rest r1_def [symmetric] by auto
  moreover define tag where
    "tag = c # ws1 @ (if closing then SLASH # ws2 else ws2) @ take (length name) r3 @ ws3 @ [GT]"
  ultimately have split: "rest = tag @ post" by simp
  have "tag_text name closing tag"
    unfolding tag_text_def tag_def using ws1 ws2 ws3 name nm
    by (intro exI [of _ c] exI [of _ "if closing then ws1 else ws1 @ ws2"] exI [of _ ws2]
        exI [of _ "take (length name) r3"] exI [of _ ws3]) (auto simp: all_ws_def)
  moreover have "n = length tag" using n post_eq split by (simp add: tag_def)
  ultimately show ?thesis by (intro exI [of _ post]) (simp add: split)
qed

text \<open>Conversely the matcher accepts every text of the grammar, whatever follows it.\<close>

lemma name_head:
  assumes "name \<in> set TAG_NAMES" "lower nm = lit name"
  obtains c r where "nm = c # r" "\<not> is_ascii_whitespace c" "c \<noteq> SLASH"
proof -
  from assms(2) assms(1) obtain c r where nm: "nm = c # r" "to_ascii_lowercase c = 116"
    by (cases nm) (auto simp: TAG_NAMES_def)
  then have "\<not> is_ascii_whitespace c" "c \<noteq> SLASH"
    by (auto simp: to_ascii_lowercase_def is_ascii_whitespace_def SLASH_def split: if_splits)
  with nm that show ?thesis by blast
qed

lemma find_name:
  assumes "name \<in> set TAG_NAMES" "lower nm = lit name"
  shows "find (\<lambda>n. eq_ignore_ascii_case (take (length n) (nm @ r)) (lit n)) TAG_NAMES = Some name"
proof -
  have len: "length nm = length name" using assms(2) by (rule name_len)
  from assms(1) consider "name = ''tool_call''" | "name = ''tool_result''" by (auto simp: TAG_NAMES_def)
  then show ?thesis
  proof cases
    case 1
    with assms(2) len show ?thesis by (simp add: TAG_NAMES_def eq_ignore_ascii_case_def to_ascii_lowercase_def)
  next
    case 2
    have "take (length ''tool_call'') (lower nm) = take (length ''tool_call'') (lit ''tool_result'')"
      using assms(2) 2 by simp
    then have "lower (take (length ''tool_call'') nm) \<noteq> lit ''tool_call''" by (simp add: take_map)
    with 2 assms(2) len show ?thesis
      by (simp add: TAG_NAMES_def eq_ignore_ascii_case_def to_ascii_lowercase_def)
  qed
qed

lemma match_rest_eval:
  assumes "after_ws s0 = r1" "starts_with SLASH r1 = closing"
    "after_ws (if closing then tl r1 else r1) = r3"
    "find (\<lambda>n. eq_ignore_ascii_case (take (length n) r3) (lit n)) TAG_NAMES = Some name"
    "after_ws (drop (length name) r3) = GT # post" "length post \<le> length s0"
  shows "match_rest (c # s0) = Some (name, closing, length (c # s0) - length post)"
  using assms by (auto simp: match_rest_def Let_def starts_with_def [of GT] Suc_diff_le)

lemma tag_match_rest:
  assumes "tag_text name closing tag"
  shows "match_rest (tag @ post) = Some (name, closing, length tag)"
proof -
  from assms obtain c ws1 ws2 nm ws3 where
    tag: "tag = c # ws1 @ (if closing then SLASH # ws2 else []) @ nm @ ws3 @ [GT]"
    and ws: "all_ws ws1" "all_ws ws2" "all_ws ws3" and name: "name \<in> set TAG_NAMES" "lower nm = lit name"
    unfolding tag_text_def by blast
  obtain h t where nm: "nm = h # t" "\<not> is_ascii_whitespace h" "h \<noteq> SLASH" using name_head [OF name] .
  have sl: "\<not> is_ascii_whitespace SLASH" "\<not> is_ascii_whitespace GT"
    by (simp_all add: is_ascii_whitespace_def SLASH_def GT_def)
  let ?tail = "nm @ ws3 @ GT # post"
  have r1: "after_ws (ws1 @ (if closing then SLASH # ws2 else []) @ ?tail) =
      (if closing then SLASH # ws2 else []) @ ?tail"
    using ws(1) nm sl by (cases closing) (simp_all add: skip_ws_app)
  have st: "starts_with SLASH ((if closing then SLASH # ws2 else []) @ ?tail) = closing"
    using nm by (simp add: starts_with_def)
  have r3: "after_ws r = ?tail" if "r = ws2 @ ?tail \<or> r = ?tail" for r
    using that ws(2) nm skip_ws_app [of ws2 h] skip_ws_app [of "[]" h] by (auto simp: all_ws_def)
  have r5: "after_ws (ws3 @ GT # post) = GT # post"
    using ws(3) sl by (simp add: skip_ws_app)
  have r4: "drop (length name) ?tail = ws3 @ GT # post" using name_len [OF name(2)] by simp
  have "match_rest (c # ws1 @ (if closing then SLASH # ws2 else []) @ ?tail) =
      Some (name, closing, length (c # ws1 @ (if closing then SLASH # ws2 else []) @ ?tail) - length post)"
  proof (rule match_rest_eval [OF r1 st r3 find_name [OF name]])
    show "after_ws (drop (length name) ?tail) = GT # post" by (simp only: r4 r5)
  qed simp_all
  then show ?thesis by (simp add: tag)
qed

section \<open>Scanning\<close>

text \<open>A tag of the given direction starts at a position.\<close>

definition tag_at :: "ustr \<Rightarrow> nat \<Rightarrow> (string \<times> bool \<times> nat) option" where
  "tag_at t k = (if k < length t \<and> t ! k = LT then match_rest (drop k t) else None)"

lemma match_rest_bounds:
  assumes "match_rest rest = Some (name, closing, n)"
  shows "0 < n \<and> n \<le> length rest \<and> name \<in> set TAG_NAMES"
proof -
  from match_rest_tag [OF assms] obtain post where "tag_text name closing (take n rest)"
    "rest = take n rest @ post" "n = length rest - length post" by blast
  then show ?thesis by (auto simp: tag_text_def)
qed

lemma find_next_Some:
  "find_next_tag t i = Some m \<Longrightarrow>
     i \<le> tm_start m \<and> tm_start m < tm_end m \<and> tm_end m \<le> length t \<and>
     tag_at t (tm_start m) = Some (tm_name m, tm_closing m, tm_end m - tm_start m) \<and>
     (\<forall>k. i \<le> k \<and> k < tm_start m \<longrightarrow> tag_at t k = None)"
proof (induction t i rule: find_next_tag.induct)
  case (1 t i)
  from 1(3) have i: "i < length t" by (subst (asm) find_next_tag.simps) (simp split: if_splits)
  show ?case
  proof (cases "t ! i = LT \<and> match_rest (drop i t) \<noteq> None")
    case True
    then obtain name closing n where mr: "match_rest (drop i t) = Some (name, closing, n)" by auto
    with 1(3) i True have "m = \<lparr>tm_name = name, tm_closing = closing, tm_start = i, tm_end = i + n\<rparr>"
      by (subst (asm) find_next_tag.simps) (simp add: try_match_tag_at_def)
    with mr match_rest_bounds [OF mr] i True show ?thesis by (auto simp: tag_at_def)
  next
    case False
    then have here: "tag_at t i = None" unfolding tag_at_def by metis
    have "t ! i = LT \<Longrightarrow> try_match_tag_at t i = None" using False by (auto simp: try_match_tag_at_def simp del: not_None_eq)
    with 1(3) i have rec: "find_next_tag t (i + 1) = Some m"
      by (subst (asm) find_next_tag.simps) (auto split: if_splits)
    have "i + 1 \<le> tm_start m \<and> tm_start m < tm_end m \<and> tm_end m \<le> length t \<and>
        tag_at t (tm_start m) = Some (tm_name m, tm_closing m, tm_end m - tm_start m) \<and>
        (\<forall>k. i + 1 \<le> k \<and> k < tm_start m \<longrightarrow> tag_at t k = None)"
    proof (cases "t ! i = LT")
      case True
      with False have "try_match_tag_at t i = None" by (auto simp: try_match_tag_at_def simp del: not_None_eq)
      with 1(2) [OF i] True rec show ?thesis by simp
    next
      case False
      with 1(1) [OF i] rec show ?thesis by simp
    qed
    moreover have "k = i \<or> i + 1 \<le> k" if "i \<le> k" for k using that by linarith
    ultimately show ?thesis using here by (metis Suc_eq_plus1 Suc_leD)
  qed
qed

lemma find_next_None:
  "find_next_tag t i = None \<Longrightarrow> i \<le> k \<Longrightarrow> tag_at t k = None"
proof (induction t i rule: find_next_tag.induct)
  case (1 t i)
  show ?case
  proof (cases "i < length t")
    case True
    from 1(3) True have "t ! i = LT \<Longrightarrow> try_match_tag_at t i = None"
      and rec: "find_next_tag t (i + 1) = None"
      by (subst (asm) find_next_tag.simps, auto split: if_splits option.splits)+
    moreover have "k = i \<or> i + 1 \<le> k" using 1(4) by linarith
    ultimately show ?thesis using 1(1,2) [OF True] True
      by (cases "t ! i = LT") (auto simp: tag_at_def try_match_tag_at_def)
  qed (use 1(4) in \<open>auto simp: tag_at_def\<close>)
qed

lemmas find_next_bounds = find_next_Some [THEN conjunct1] find_next_Some [THEN conjunct2, THEN conjunct1]
  find_next_Some [THEN conjunct2, THEN conjunct2, THEN conjunct1]

lemma no_tag_iff: "find_next_tag t i = None \<longleftrightarrow> (\<forall>k\<ge>i. tag_at t k = None)"
  using find_next_None find_next_Some [of t i] by (metis option.exhaust option.distinct(1))

text \<open>Tags of the grammar are exactly what the scan finds.\<close>

lemma tag_at_grammar:
  "tag_at t k = Some (name, closing, n) \<longleftrightarrow>
     (\<exists>pre tag post. t = pre @ tag @ post \<and> length pre = k \<and> length tag = n \<and>
        hd tag = LT \<and> tag_text name closing tag)"
proof
  assume l: "tag_at t k = Some (name, closing, n)"
  then have k: "k < length t" "t ! k = LT" and m: "match_rest (drop k t) = Some (name, closing, n)"
    by (auto simp: tag_at_def split: if_splits)
  let ?tag = "take n (drop k t)"
  from match_rest_tag [OF m] match_rest_bounds [OF m] have "tag_text name closing ?tag" "0 < n" "n \<le> length (drop k t)"
    by auto
  moreover have "hd ?tag = LT" using k \<open>0 < n\<close> by (simp add: hd_drop_conv_nth)
  moreover have "t = take k t @ ?tag @ drop n (drop k t)"
    by (metis append_take_drop_id)
  ultimately show "\<exists>pre tag post. t = pre @ tag @ post \<and> length pre = k \<and> length tag = n \<and>
      hd tag = LT \<and> tag_text name closing tag"
    using k by (intro exI [of _ "take k t"] exI [of _ ?tag] exI [of _ "drop n (drop k t)"]) simp
next
  assume "\<exists>pre tag post. t = pre @ tag @ post \<and> length pre = k \<and> length tag = n \<and>
      hd tag = LT \<and> tag_text name closing tag"
  then obtain pre tag post where "t = pre @ tag @ post" "length pre = k" "length tag = n" "hd tag = LT"
    "tag_text name closing tag" by blast
  moreover from this have "tag \<noteq> []" by (auto simp: tag_text_def)
  ultimately show "tag_at t k = Some (name, closing, n)"
    using tag_match_rest [of name closing tag post]
    by (auto simp: tag_at_def nth_append hd_conv_nth)
qed

section \<open>Parsing and stripping in the agent core\<close>

lemma find_next_advances:
  "find_next_tag t c = Some m \<Longrightarrow> length t - tm_end m < length t - c"
  using find_next_bounds [of t c m] by linarith

function find_next_open_tag :: "ustr \<Rightarrow> nat \<Rightarrow> string \<Rightarrow> TagMatch option" where
  "find_next_open_tag t cursor name =
     (case find_next_tag t cursor of
        None \<Rightarrow> None
      | Some m \<Rightarrow> if \<not> tm_closing m \<and> tm_name m = name then Some m else find_next_open_tag t (tm_end m) name)"
  by pat_completeness auto
termination by (relation "measure (\<lambda>(t, c, n). length t - c)") (auto intro: find_next_advances)

function find_next_close_tag :: "ustr \<Rightarrow> nat \<Rightarrow> string \<Rightarrow> TagMatch option" where
  "find_next_close_tag t cursor name =
     (case find_next_tag t cursor of
        None \<Rightarrow> None
      | Some m \<Rightarrow> if tm_closing m \<and> tm_name m = name then Some m else find_next_close_tag t (tm_end m) name)"
  by pat_completeness auto
termination by (relation "measure (\<lambda>(t, c, n). length t - c)") (auto intro: find_next_advances)

declare find_next_open_tag.simps [simp del] find_next_close_tag.simps [simp del]

lemma close_tag_bounds:
  "find_next_close_tag t c name = Some m \<Longrightarrow> c < tm_end m \<and> tm_end m \<le> length t"
proof (induction t c name rule: find_next_close_tag.induct)
  case (1 t c name)
  from 1(2) obtain m0 where m0: "find_next_tag t c = Some m0"
    by (subst (asm) find_next_close_tag.simps) (auto split: option.splits)
  note b = find_next_bounds [OF m0]
  show ?case
  proof (cases "tm_closing m0 \<and> tm_name m0 = name")
    case True
    with 1(2) m0 have "m = m0" by (subst (asm) find_next_close_tag.simps) simp
    with b show ?thesis by simp
  next
    case False
    with 1(2) m0 have "find_next_close_tag t (tm_end m0) name = Some m"
      by (subst (asm) find_next_close_tag.simps) (simp split: if_splits)
    from 1(1) [OF m0 False this] b show ?thesis by simp
  qed
qed

definition text_slice :: "nat \<Rightarrow> nat \<Rightarrow> 'a list \<Rightarrow> 'a list" where
  "text_slice a b xs = take (b - a) (drop a xs)"

text \<open>
  \<open>from_str\<close>, \<open>as_tool\<close> and \<open>args_of\<close> are the JSON parser, the string under the key \<open>tool\<close> and the
  value under \<open>args\<close>; \<open>empty_obj\<close> is the default arguments object.
\<close>

definition parse_tool_call ::
  "(ustr \<Rightarrow> 'j option) \<Rightarrow> ('j \<Rightarrow> ustr option) \<Rightarrow> ('j \<Rightarrow> 'j option) \<Rightarrow> 'j \<Rightarrow> ustr \<Rightarrow> (ustr \<times> 'j) option" where
  "parse_tool_call from_str as_tool args_of empty_obj response =
     do {
       open \<leftarrow> find_next_open_tag response 0 ''tool_call'';
       close \<leftarrow> find_next_close_tag response (tm_end open) ''tool_call'';
       parsed \<leftarrow> from_str (trim (text_slice (tm_end open) (tm_start close) response));
       tool \<leftarrow> as_tool parsed;
       Some (tool, case args_of parsed of Some a \<Rightarrow> a | None \<Rightarrow> empty_obj)
     }"

function strip_markup_loop :: "ustr \<Rightarrow> nat \<Rightarrow> ustr" where
  "strip_markup_loop t cursor =
     (case find_next_tag t cursor of
        None \<Rightarrow> drop cursor t
      | Some tag \<Rightarrow>
          text_slice cursor (tm_start tag) t @
          (if tm_closing tag then strip_markup_loop t (tm_end tag)
           else case find_next_close_tag t (tm_end tag) (tm_name tag) of
                  Some close \<Rightarrow> strip_markup_loop t (tm_end close)
                | None \<Rightarrow> []))"
  by pat_completeness auto
termination
proof (relation "measure (\<lambda>(t, c). length t - c)")
  fix t :: ustr and c m m'
  assume "find_next_tag t c = Some m" "find_next_close_tag t (tm_end m) (tm_name m) = Some m'"
  then show "((t, tm_end m'), t, c) \<in> measure (\<lambda>(t, c). length t - c)"
    using find_next_bounds [of t c m] close_tag_bounds [of t "tm_end m" "tm_name m" m'] by auto
qed (auto intro: find_next_advances)

declare strip_markup_loop.simps [simp del]

definition strip_tool_markup :: "ustr \<Rightarrow> ustr" where
  "strip_tool_markup t = trim (strip_markup_loop t 0)"

text \<open>The inner loop of \<open>strip_tool_tags\<close>, one pass over the text.\<close>

function strip_pass :: "ustr \<Rightarrow> nat \<Rightarrow> ustr" where
  "strip_pass out cursor =
     (case find_next_tag out cursor of
        None \<Rightarrow> drop cursor out
      | Some m \<Rightarrow> text_slice cursor (tm_start m) out @ strip_pass out (tm_end m))"
  by pat_completeness auto
termination by (relation "measure (\<lambda>(t, c). length t - c)") (auto intro: find_next_advances)

declare strip_pass.simps [simp del]

lemma strip_pass_length:
  "c \<le> length out \<Longrightarrow> length (strip_pass out c) \<le> length out - c \<and>
     (find_next_tag out c \<noteq> None \<longrightarrow> length (strip_pass out c) < length out - c)"
proof (induction out c rule: strip_pass.induct)
  case (1 out c)
  show ?case
  proof (cases "find_next_tag out c")
    case None
    then show ?thesis by (simp add: strip_pass.simps)
  next
    case (Some m)
    note b = find_next_bounds [OF Some]
    from 1(1) [OF Some] b have "length (strip_pass out (tm_end m)) \<le> length out - tm_end m" by simp
    with Some b show ?thesis by (subst (1 2) strip_pass.simps) (auto simp: text_slice_def)
  qed
qed

function strip_tool_tags :: "ustr \<Rightarrow> ustr" where
  "strip_tool_tags out = (let next = strip_pass out 0 in if next = out then out else strip_tool_tags next)"
  by pat_completeness auto
termination
proof (relation "measure length")
  fix out nxt :: ustr
  assume "nxt = strip_pass out 0" "nxt \<noteq> out"
  then show "(nxt, out) \<in> measure length"
    using strip_pass_length [of 0 out] by (cases "find_next_tag out 0") (auto simp: strip_pass.simps)
qed simp

declare strip_tool_tags.simps [simp del]

definition MAX_TASK_CHARS :: nat where "MAX_TASK_CHARS = 4096"

definition sanitize_delegate_input :: "ustr \<Rightarrow> ustr" where
  "sanitize_delegate_input raw = take MAX_TASK_CHARS (strip_tool_tags raw)"

section \<open>What stripping leaves\<close>

definition tag_free :: "ustr \<Rightarrow> bool" where
  "tag_free t \<longleftrightarrow> find_next_tag t 0 = None"

lemma tag_free_grammar:
  "tag_free t \<longleftrightarrow> (\<nexists>pre tag post name closing. t = pre @ tag @ post \<and> hd tag = LT \<and> tag_text name closing tag)"
proof -
  have "tag_free t \<longleftrightarrow> (\<forall>k name closing n. tag_at t k \<noteq> Some (name, closing, n))"
    unfolding tag_free_def no_tag_iff by (metis le0 not_None_eq prod_cases3 option.distinct(1))
  then show ?thesis unfolding tag_at_grammar by blast
qed

lemma tag_free_factor: "tag_free (a @ t @ b) \<Longrightarrow> tag_free t"
  unfolding tag_free_grammar by (metis append.assoc)

lemma tag_free_take: "tag_free t \<Longrightarrow> tag_free (take n t)"
  using tag_free_factor [of "[]" "take n t" "drop n t"] by simp

lemma strip_pass_free: "tag_free t \<Longrightarrow> strip_pass t 0 = t"
  by (simp add: tag_free_def strip_pass.simps)

lemma strip_tool_tags_free: "tag_free (strip_tool_tags t)"
proof (induction t rule: strip_tool_tags.induct)
  case (1 out)
  show ?case
  proof (cases "strip_pass out 0 = out")
    case True
    then have "find_next_tag out 0 = None" using strip_pass_length [of 0 out] by fastforce
    with True show ?thesis by (simp add: strip_tool_tags.simps tag_free_def)
  next
    case False
    with 1 show ?thesis by (subst strip_tool_tags.simps) simp
  qed
qed

lemma strip_tool_tags_id: "tag_free t \<Longrightarrow> strip_tool_tags t = t"
  by (subst strip_tool_tags.simps) (simp add: strip_pass_free)

lemma slice_drop: "a \<le> b \<Longrightarrow> drop a xs = text_slice a b xs @ drop b xs"
  by (metis append_take_drop_id drop_drop le_add_diff_inverse2 text_slice_def)

lemma strip_pass_subseq: "subseq (strip_pass out c) (drop c out)"
proof (induction out c rule: strip_pass.induct)
  case (1 out c)
  show ?case
  proof (cases "find_next_tag out c")
    case None
    then show ?thesis by (simp add: strip_pass.simps)
  next
    case (Some m)
    note b = find_next_bounds [OF Some]
    have "drop c out = text_slice c (tm_start m) out @ text_slice (tm_start m) (tm_end m) out @ drop (tm_end m) out"
      using b by (simp flip: slice_drop)
    moreover have "subseq (strip_pass out (tm_end m)) (text_slice (tm_start m) (tm_end m) out @ drop (tm_end m) out)"
      using 1 [OF Some] by (simp add: subseq_drop_many)
    ultimately show ?thesis using Some by (subst strip_pass.simps) (simp add: list_emb_append_mono)
  qed
qed

lemma strip_tool_tags_subseq: "subseq (strip_tool_tags t) t"
proof (induction t rule: strip_tool_tags.induct)
  case (1 out)
  show ?case
  proof (cases "strip_pass out 0 = out")
    case False
    with 1 have "subseq (strip_tool_tags (strip_pass out 0)) (strip_pass out 0)" by simp
    then have "subseq (strip_tool_tags (strip_pass out 0)) out"
      using strip_pass_subseq [of out 0] by (simp add: subseq_order.trans)
    with False show ?thesis by (subst strip_tool_tags.simps) simp
  qed (simp add: strip_tool_tags.simps)
qed

lemma parse_tag_free: "tag_free t \<Longrightarrow> parse_tool_call fs at ao e t = None"
  by (simp add: parse_tool_call_def find_next_open_tag.simps tag_free_def)

section \<open>The hold-back of a streamed prefix\<close>

definition is_prefix_of_open_tag :: "ustr \<Rightarrow> bool" where
  "is_prefix_of_open_tag s =
     (case s of
        [] \<Rightarrow> False
      | c # rest \<Rightarrow>
          c = LT \<and>
          (let after = trim_start rest; l = lower after
           in after = [] \<or>
              list_ex (\<lambda>name. prefix l (lit name) \<or>
                (prefix (lit name) l \<and> list_all is_ascii_whitespace (drop (length name) l))) TAG_NAMES))"

text \<open>The loop of \<open>holdback_len\<close> from the longest suffix down.\<close>

primrec holdback_from :: "ustr \<Rightarrow> nat \<Rightarrow> nat" where
  "holdback_from buffer 0 = 0"
| "holdback_from buffer (Suc k) =
     (if is_prefix_of_open_tag (drop (length buffer - Suc k) buffer) then Suc k else holdback_from buffer k)"

definition holdback_len :: "ustr \<Rightarrow> nat" where
  "holdback_len buffer = holdback_from buffer (length buffer)"

lemma holdback_from_max:
  "k \<le> n \<Longrightarrow> 0 < k \<Longrightarrow> is_prefix_of_open_tag (drop (length buffer - k) buffer) \<Longrightarrow> k \<le> holdback_from buffer n"
  by (induction n) (auto simp: le_Suc_eq)

lemma holdback_le: "holdback_len b \<le> length b"
proof -
  have "holdback_from b n \<le> n" for n by (induction n) auto
  then show ?thesis by (simp add: holdback_len_def)
qed

lemma ascii_ws_unicode: "is_ascii_whitespace c \<Longrightarrow> is_whitespace c"
  by (auto simp: is_ascii_whitespace_def is_whitespace_def)

lemma trim_start_ws: "all_ws ws \<Longrightarrow> trim_start (ws @ r) = trim_start r"
  by (auto simp: trim_start_def all_ws_def list_all_iff ascii_ws_unicode)

lemma lower_ws: "all_ws ws \<Longrightarrow> list_all is_ascii_whitespace (lower ws)"
  by (auto simp: all_ws_def list_all_iff is_ascii_whitespace_def to_ascii_lowercase_def)

lemma name_head_trim:
  assumes "name \<in> set TAG_NAMES" "lower nm = lit name" "prefix p nm" "p \<noteq> []"
  shows "trim_start (p @ r) = p @ r"
proof -
  obtain h q where p: "p = h # q" using assms(4) by (cases p) auto
  with assms have "to_ascii_lowercase h = 116"
    by (auto simp: TAG_NAMES_def prefix_def)
  then have "\<not> is_whitespace h"
    by (auto simp: to_ascii_lowercase_def is_whitespace_def split: if_splits)
  then show ?thesis by (simp add: trim_start_def p)
qed

text \<open>A non-empty proper prefix of an opening tag is recognised as one.\<close>

lemma open_tag_prefix:
  assumes "tag_text name False (p @ q)" "p \<noteq> []" "q \<noteq> []" "hd p = LT"
  shows "is_prefix_of_open_tag p"
proof -
  from assms(1) obtain c ws1 nm ws3 where pq: "p @ q = c # ws1 @ nm @ ws3 @ [GT]"
    and ws: "all_ws ws1" "all_ws ws3" and name: "name \<in> set TAG_NAMES" "lower nm = lit name"
    by (auto simp: tag_text_def)
  from assms(2) pq assms(4) obtain p' where p: "p = LT # p'" and p': "p' @ q = ws1 @ nm @ ws3 @ [GT]"
    by (cases p) auto
  from p' assms(3) have "prefix p' (ws1 @ nm @ ws3)"
    by (metis append.assoc append_butlast_last_id butlast_append prefixI butlast_snoc)
  then consider "prefix p' ws1" | a where "p' = ws1 @ a" "prefix a nm" "a \<noteq> []"
    | b where "p' = ws1 @ nm @ b" "prefix b ws3"
    unfolding prefix_append by (metis append_Nil2 prefix_order.refl)
  then show ?thesis
  proof cases
    case 1
    then have "trim_start p' = []"
      using ws(1) trim_start_ws [of p' "[]"] by (auto simp: prefix_def all_ws_def trim_start_def)
    then show ?thesis by (simp add: is_prefix_of_open_tag_def p)
  next
    case 2
    then have "trim_start p' = a" using ws(1) name name_head_trim [of name nm a "[]"] by (simp add: trim_start_ws)
    moreover have "prefix (lower a) (lit name)" using 2(2) name(2) by (metis map_mono_prefix)
    ultimately show ?thesis using name(1) by (auto simp: is_prefix_of_open_tag_def p list_ex_iff Let_def)
  next
    case 3
    have "nm \<noteq> []" using name by (auto simp: TAG_NAMES_def)
    with 3 have "trim_start p' = nm @ b" using ws(1) name name_head_trim [of name nm nm b] by (simp add: trim_start_ws)
    moreover have "list_all is_ascii_whitespace (lower b)"
      using 3(2) ws(2) lower_ws by (auto simp: prefix_def all_ws_def)
    ultimately show ?thesis using name
      by (auto simp: is_prefix_of_open_tag_def p list_ex_iff Let_def intro!: bexI [of _ name])
  qed
qed

lemma holdback_covers_tag:
  assumes "tag_text name False (p @ q)" "p \<noteq> []" "q \<noteq> []" "hd p = LT"
  shows "length p \<le> holdback_len (pre @ p)"
  unfolding holdback_len_def
  by (rule holdback_from_max) (use assms open_tag_prefix [OF assms] in auto)

section \<open>Properties\<close>

text \<open>
  Property C6: a tool result or a delegated task cannot smuggle a tool call. Whatever the untrusted
  text, what \<open>strip_tool_tags\<close> (and \<open>sanitize_delegate_input\<close>, which also truncates it) returns contains
  no text of the tag grammar, opening or closing, in any case or spacing, not even one reassembled
  from the remains of removed tags; no tool call can be parsed out of it. The result is a subsequence
  of the input, and text without tags is not changed.
\<close>

theorem untrusted_text_neutralised:
  "\<not> (\<exists>pre tag post name closing. strip_tool_tags t = pre @ tag @ post \<and> hd tag = LT \<and>
         tag_text name closing tag) \<and>
   parse_tool_call from_str as_tool args_of e (strip_tool_tags t) = None \<and>
   parse_tool_call from_str as_tool args_of e (sanitize_delegate_input t) = None \<and>
   subseq (strip_tool_tags t) t \<and>
   (strip_tool_tags t = t \<longleftrightarrow>
      \<not> (\<exists>pre tag post name closing. t = pre @ tag @ post \<and> hd tag = LT \<and> tag_text name closing tag))"
proof -
  have "strip_tool_tags t = t \<longleftrightarrow> tag_free t"
    using strip_tool_tags_free [of t] strip_tool_tags_id [of t] by auto
  moreover have "tag_free (strip_tool_tags t)" "tag_free (sanitize_delegate_input t)"
    by (simp_all add: strip_tool_tags_free sanitize_delegate_input_def tag_free_take)
  ultimately show ?thesis
    unfolding tag_free_grammar [symmetric] by (simp add: parse_tag_free strip_tool_tags_subseq)
qed

text \<open>
  \<open>strip_tool_markup\<close>, which cleans the text shown to the user, makes a single pass: removing a block
  can join its surroundings into a new tag.
\<close>

lemma markup_reassembles:
  "strip_tool_markup (lit ''<tool_<tool_call></tool_call>call>'') = lit ''<tool_call>''"
  by (simp add: strip_tool_markup_def strip_markup_loop.simps find_next_close_tag.simps find_next_tag.simps
      try_match_tag_at_def match_rest_def Let_def after_ws_def skip_ws_def starts_with_def TAG_NAMES_def
      eq_ignore_ascii_case_def to_ascii_lowercase_def is_ascii_whitespace_def LT_def GT_def SLASH_def
      text_slice_def trim_def is_whitespace_def)

end
