(* ===== verification/TextStream.thy ===== *)
theory TextStream
  imports ToolTags
begin

text \<open>
  \<open>stream_llm_response\<close> of \<open>crates/haily-core/src/agent/stream.rs\<close>: the consumer of the model's token
  stream, which forwards text to the user while withholding tool calls. The state is the text received
  so far, the pending text and the flag \<open>in_tag\<close>; \<open>drain\<close> is the inner loop over the pending text. The
  result of a run is the full text or an error, and the texts sent to the user in order.
\<close>

section \<open>Model\<close>

datatype StreamChunk = Token ustr | Done nat "nat option" | StreamError string

definition split_safe :: "ustr \<Rightarrow> ustr \<times> ustr" where
  "split_safe buffer =
     (let hold_len = holdback_len buffer
      in (take (length buffer - hold_len) buffer, drop (length buffer - hold_len) buffer))"

record stream_state =
  st_full :: ustr
  st_pending :: ustr
  st_in_tag :: bool

text \<open>One \<open>tx.send\<close> of a text, skipped when the text is empty.\<close>

definition emit :: "ustr \<Rightarrow> ustr list" where
  "emit t = (if t = [] then [] else [t])"

function drain :: "ustr \<Rightarrow> bool \<Rightarrow> ustr \<times> bool \<times> ustr list" where
  "drain pending in_tag =
     (if in_tag then
        (case find_next_tag pending 0 of
           Some m \<Rightarrow> if tm_closing m then drain (drop (tm_end m) pending) False else (pending, True, [])
         | None \<Rightarrow> (pending, True, []))
      else
        (case find_next_tag pending 0 of
           Some m \<Rightarrow>
             if \<not> tm_closing m then
               (let (p, i, out) = drain (drop (tm_start m) pending) True
                in (p, i, emit (take (tm_start m) pending) @ out))
             else
               (let (p, i, out) = drain (drop (tm_end m) pending) False
                in (p, i, emit (take (tm_start m) pending) @ out))
         | None \<Rightarrow>
             (let (e, hold) = split_safe pending
              in if e = [] then (pending, False, []) else (hold, False, [e]))))"
  by pat_completeness auto
termination
proof (relation "measures [\<lambda>(p, i). length p, \<lambda>(p, i). if i then 0 else 1]")
qed (auto dest!: find_next_advances)

declare drain.simps [simp del]

definition on_token :: "stream_state \<Rightarrow> ustr \<Rightarrow> stream_state \<times> ustr list" where
  "on_token st piece =
     (let (p, i, out) = drain (st_pending st @ piece) (st_in_tag st)
      in (\<lparr>st_full = st_full st @ piece, st_pending = p, st_in_tag = i\<rparr>, out))"

text \<open>
  A stream is the chunks received, then the end of the channel; \<open>cancelled n\<close> says whether the
  cancellation has fired when the loop looks for the \<open>n\<close>th chunk.
\<close>

fun stream_loop :: "(nat \<Rightarrow> bool) \<Rightarrow> nat \<Rightarrow> stream_state \<Rightarrow> StreamChunk list
    \<Rightarrow> (string + ustr \<times> nat \<times> nat option) \<times> ustr list" where
  "stream_loop cancelled n st chunks =
     (if cancelled n then (Inl ''turn cancelled'', [])
      else case chunks of
             [] \<Rightarrow> (Inl ''LLM stream ended without a completion signal'', [])
           | Done total_tokens prompt_tokens # _ \<Rightarrow> (Inr (st_full st, total_tokens, prompt_tokens), [])
           | StreamError msg # _ \<Rightarrow> (Inl msg, [])
           | Token piece # rest \<Rightarrow>
               (let (st', out) = on_token st piece;
                    (r, out') = stream_loop cancelled (Suc n) st' rest
                in (r, out @ out')))"

lemma stream_loop_rules:
  "cancelled n \<Longrightarrow> stream_loop cancelled n st cs = (Inl ''turn cancelled'', [])"
  "\<not> cancelled n \<Longrightarrow> stream_loop cancelled n st (Token piece # rest) =
     (fst (stream_loop cancelled (Suc n) (fst (on_token st piece)) rest),
      snd (on_token st piece) @ snd (stream_loop cancelled (Suc n) (fst (on_token st piece)) rest))"
  "(\<forall>piece rest. cs \<noteq> Token piece # rest) \<Longrightarrow> snd (stream_loop cancelled n st cs) = []"
  by (auto simp: case_prod_beta split: list.splits StreamChunk.splits)

declare stream_loop.simps [simp del]

definition stream_llm_response :: "(nat \<Rightarrow> bool) \<Rightarrow> StreamChunk list
    \<Rightarrow> (string + ustr \<times> nat \<times> nat option) \<times> ustr list" where
  "stream_llm_response cancelled chunks =
     stream_loop cancelled 0 \<lparr>st_full = [], st_pending = [], st_in_tag = False\<rparr> chunks"

section \<open>Tags in growing text\<close>

definition open_at :: "ustr \<Rightarrow> nat \<Rightarrow> bool" where
  "open_at t p \<longleftrightarrow> (\<exists>name n. tag_at t p = Some (name, False, n))"

lemma tag_at_append: "tag_at t p = Some r \<Longrightarrow> tag_at (t @ f) p = Some r"
  by (cases r) (metis append.assoc tag_at_grammar)

lemma tag_at_drop: "tag_at (drop e t) p = tag_at t (e + p)"
  by (simp add: tag_at_def add.commute) (metis add.commute less_diff_conv)

lemma tag_text_tail: "tag_text name closing (c # r) \<Longrightarrow> LT \<notin> set r"
proof -
  assume "tag_text name closing (c # r)"
  then obtain ws1 ws2 nm ws3 where r: "r = ws1 @ (if closing then SLASH # ws2 else []) @ nm @ ws3 @ [GT]"
    and ws: "all_ws ws1" "all_ws ws2" "all_ws ws3" and name: "name \<in> set TAG_NAMES" "lower nm = lit name"
    by (auto simp: tag_text_def)
  have "LT \<notin> set ws" if "all_ws ws" for ws
    using that by (auto simp: all_ws_def list_all_iff is_ascii_whitespace_def LT_def)
  moreover have "LT \<notin> set nm"
  proof
    assume "LT \<in> set nm"
    then have "LT \<in> set (lower nm)" by (force simp: to_ascii_lowercase_def LT_def)
    with name show False by (auto simp: TAG_NAMES_def LT_def)
  qed
  ultimately show ?thesis using ws by (auto simp: r SLASH_def GT_def LT_def)
qed

lemma tags_disjoint:
  assumes "tag_at t k = Some (name, closing, n)" "k < k'" "tag_at t k' \<noteq> None"
  shows "k + n \<le> k'"
proof (rule ccontr)
  assume "\<not> k + n \<le> k'"
  from assms(1) obtain pre tag post where t: "t = pre @ tag @ post" "length pre = k" "length tag = n"
    and tag: "tag_text name closing tag" by (auto simp: tag_at_grammar)
  obtain c r where "tag = c # r" using tag by (auto simp: tag_text_def)
  with t assms(2) \<open>\<not> k + n \<le> k'\<close> have "t ! k' \<in> set r"
    by (auto simp: nth_append nth_Cons' in_set_conv_nth intro!: exI [of _ "k' - k - 1"])
  moreover have "t ! k' = LT" using assms(3) by (auto simp: tag_at_def split: if_splits)
  ultimately show False using tag_text_tail tag \<open>tag = c # r\<close> by auto
qed

lemma tag_at_complete:
  assumes "tag_at (t @ f) p = Some (name, closing, n)" "p + n \<le> length t"
  shows "tag_at t p = Some (name, closing, n)"
proof -
  from assms obtain pre tag post where g: "t @ f = pre @ tag @ post" "length pre = p" "length tag = n"
    "hd tag = LT" "tag_text name closing tag" by (auto simp: tag_at_grammar)
  then have "t = pre @ tag @ take (length t - (p + n)) post"
    using assms(2) by (auto simp: append_eq_append_conv2 append_eq_append_conv_if) 
  with g show ?thesis unfolding tag_at_grammar by blast
qed

text \<open>
  Everything before position \<open>e\<close> is settled: however the text continues, no opening tag starts there.
\<close>

definition settled :: "ustr \<Rightarrow> nat \<Rightarrow> bool" where
  "settled t e \<longleftrightarrow> e \<le> length t \<and> (\<forall>f p. open_at (t @ f) p \<longrightarrow> e \<le> p)"

lemma settled_append: "settled t e \<Longrightarrow> settled (t @ f) e"
  by (auto simp: settled_def)

text \<open>Up to the first tag of the pending text nothing can open.\<close>

lemma settled_before:
  assumes "settled t e" "find_next_tag (drop e t) 0 = Some m"
  shows "settled t (e + tm_start m)"
proof -
  note fn = find_next_Some [OF assms(2)]
  have here: "tag_at t (e + tm_start m) \<noteq> None" using fn by (simp add: tag_at_drop [symmetric])
  have "e + tm_start m \<le> p" if o: "open_at (t @ f) p" for f p
  proof (rule ccontr)
    assume lt: "\<not> e + tm_start m \<le> p"
    from o obtain name n where tp: "tag_at (t @ f) p = Some (name, False, n)" by (auto simp: open_at_def)
    from here have "tag_at (t @ f) (e + tm_start m) \<noteq> None" using tag_at_append by fastforce
    from tags_disjoint [OF tp _ this] lt have "p + n \<le> e + tm_start m" by simp
    moreover have "e + tm_start m \<le> length t" using fn assms(1) unfolding settled_def length_drop by linarith
    ultimately have "tag_at t p \<noteq> None" using tag_at_complete [OF tp] by simp
    moreover have "e \<le> p" using assms(1) o by (auto simp: settled_def)
    moreover have "tag_at (drop e t) (p - e) = None" using fn lt \<open>e \<le> p\<close> by simp
    ultimately show False by (simp add: tag_at_drop)
  qed
  then show ?thesis using fn assms(1) by (auto simp: settled_def)
qed

text \<open>A closing tag is skipped as a whole.\<close>

lemma settled_close:
  assumes "settled t e" "find_next_tag (drop e t) 0 = Some m" "tm_closing m"
  shows "settled t (e + tm_end m)"
proof -
  note fn = find_next_Some [OF assms(2)]
  have at: "tag_at t (e + tm_start m) = Some (tm_name m, True, tm_end m - tm_start m)"
    using fn assms(3) by (simp add: tag_at_drop [symmetric])
  have "e + tm_end m \<le> p" if o: "open_at (t @ f) p" for f p
  proof -
    have "e + tm_start m \<le> p" using settled_before [OF assms(1,2)] o by (auto simp: settled_def)
    moreover have "p \<noteq> e + tm_start m" using o tag_at_append [OF at] by (auto simp: open_at_def)
    ultimately have "e + tm_start m < p" by simp
    from tags_disjoint [OF tag_at_append [OF at] this] o fn show ?thesis by (auto simp: open_at_def)
  qed
  then show ?thesis using fn assms(1) by (auto simp: settled_def)
qed

text \<open>Without a tag in the pending text, only the held-back suffix can still become one.\<close>

lemma settled_holdback:
  assumes "settled t e" "find_next_tag (drop e t) 0 = None"
  shows "settled t (length t - holdback_len (drop e t))"
proof -
  have "length t - holdback_len (drop e t) \<le> p" if o: "open_at (t @ f) p" for f p
  proof (cases "p < length t")
    case True
    from o obtain name n where tp: "tag_at (t @ f) p = Some (name, False, n)" by (auto simp: open_at_def)
    have e: "e \<le> p" using assms(1) o by (auto simp: settled_def)
    have "tag_at t p = None" using find_next_None [OF assms(2), of "p - e"] e by (simp add: tag_at_drop)
    with tag_at_complete [OF tp] have long: "length t < p + n" by fastforce
    from tp obtain pre tag post where g: "t @ f = pre @ tag @ post" "length pre = p" "length tag = n"
      "hd tag = LT" "tag_text name False tag" by (auto simp: tag_at_grammar)
    define k where "k = length t - p"
    have k: "0 < k" "k < n" using True long by (auto simp: k_def)
    have dp: "drop p t = take k tag"
    proof -
      have "drop p t = take k (drop p (t @ f))" using True by (simp add: k_def)
      also have "\<dots> = take k tag" using g k by simp
      finally show ?thesis .
    qed
    have "drop e t = take (p - e) (drop e t) @ take k tag"
      using append_take_drop_id [of "p - e" "drop e t"] e dp by simp
    moreover have "length (take k tag) \<le> holdback_len (take (p - e) (drop e t) @ take k tag)"
    proof (rule holdback_covers_tag)
      show "tag_text name False (take k tag @ drop k tag)" using g by simp
    qed (use k g in \<open>auto simp: hd_conv_nth\<close>)
    ultimately show ?thesis using k g by (simp add: k_def)
  qed (use holdback_le in simp)
  then show ?thesis by (simp add: settled_def)
qed

section \<open>Draining\<close>

lemma concat_emit [simp]: "concat (emit t) = t"
  by (simp add: emit_def)

definition drained :: "ustr \<Rightarrow> nat \<Rightarrow> ustr \<times> bool \<times> ustr list \<Rightarrow> bool" where
  "drained t e r \<longleftrightarrow>
     (\<exists>e'. e \<le> e' \<and> settled t e' \<and> fst r = drop e' t \<and>
        subseq (concat (snd (snd r))) (text_slice e e' t) \<and> (fst (snd r) \<longrightarrow> open_at (fst r) 0))"

lemma text_slice_split: "a \<le> b \<Longrightarrow> b \<le> c \<Longrightarrow> text_slice a c t = text_slice a b t @ text_slice b c t"
  using take_add [of "b - a" "c - b" "drop a t"] by (simp add: text_slice_def)

lemma subseq_slices:
  assumes "a \<le> b" "b \<le> c" "c \<le> d" "subseq y (text_slice c d t)"
  shows "subseq (text_slice a b t @ y) (text_slice a d t)"
proof -
  have "text_slice a d t = text_slice a b t @ text_slice b c t @ text_slice c d t"
    using assms(1-3) text_slice_split [of a b d t] text_slice_split [of b c d t] by simp
  then show ?thesis using assms(4) by (simp add: list_emb_append_mono subseq_drop_many)
qed

lemma drain_in_tag:
  assumes "open_at pending 0"
  shows "drain pending True = (pending, True, [])"
proof -
  from assms obtain name n where at: "tag_at pending 0 = Some (name, False, n)" by (auto simp: open_at_def)
  have "\<not> tm_closing m" if m: "find_next_tag pending 0 = Some m" for m
    using find_next_Some [OF m] at by (cases "tm_start m = 0") auto
  then show ?thesis by (auto simp: drain.simps split: option.splits)
qed

lemma drain_drained:
  assumes "settled t e" "in_tag \<longrightarrow> open_at (drop e t) 0"
  shows "drained t e (drain (drop e t) in_tag)"
  using assms
proof (induction "length (drop e t)" arbitrary: e in_tag rule: less_induct)
  case less
  show ?case
  proof (cases in_tag)
    case True
    with less.prems show ?thesis
      by (auto simp: drain_in_tag drained_def text_slice_def intro!: exI [of _ e])
  next
    case scanning: False
    show ?thesis
    proof (cases "find_next_tag (drop e t) 0")
      case None
      let ?h = "holdback_len (drop e t)"
      have h: "length t - ?h = e + (length (drop e t) - ?h)"
        using holdback_le [of "drop e t"] less.prems(1) by (auto simp: settled_def)
      have hold: "drained t e (drop (length t - ?h) t, False, [take (length (drop e t) - ?h) (drop e t)])"
        unfolding drained_def using settled_holdback [OF less.prems(1) None] h
        by (intro exI [of _ "length t - ?h"]) (simp add: text_slice_def)
      have "drained t e (drop e t, False, [])"
        unfolding drained_def using less.prems(1) by (intro exI [of _ e]) (simp add: text_slice_def)
      moreover have "drain (drop e t) False =
          (if take (length (drop e t) - ?h) (drop e t) = [] then (drop e t, False, [])
           else (drop (length t - ?h) t, False, [take (length (drop e t) - ?h) (drop e t)]))"
      proof -
        have "drop (length (drop e t) - ?h) (drop e t) = drop (length t - ?h) t"
          unfolding drop_drop h by (simp only: add.commute)
        with None show ?thesis
          by (subst drain.simps) (simp add: split_safe_def Let_def del: length_drop drop_drop take_eq_Nil)
      qed
      ultimately show ?thesis using hold scanning by (simp split: if_splits)
    next
      case (Some m)
      note fn = find_next_Some [OF Some]
      have le: "e + tm_end m \<le> length t" using fn less.prems(1) unfolding settled_def length_drop by linarith
      have pre: "take (tm_start m) (drop e t) = text_slice e (e + tm_start m) t" by (simp add: text_slice_def)
      show ?thesis
      proof (cases "tm_closing m")
        case True
        have "drained t (e + tm_end m) (drain (drop (e + tm_end m) t) False)"
          using settled_close [OF less.prems(1) Some True] fn le by (intro less.hyps) auto
        then obtain e' where e': "e + tm_end m \<le> e'" "settled t e'" "fst (drain (drop (e + tm_end m) t) False) = drop e' t"
          "subseq (concat (snd (snd (drain (drop (e + tm_end m) t) False)))) (text_slice (e + tm_end m) e' t)"
          "fst (snd (drain (drop (e + tm_end m) t) False)) \<longrightarrow> open_at (fst (drain (drop (e + tm_end m) t) False)) 0"
          by (auto simp: drained_def)
        have "drain (drop e t) False = (case drain (drop (e + tm_end m) t) False of
            (p, i, out) \<Rightarrow> (p, i, emit (text_slice e (e + tm_start m) t) @ out))"
          using Some True by (subst drain.simps) (simp add: pre add.commute)
        moreover have "subseq (text_slice e (e + tm_start m) t @ concat (snd (snd (drain (drop (e + tm_end m) t) False))))
            (text_slice e e' t)"
          using subseq_slices [OF _ _ e'(1,4), of e "e + tm_start m"] fn by simp
        ultimately show ?thesis using e' scanning
          unfolding drained_def by (intro exI [of _ e']) (simp add: case_prod_beta)
      next
        case False
        have op: "open_at (drop (e + tm_start m) t) 0"
          using fn False by (auto simp: open_at_def tag_at_drop)
        have "drain (drop e t) False = (drop (e + tm_start m) t, True, emit (text_slice e (e + tm_start m) t))"
          using Some False drain_in_tag [OF op] by (subst drain.simps) (simp add: pre add.commute)
        with settled_before [OF less.prems(1) Some] op scanning show ?thesis
          unfolding drained_def by (intro exI [of _ "e + tm_start m"]) simp
      qed
    qed
  qed
qed

section \<open>Whole streams\<close>

text \<open>The text of the tokens before the first \<open>Done\<close> or error.\<close>

fun pieces :: "StreamChunk list \<Rightarrow> ustr" where
  "pieces (Token piece # rest) = piece @ pieces rest"
| "pieces _ = []"

definition stream_ok :: "nat \<Rightarrow> stream_state \<Rightarrow> bool" where
  "stream_ok e st \<longleftrightarrow> settled (st_full st) e \<and> st_pending st = drop e (st_full st) \<and>
     (st_in_tag st \<longrightarrow> open_at (st_pending st) 0)"

lemma open_at_append: "open_at t p \<Longrightarrow> open_at (t @ f) p"
  unfolding open_at_def using tag_at_append by blast

lemma on_token_ok:
  assumes "stream_ok e st" "on_token st piece = (st', out)"
  shows "\<exists>e'. e \<le> e' \<and> stream_ok e' st' \<and> st_full st' = st_full st @ piece \<and>
           subseq (concat out) (text_slice e e' (st_full st @ piece))"
proof -
  let ?t = "st_full st @ piece"
  have p: "st_pending st @ piece = drop e ?t" using assms(1) by (auto simp: stream_ok_def settled_def)
  have "drained ?t e (drain (drop e ?t) (st_in_tag st))"
    using assms(1) by (intro drain_drained) (auto simp: stream_ok_def settled_append p [symmetric] open_at_append)
  with assms(2) p show ?thesis by (auto simp: drained_def on_token_def Let_def stream_ok_def case_prod_beta)
qed

lemma stream_loop_ok:
  "stream_ok e st \<Longrightarrow>
   \<exists>e'. e \<le> e' \<and> settled (st_full st @ pieces chunks) e' \<and>
      subseq (concat (snd (stream_loop cancelled n st chunks))) (text_slice e e' (st_full st @ pieces chunks))"
proof (induction chunks arbitrary: e st n)
  case Nil
  then show ?case by (intro exI [of _ e]) (auto simp: stream_ok_def stream_loop_rules(3))
next
  case (Cons c cs)
  have stop: ?case if "concat (snd (stream_loop cancelled n st (c # cs))) = []"
    unfolding that using Cons.prems by (intro exI [of _ e]) (auto simp: stream_ok_def settled_append)
  show ?case
  proof (cases "cancelled n \<or> (\<forall>piece. c \<noteq> Token piece)")
    case True
    then show ?thesis by (intro stop) (auto simp: stream_loop_rules)
  next
    case False
    then obtain piece where c: "c = Token piece" and nc: "\<not> cancelled n" by auto
    obtain st' out where tok: "on_token st piece = (st', out)" by (cases "on_token st piece") auto
    from on_token_ok [OF Cons.prems tok] obtain e1 where e1: "e \<le> e1" "stream_ok e1 st'"
      "st_full st' = st_full st @ piece" "subseq (concat out) (text_slice e e1 (st_full st @ piece))" by auto
    from Cons.IH [OF e1(2), of "Suc n"] obtain e2 where e2: "e1 \<le> e2"
      "settled (st_full st @ piece @ pieces cs) e2"
      "subseq (concat (snd (stream_loop cancelled (Suc n) st' cs))) (text_slice e1 e2 (st_full st @ piece @ pieces cs))"
      by (auto simp: e1(3))
    have "e1 \<le> length (st_full st @ piece)" using e1(2,3) by (auto simp: stream_ok_def settled_def)
    then have "text_slice e e1 (st_full st @ piece @ pieces cs) = text_slice e e1 (st_full st @ piece)"
      by (simp add: text_slice_def)
    with e1 e2 show ?thesis using nc tok
      by (intro exI [of _ e2]) (simp add: c stream_loop_rules(2) list_emb_append_mono text_slice_split [of e e1 e2])
  qed
qed

section \<open>Properties\<close>


definition example_stream :: "StreamChunk list" where
  "example_stream = [Token (lit ''hi <To''), Token (lit ''ol_call >{}''), Done 2 None]"


lemma holdback_is_prefix:
  "holdback_len b = 0 \<or> is_prefix_of_open_tag (drop (length b - holdback_len b) b)"
proof -
  have "holdback_from b n = 0 \<or> is_prefix_of_open_tag (drop (length b - holdback_from b n) b)" for n
    by (induction n) auto
  then show ?thesis by (simp add: holdback_len_def)
qed

lemma on_token_plain:
  assumes "tag_free (st_pending st @ piece)" "\<not> st_in_tag st"
  shows "\<not> st_in_tag (fst (on_token st piece)) \<and>
    st_pending st @ piece = concat (snd (on_token st piece)) @ st_pending (fst (on_token st piece)) \<and>
    (st_pending (fst (on_token st piece)) = [] \<or> is_prefix_of_open_tag (st_pending (fst (on_token st piece))))"
proof -
  define b where "b = st_pending st @ piece"
  define k where "k = length b - holdback_len b"
  have d: "drain b False = (if take k b = [] then (b, False, []) else (drop k b, False, [take k b]))"
    using assms(1) by (subst drain.simps)
      (simp add: tag_free_def split_safe_def Let_def b_def [symmetric] k_def [symmetric] del: take_eq_Nil)
  have "drop k b = [] \<or> is_prefix_of_open_tag (drop k b)"
    using holdback_is_prefix [of b] by (auto simp: k_def)
  moreover have "take k b = [] \<Longrightarrow> drop k b = b" by (metis append_Nil append_take_drop_id)
  ultimately show ?thesis
    using assms(2) by (auto simp: on_token_def b_def [symmetric] d simp del: take_eq_Nil drop_eq_Nil)
qed

lemma stream_loop_plain:
  assumes "tag_free (st_pending st @ pieces chunks)" "\<not> st_in_tag st" "\<And>n. \<not> cancelled n"
    and "st_pending st = [] \<or> is_prefix_of_open_tag (st_pending st)"
  shows "\<exists>hold. st_pending st @ pieces chunks = concat (snd (stream_loop cancelled n st chunks)) @ hold \<and>
           (hold = [] \<or> is_prefix_of_open_tag hold)"
  using assms(1,2,4)
proof (induction chunks arbitrary: st n)
  case Nil
  then show ?case by (auto simp: stream_loop_rules(3))
next
  case (Cons c cs)
  show ?case
  proof (cases c)
    case (Token piece)
    let ?st = "fst (on_token st piece)"
    have "tag_free (st_pending st @ piece)"
      using Cons.prems(1) tag_free_factor [of "[]" "st_pending st @ piece" "pieces cs"] by (simp add: Token)
    from on_token_plain [OF this Cons.prems(2)] have t: "\<not> st_in_tag ?st"
      "st_pending st @ piece = concat (snd (on_token st piece)) @ st_pending ?st"
      "st_pending ?st = [] \<or> is_prefix_of_open_tag (st_pending ?st)" by auto
    have all: "st_pending st @ pieces (c # cs) = concat (snd (on_token st piece)) @ st_pending ?st @ pieces cs"
      using arg_cong [OF t(2), of "\<lambda>x. x @ pieces cs"] by (simp add: Token)
    have "tag_free (st_pending ?st @ pieces cs)"
      using Cons.prems(1) tag_free_factor [of "concat (snd (on_token st piece))" "st_pending ?st @ pieces cs" "[]"]
      by (simp only: all append_Nil2)
    from Cons.IH [OF this t(1) t(3), of "Suc n"] obtain hold where
      "st_pending ?st @ pieces cs = concat (snd (stream_loop cancelled (Suc n) ?st cs)) @ hold"
      "hold = [] \<or> is_prefix_of_open_tag hold" by blast
    then show ?thesis unfolding all by (intro exI [of _ hold]) (simp add: Token stream_loop_rules(2) [OF assms(3)])
  qed (use Cons.prems in \<open>auto simp: stream_loop_rules(3)\<close>)
qed

text \<open>
  Plain text is streamed completely. If the response contains no tool tag and the turn is
  not cancelled, the texts forwarded to the user are, in order and without loss or repetition, the
  whole response, except for a final part that could still have become an opening tag.
\<close>

lemma stream_shows_plain_text:
  assumes "tag_free (pieces chunks)" and "\<forall>n. \<not> cancelled n"
  shows "\<exists>hold. pieces chunks = concat (snd (stream_llm_response cancelled chunks)) @ hold \<and>
           (hold = [] \<or> is_prefix_of_open_tag hold)"
  using stream_loop_plain [of "\<lparr>st_full = [], st_pending = [], st_in_tag = False\<rparr>" chunks cancelled 0] assms
  by (simp add: stream_llm_response_def)

lemma stream_shows_plain_text_witness:
  "\<exists>hold. lit ''a<b'' = concat (snd (stream_llm_response (\<lambda>_. False) [Token (lit ''a<''), Token (lit ''b''), Done 2 None])) @ hold
     \<and> (hold = [] \<or> is_prefix_of_open_tag hold)"
proof -
  have "tag_free (pieces [Token (lit ''a<''), Token (lit ''b''), Done 2 None])"
    by (simp add: tag_free_def find_next_tag.simps try_match_tag_at_def match_rest_def Let_def after_ws_def
        skip_ws_def starts_with_def TAG_NAMES_def eq_ignore_ascii_case_def to_ascii_lowercase_def
        is_ascii_whitespace_def LT_def GT_def SLASH_def)
  from stream_shows_plain_text [OF this, of "\<lambda>_. False"] show ?thesis by simp
qed

text \<open>The flag \<open>in_tag\<close> is never cleared: the pending text starts with the opening tag itself.\<close>

lemma stream_silent_after_call:
  "st_in_tag st \<Longrightarrow> open_at (st_pending st) 0 \<Longrightarrow> snd (stream_loop cancelled n st chunks) = []"
proof (induction chunks arbitrary: st n)
  case (Cons c cs)
  have "on_token st piece = (\<lparr>st_full = st_full st @ piece, st_pending = st_pending st @ piece, st_in_tag = True\<rparr>, [])"
    for piece using Cons.prems by (simp add: on_token_def drain_in_tag open_at_append)
  with Cons show ?case
    by (cases "cancelled n"; cases c) (simp_all add: stream_loop_rules open_at_append)
qed (simp add: stream_loop_rules)

end
