(* ===== verification/RunEvents.thy ===== *)
theory RunEvents
  imports ToolTags WireTypes
begin

text \<open>
  The adapter manager (\<open>crates/haily-io/src/manager.rs\<close>), which routes responses to the adapter bound
  to a session, and the sanitiser of run events it applies on the way
  (\<open>crates/haily-io/src/run_event.rs\<close>). The sanitiser's \<open>strip_tool_tags\<close> is a separate, coarser
  stripper than the one of the agent core: it drops every angle-bracket token that mentions a tag
  name. \<open>haily-tools\<close> has a third copy with the same text in \<open>connector/redact.rs\<close>.
\<close>

section \<open>The coarse stripper\<close>

fun contains_text :: "ustr \<Rightarrow> ustr \<Rightarrow> bool" where
  "contains_text needle [] = (needle = [])"
| "contains_text needle (c # cs) = (prefix needle (c # cs) \<or> contains_text needle cs)"

definition mentions_tool :: "ustr \<Rightarrow> bool" where
  "mentions_tool tag \<longleftrightarrow>
     contains_text (lit ''tool_call'') (lower tag) \<or> contains_text (lit ''tool_result'') (lower tag)"

text \<open>\<open>find('>')\<close> from a position on, as the length of the text up to it.\<close>

definition find_gt :: "ustr \<Rightarrow> nat option" where
  "find_gt s = (if GT \<in> set s then Some (length (takeWhile (\<lambda>c. c \<noteq> GT) s)) else None)"

function io_strip_once :: "ustr \<Rightarrow> ustr" where
  "io_strip_once [] = []"
| "io_strip_once (c # cs) =
     (if c = LT then
        (case find_gt (c # cs) of
           Some n \<Rightarrow>
             if mentions_tool (take (n + 1) (c # cs)) then io_strip_once (drop (n + 1) (c # cs))
             else c # io_strip_once cs
         | None \<Rightarrow> c # io_strip_once cs)
      else c # io_strip_once cs)"
  by pat_completeness auto
termination by (relation "measure length") auto

lemma io_strip_once_length: "length (io_strip_once t) \<le> length t"
  by (induction t rule: io_strip_once.induct) (auto split: option.splits)

lemma io_strip_once_same_length: "length (io_strip_once t) = length t \<Longrightarrow> io_strip_once t = t"
proof (induction t rule: io_strip_once.induct)
  case (2 c cs)
  have "length (io_strip_once (drop n cs)) \<noteq> Suc (length cs)" for n
    using io_strip_once_length [of "drop n cs"] by simp
  with 2 show ?case by (auto split: option.splits if_splits)
qed simp

function io_strip_tool_tags :: "ustr \<Rightarrow> ustr" where
  "io_strip_tool_tags out =
     (let next = io_strip_once out in if next = out then out else io_strip_tool_tags next)"
  by pat_completeness auto
termination
proof (relation "measure length")
  fix out nxt :: ustr
  assume "nxt = io_strip_once out" "nxt \<noteq> out"
  then show "(nxt, out) \<in> measure length"
    using io_strip_once_length [of out] io_strip_once_same_length [of out] by fastforce
qed simp

declare io_strip_tool_tags.simps [simp del]

section \<open>What the coarse stripper leaves\<close>

definition io_clean :: "ustr \<Rightarrow> bool" where
  "io_clean t \<longleftrightarrow> (\<forall>pre seg post. t = pre @ LT # seg @ GT # post \<longrightarrow> GT \<notin> set seg \<longrightarrow>
     \<not> mentions_tool (LT # seg @ [GT]))"

lemma find_gt_split:
  "find_gt (LT # cs) = Some n \<longleftrightarrow> (\<exists>seg post. cs = seg @ GT # post \<and> GT \<notin> set seg \<and> n = Suc (length seg))"
proof -
  have tw: "takeWhile (\<lambda>c. c \<noteq> GT) (seg @ GT # post) = seg" if "GT \<notin> set seg" for seg post
    using that by (auto simp: takeWhile_append takeWhile_eq_all_conv)
  have "find_gt (LT # cs) = Some (Suc (length seg))" if "cs = seg @ GT # post" "GT \<notin> set seg" for seg post
    using that tw by (simp add: find_gt_def LT_def GT_def)
  moreover have "GT \<in> set cs" if "find_gt (LT # cs) = Some n"
    using that by (auto simp: find_gt_def LT_def GT_def split: if_splits)
  ultimately show ?thesis by (metis option.inject split_list_first)
qed

lemma io_fixpoint_clean: "io_strip_once t = t \<Longrightarrow> io_clean t"
proof (induction t rule: io_strip_once.induct)
  case (2 c cs)
  have ne: "io_strip_once (drop n cs) \<noteq> c # cs" for n
    using io_strip_once_length [of "drop n cs"] by (metis Suc_n_not_le_n diff_le_self le_trans length_Cons length_drop)
  have tail: "io_strip_once cs = cs"
    using 2(5) ne by (auto split: if_splits option.splits)
  then have "io_clean cs" using 2 ne by (auto split: if_splits option.splits)
  moreover have "\<not> mentions_tool (LT # seg @ [GT])"
    if "c = LT" "cs = seg @ GT # post" "GT \<notin> set seg" for seg post
  proof -
    have "find_gt (LT # cs) = Some (Suc (length seg))" using that by (auto simp: find_gt_split)
    moreover have "take (Suc (length seg) + 1) (c # cs) = LT # seg @ [GT]" using that by simp
    ultimately show ?thesis using 2(5) ne that(1) by (auto split: if_splits)
  qed
  ultimately show ?case unfolding io_clean_def by (auto simp: Cons_eq_append_conv)
qed (simp add: io_clean_def)

lemma io_strip_clean: "io_clean (io_strip_tool_tags t)"
proof (induction t rule: io_strip_tool_tags.induct)
  case (1 out)
  then show ?case
    by (cases "io_strip_once out = out"; subst io_strip_tool_tags.simps) (auto simp: io_fixpoint_clean Let_def)
qed

lemma contains_text_middle: "contains_text n (a @ n @ b)"
proof (induction a)
  case Nil
  have "prefix n (n @ b)" by simp
  then show ?case by (cases "n @ b") auto
qed simp

text \<open>Clean text has no tag the agent core would recognise.\<close>

lemma io_clean_tag_free: "io_clean t \<Longrightarrow> tag_free t"
  unfolding tag_free_grammar
proof (rule notI, elim exE conjE)
  fix pre tag post name closing
  assume clean: "io_clean t" and t: "t = pre @ tag @ post" and lt: "hd tag = LT" and tag: "tag_text name closing tag"
  from tag obtain c ws1 ws2 nm ws3 where
    tg: "tag = c # ws1 @ (if closing then SLASH # ws2 else []) @ nm @ ws3 @ [GT]"
    and ws: "all_ws ws1" "all_ws ws2" "all_ws ws3" and name: "name \<in> set TAG_NAMES" "lower nm = lit name"
    by (auto simp: tag_text_def)
  define mid where "mid = (if closing then SLASH # ws2 else [])"
  define seg where "seg = ws1 @ mid @ nm @ ws3"
  have nows: "GT \<notin> set ws" if "all_ws ws" for ws
    using that by (auto simp: all_ws_def list_all_iff is_ascii_whitespace_def GT_def)
  have "GT \<notin> set nm"
  proof
    assume "GT \<in> set nm"
    then have "GT \<in> set (lower nm)" by (force simp: to_ascii_lowercase_def GT_def)
    with name show False by (auto simp: TAG_NAMES_def GT_def)
  qed
  moreover have "GT \<notin> set mid" using nows [OF ws(2)] by (auto simp: mid_def SLASH_def GT_def)
  ultimately have "GT \<notin> set seg" using nows ws by (auto simp: seg_def)
  moreover have "t = pre @ LT # seg @ GT # post" using t lt by (simp add: tg seg_def mid_def)
  ultimately have no: "\<not> mentions_tool (LT # seg @ [GT])" using clean unfolding io_clean_def by blast
  have "lower (LT # seg @ [GT]) = (lower (LT # ws1 @ mid)) @ lit name @ lower (ws3 @ [GT])"
    using name by (simp add: seg_def)
  with no name contains_text_middle [of "lit name" "lower (LT # ws1 @ mid)" "lower (ws3 @ [GT])"]
  show False by (auto simp: mentions_tool_def TAG_NAMES_def simp del: list.map)
qed

section \<open>Run events and the adapter manager\<close>

text \<open>The text fields of wire messages hold code points below 256.\<close>

definition strip_text :: "string \<Rightarrow> string" where
  "strip_text s = map char_of (io_strip_tool_tags (lit s))"

fun sanitize :: "RunEvent \<Rightarrow> RunEvent" where
  "sanitize (StageOutput run_id seq chunk) = StageOutput run_id seq (strip_text chunk)"
| "sanitize (GateResult run_id gate pass decisive) = GateResult run_id gate pass (strip_text decisive)"
| "sanitize (DiffAvailable run_id file) = DiffAvailable run_id (strip_text file)"
| "sanitize (PlanReady run_id plan_path) = PlanReady run_id (strip_text plan_path)"
| "sanitize other = other"

text \<open>
  The manager routes to adapters by name; \<open>'a\<close> is an adapter's own state and behaviour, which the
  manager only hands values to. A delivery returns the adapter called and what it was given.
\<close>

record 'a AdapterManager =
  am_adapters :: "(string, 'a) fmap"
  am_session_map :: "(uuid, string) fmap"

datatype route_error = NoAdapterBound uuid | NotRegistered string

fun am_build :: "(string \<times> 'a) list \<Rightarrow> 'a AdapterManager" where
  "am_build regs =
     \<lparr>am_adapters = foldl (\<lambda>m (i, a). fmupd i a m) fmempty regs, am_session_map = fmempty\<rparr>"

definition bind_session :: "'a AdapterManager \<Rightarrow> uuid \<Rightarrow> string \<Rightarrow> 'a AdapterManager" where
  "bind_session m session_id adapter_id =
     m\<lparr>am_session_map := fmupd session_id adapter_id (am_session_map m)\<rparr>"

definition unbind_session :: "'a AdapterManager \<Rightarrow> uuid \<Rightarrow> 'a AdapterManager" where
  "unbind_session m session_id = m\<lparr>am_session_map := fmdrop session_id (am_session_map m)\<rparr>"

definition am_route :: "'a AdapterManager \<Rightarrow> uuid \<Rightarrow> route_error + string \<times> 'a" where
  "am_route m session_id =
     (case fmlookup (am_session_map m) session_id of
        None \<Rightarrow> Inl (NoAdapterBound session_id)
      | Some adapter_id \<Rightarrow>
          (case fmlookup (am_adapters m) adapter_id of
             None \<Rightarrow> Inl (NotRegistered adapter_id)
           | Some adapter \<Rightarrow> Inr (adapter_id, adapter)))"

definition am_deliver :: "'a AdapterManager \<Rightarrow> uuid \<Rightarrow> ResponseChunk
    \<Rightarrow> route_error + (string \<times> 'a) \<times> uuid \<times> ResponseChunk" where
  "am_deliver m session_id chunk = map_sum id (\<lambda>a. (a, session_id, chunk)) (am_route m session_id)"

definition am_deliver_run_event :: "'a AdapterManager \<Rightarrow> uuid \<Rightarrow> RunEvent
    \<Rightarrow> route_error + (string \<times> 'a) \<times> uuid \<times> RunEvent" where
  "am_deliver_run_event m session_id event =
     (let event = sanitize event in map_sum id (\<lambda>a. (a, session_id, event)) (am_route m session_id))"

text \<open>\<open>notify_all\<close> calls every adapter whatever the earlier calls returned, in the map's order.\<close>

definition am_notify_all :: "'a AdapterManager \<Rightarrow> Notification \<Rightarrow> (string \<times> Notification) fset" where
  "am_notify_all m msg = (\<lambda>i. (i, msg)) |`| fmdom (am_adapters m)"

text \<open>The fields of a run event that carry repository or tool text.\<close>

fun untrusted_text :: "RunEvent \<Rightarrow> string option" where
  "untrusted_text (StageOutput _ _ chunk) = Some chunk"
| "untrusted_text (GateResult _ _ _ decisive) = Some decisive"
| "untrusted_text (DiffAvailable _ file) = Some file"
| "untrusted_text (PlanReady _ plan_path) = Some plan_path"
| "untrusted_text _ = None"

lemma io_strip_once_subseq: "subseq (io_strip_once t) t"
proof (induction t rule: io_strip_once.induct)
  case (2 c cs)
  have "subseq (io_strip_once (drop n cs)) (c # cs)" if "subseq (io_strip_once (drop n cs)) (drop n cs)" for n
    using that by (metis append_take_drop_id list_emb_append2 list_emb_Cons)
  with 2 show ?case by (auto split: option.splits)
qed simp

lemma io_strip_subseq: "subseq (io_strip_tool_tags t) t"
proof (induction t rule: io_strip_tool_tags.induct)
  case (1 out)
  then show ?case using io_strip_once_subseq [of out]
    by (cases "io_strip_once out = out"; subst io_strip_tool_tags.simps)
      (auto simp: Let_def intro: subseq_order.trans)
qed

lemma lit_strip_text: "lit (strip_text s) = io_strip_tool_tags (lit s)"
proof -
  have "set (io_strip_tool_tags (lit s)) \<subseteq> set (lit s)"
    using list_emb_set [OF io_strip_subseq] by (metis subsetI)
  then have "c < 256" if "c \<in> set (io_strip_tool_tags (lit s))" for c
    using that by (auto simp: subset_iff image_iff)
  then show ?thesis unfolding strip_text_def by (simp add: map_idI)
qed

section \<open>Properties\<close>

text \<open>
  Run events are inert on every channel. An event the manager hands to an adapter, which is
  the one bound to the session, differs from the event given only in its repository- and tool-derived
  text, and this text contains no angle-bracket token that mentions a tool tag; in particular no tag
  the agent core recognises and no tool call that could be parsed from it.
\<close>

lemma run_events_inert:
  assumes "am_deliver_run_event m session_id event = Inr (a, session_id', event')"
  shows "session_id' = session_id \<and> fmlookup (am_session_map m) session_id = Some (fst a) \<and>
    fmlookup (am_adapters m) (fst a) = Some (snd a) \<and> event' = sanitize event \<and>
    (\<forall>s. untrusted_text event' = Some s \<longrightarrow>
       io_clean (lit s) \<and> parse_tool_call from_str as_tool args_of e (lit s) = None)"
proof -
  from assms have r: "session_id' = session_id" "am_route m session_id = Inr a" "event' = sanitize event"
    by (auto simp: am_deliver_run_event_def map_sum_def split: sum.splits)
  have "io_clean (lit s)" if "untrusted_text (sanitize event) = Some s" for s
    using that by (cases event) (auto simp: lit_strip_text io_strip_clean)
  with r show ?thesis
    by (auto simp: am_route_def io_clean_tag_free parse_tag_free split: option.splits)
qed

lemma run_events_inert_witness:
  "\<exists>event'. am_deliver_run_event (bind_session (am_build [(''gui'', ())]) 1 ''gui'') 1
      (StageOutput ''r'' 0 ''<tool_call>x'') = Inr ((''gui'', ()), 1, event') \<and>
    (\<forall>s. untrusted_text event' = Some s \<longrightarrow> io_clean (lit s))"
proof -
  have "am_deliver_run_event (bind_session (am_build [(''gui'', ())]) 1 ''gui'') 1
      (StageOutput ''r'' 0 ''<tool_call>x'') = Inr ((''gui'', ()), 1, sanitize (StageOutput ''r'' 0 ''<tool_call>x''))"
    by (simp add: am_deliver_run_event_def am_route_def bind_session_def Let_def)
  from run_events_inert [OF this, of "\<lambda>_. Some ()" "\<lambda>_. None" "\<lambda>_. None" "()"] this show ?thesis by blast
qed

end
