(* ===== verification/ApprovalBroker.thy ===== *)
theory ApprovalBroker
  imports Prelude
begin

text \<open>
  \<open>crates/haily-core/src/approval.rs\<close>: the registry of approvals a turn is waiting for. The oneshot
  channel of a request is named by the requesting task; \<open>resolve\<close> returns the value to send, if the
  call settled an entry. The interleavings of requests, resolutions, cancellations and timeouts are the
  step relation below. \<open>request\<close> looks for a pending approval of the session and inserts its own entry
  in two separate accesses of the concurrent map, so these are two steps.
\<close>

section \<open>Model\<close>

record Pending =
  pn_session :: uuid
  pn_created_at :: string
  pn_task :: nat

record Broker =
  ab_pending :: "(uuid, Pending) fmap"
  ab_auto_approve :: "string fset"

definition with_auto_approve :: "string fset \<Rightarrow> Broker" where
  "with_auto_approve names = \<lparr>ab_pending = fmempty, ab_auto_approve = names\<rparr>"

definition broker_new :: Broker where
  "broker_new = with_auto_approve {||}"

definition is_auto_approved :: "Broker \<Rightarrow> string \<Rightarrow> bool" where
  "is_auto_approved b tool_name \<longleftrightarrow> tool_name |\<in>| ab_auto_approve b"

definition session_pending :: "Broker \<Rightarrow> uuid \<Rightarrow> bool" where
  "session_pending b session_id \<longleftrightarrow>
     fBex (fmdom (ab_pending b)) (\<lambda>a. map_option pn_session (fmlookup (ab_pending b) a) = Some session_id)"

definition register :: "Broker \<Rightarrow> uuid \<Rightarrow> uuid \<Rightarrow> string \<Rightarrow> nat \<Rightarrow> Broker" where
  "register b approval_id session_id now task =
     b\<lparr>ab_pending := fmupd approval_id
          \<lparr>pn_session = session_id, pn_created_at = now, pn_task = task\<rparr> (ab_pending b)\<rparr>"

definition unregister :: "Broker \<Rightarrow> uuid \<Rightarrow> Broker" where
  "unregister b approval_id = b\<lparr>ab_pending := fmdrop approval_id (ab_pending b)\<rparr>"

definition resolve :: "Broker \<Rightarrow> uuid \<Rightarrow> uuid \<Rightarrow> bool \<Rightarrow> Broker \<times> bool \<times> (nat \<times> bool) option" where
  "resolve b approval_id session_id approved =
     (case fmlookup (ab_pending b) approval_id of
        Some p \<Rightarrow>
          if pn_session p = session_id
          then (unregister b approval_id, True, Some (pn_task p, approved))
          else (b, False, None)
      | None \<Rightarrow> (b, False, None))"

text \<open>What ends the wait of a request: a value, a dropped sender, cancellation or the timeout.\<close>

datatype wake = Received bool | SenderDropped | Cancelled | TimedOut

fun decision :: "wake \<Rightarrow> bool" where
  "decision (Received v) = v"
| "decision _ = False"

section \<open>Interleavings\<close>

text \<open>
  \<open>bs_checked\<close> holds the requests that passed the check but have not inserted yet, \<open>bs_waiting\<close> the
  requests at their \<open>select!\<close>, \<open>bs_mail\<close> the values sent on their channels. \<open>bs_settled\<close> records each
  call of \<open>resolve\<close> that settled an entry and \<open>bs_results\<close> what each \<open>request\<close> returned.
\<close>

record broker_sys =
  bs_broker :: Broker
  bs_checked :: "(nat, uuid \<times> uuid) fmap"
  bs_waiting :: "(nat, uuid \<times> uuid) fmap"
  bs_mail :: "(nat, bool) fmap"
  bs_settled :: "(nat \<times> uuid \<times> uuid \<times> bool) list"
  bs_results :: "(nat \<times> uuid \<times> uuid \<times> bool) list"

definition broker_init :: "string fset \<Rightarrow> broker_sys" where
  "broker_init names =
     \<lparr>bs_broker = with_auto_approve names, bs_checked = fmempty, bs_waiting = fmempty, bs_mail = fmempty,
      bs_settled = [], bs_results = []\<rparr>"

definition do_check :: "broker_sys \<Rightarrow> nat \<Rightarrow> uuid \<Rightarrow> uuid \<Rightarrow> broker_sys" where
  "do_check y task aid sid =
     (if session_pending (bs_broker y) sid then y\<lparr>bs_results := bs_results y @ [(task, aid, sid, False)]\<rparr>
      else y\<lparr>bs_checked := fmupd task (aid, sid) (bs_checked y)\<rparr>)"

definition do_insert :: "broker_sys \<Rightarrow> nat \<Rightarrow> string \<Rightarrow> broker_sys" where
  "do_insert y task now =
     (case fmlookup (bs_checked y) task of
        None \<Rightarrow> y
      | Some (aid, sid) \<Rightarrow>
          y\<lparr>bs_broker := register (bs_broker y) aid sid now task, bs_checked := fmdrop task (bs_checked y),
             bs_waiting := fmupd task (aid, sid) (bs_waiting y)\<rparr>)"

definition do_resolve :: "broker_sys \<Rightarrow> uuid \<Rightarrow> uuid \<Rightarrow> bool \<Rightarrow> broker_sys" where
  "do_resolve y aid sid approved =
     (case resolve (bs_broker y) aid sid approved of
        (b, _, None) \<Rightarrow> y\<lparr>bs_broker := b\<rparr>
      | (b, _, Some (task, v)) \<Rightarrow>
          y\<lparr>bs_broker := b, bs_mail := fmupd task v (bs_mail y),
             bs_settled := bs_settled y @ [(task, aid, sid, v)]\<rparr>)"

definition do_wake :: "broker_sys \<Rightarrow> nat \<Rightarrow> wake \<Rightarrow> broker_sys" where
  "do_wake y task w =
     (case fmlookup (bs_waiting y) task of
        None \<Rightarrow> y
      | Some (aid, sid) \<Rightarrow>
          y\<lparr>bs_broker := unregister (bs_broker y) aid, bs_waiting := fmdrop task (bs_waiting y),
             bs_results := bs_results y @ [(task, aid, sid, decision w)]\<rparr>)"

text \<open>A task makes one request; a value can be received only once it was sent.\<close>

inductive broker_step :: "broker_sys \<Rightarrow> broker_sys \<Rightarrow> bool" where
  check: "task |\<notin>| fmdom (bs_checked y) \<Longrightarrow> task |\<notin>| fmdom (bs_waiting y) \<Longrightarrow>
    task \<notin> fst ` set (bs_results y) \<Longrightarrow> broker_step y (do_check y task aid sid)"
| insert: "broker_step y (do_insert y task now)"
| resolve: "broker_step y (do_resolve y aid sid approved)"
| wake: "(\<And>v. w = Received v \<Longrightarrow> fmlookup (bs_mail y) task = Some v) \<Longrightarrow> broker_step y (do_wake y task w)"

inductive broker_reachable :: "string fset \<Rightarrow> broker_sys \<Rightarrow> bool" for names where
  init: "broker_reachable names (broker_init names)"
| step: "broker_reachable names y \<Longrightarrow> broker_step y z \<Longrightarrow> broker_reachable names z"

inductive_cases broker_step_cases: "broker_step y z"

section \<open>Invariant\<close>

text \<open>The tasks that have returned, and the parts of the invariant.\<close>

abbreviation returned :: "broker_sys \<Rightarrow> nat set" where
  "returned y \<equiv> fst ` set (bs_results y)"

definition phases_ok :: "broker_sys \<Rightarrow> bool" where
  "phases_ok y \<longleftrightarrow>
     (\<forall>task. task |\<in>| fmdom (bs_waiting y) \<longrightarrow> task |\<notin>| fmdom (bs_checked y) \<and> task \<notin> returned y) \<and>
     (\<forall>task. task |\<in>| fmdom (bs_checked y) \<longrightarrow> task \<notin> returned y)"

definition pending_ok :: "broker_sys \<Rightarrow> bool" where
  "pending_ok y \<longleftrightarrow>
     (\<forall>aid p. fmlookup (ab_pending (bs_broker y)) aid = Some p \<longrightarrow>
        fmlookup (bs_waiting y) (pn_task p) = Some (aid, pn_session p) \<and> pn_task p \<notin> fst ` set (bs_settled y))"

definition settled_ok :: "broker_sys \<Rightarrow> bool" where
  "settled_ok y \<longleftrightarrow>
     (\<forall>task aid sid v. (task, aid, sid, v) \<in> set (bs_settled y) \<longrightarrow>
        fmlookup (bs_mail y) task = Some v \<and>
        (fmlookup (bs_waiting y) task = Some (aid, sid) \<or> task \<in> returned y))"

definition mail_ok :: "broker_sys \<Rightarrow> bool" where
  "mail_ok y \<longleftrightarrow> (\<forall>task v. fmlookup (bs_mail y) task = Some v \<longrightarrow> (\<exists>aid sid. (task, aid, sid, v) \<in> set (bs_settled y)))"

definition results_ok :: "broker_sys \<Rightarrow> bool" where
  "results_ok y \<longleftrightarrow>
     (\<forall>task aid sid. (task, aid, sid, True) \<in> set (bs_results y) \<longrightarrow> (task, aid, sid, True) \<in> set (bs_settled y))"

definition broker_inv :: "broker_sys \<Rightarrow> bool" where
  "broker_inv y \<longleftrightarrow> phases_ok y \<and> pending_ok y \<and> settled_ok y \<and> mail_ok y \<and> results_ok y \<and>
     distinct (map fst (bs_settled y))"

lemma inv_parts:
  assumes "broker_inv y"
  shows "task |\<in>| fmdom (bs_waiting y) \<Longrightarrow> task |\<notin>| fmdom (bs_checked y) \<and> task \<notin> returned y"
    and "task |\<in>| fmdom (bs_checked y) \<Longrightarrow> task \<notin> returned y"
    and "fmlookup (ab_pending (bs_broker y)) aid = Some p \<Longrightarrow>
           fmlookup (bs_waiting y) (pn_task p) = Some (aid, pn_session p) \<and> pn_task p \<notin> fst ` set (bs_settled y)"
    and "(task, aid, sid, v) \<in> set (bs_settled y) \<Longrightarrow>
           fmlookup (bs_mail y) task = Some v \<and>
           (fmlookup (bs_waiting y) task = Some (aid, sid) \<or> task \<in> returned y)"
    and "fmlookup (bs_mail y) task = Some v \<Longrightarrow> \<exists>aid sid. (task, aid, sid, v) \<in> set (bs_settled y)"
    and "(task, aid, sid, True) \<in> set (bs_results y) \<Longrightarrow> (task, aid, sid, True) \<in> set (bs_settled y)"
    and "distinct (map fst (bs_settled y))"
  using assms unfolding broker_inv_def phases_ok_def pending_ok_def settled_ok_def mail_ok_def results_ok_def
  by blast+

lemma inv_intro:
  assumes "\<And>task. task |\<in>| fmdom (bs_waiting y) \<Longrightarrow> task |\<notin>| fmdom (bs_checked y) \<and> task \<notin> returned y"
    and "\<And>task. task |\<in>| fmdom (bs_checked y) \<Longrightarrow> task \<notin> returned y"
    and "\<And>aid p. fmlookup (ab_pending (bs_broker y)) aid = Some p \<Longrightarrow>
           fmlookup (bs_waiting y) (pn_task p) = Some (aid, pn_session p) \<and> pn_task p \<notin> fst ` set (bs_settled y)"
    and "\<And>task aid sid v. (task, aid, sid, v) \<in> set (bs_settled y) \<Longrightarrow>
           fmlookup (bs_mail y) task = Some v \<and>
           (fmlookup (bs_waiting y) task = Some (aid, sid) \<or> task \<in> returned y)"
    and "\<And>task v. fmlookup (bs_mail y) task = Some v \<Longrightarrow> \<exists>aid sid. (task, aid, sid, v) \<in> set (bs_settled y)"
    and "\<And>task aid sid. (task, aid, sid, True) \<in> set (bs_results y) \<Longrightarrow> (task, aid, sid, True) \<in> set (bs_settled y)"
    and "distinct (map fst (bs_settled y))"
  shows "broker_inv y"
  using assms unfolding broker_inv_def phases_ok_def pending_ok_def settled_ok_def mail_ok_def results_ok_def
  by blast

lemma register_pending:
  "fmlookup (ab_pending (register b a s n t)) a' =
     (if a = a' then Some \<lparr>pn_session = s, pn_created_at = n, pn_task = t\<rparr> else fmlookup (ab_pending b) a')"
  by (simp add: register_def)

lemma unregister_pending:
  "fmlookup (ab_pending (unregister b a)) a' = (if a = a' then None else fmlookup (ab_pending b) a')"
  by (simp add: unregister_def)

lemma inv_check:
  assumes inv: "broker_inv y" and "task |\<notin>| fmdom (bs_checked y)" "task |\<notin>| fmdom (bs_waiting y)" "task \<notin> returned y"
  shows "broker_inv (do_check y task aid sid)"
proof (rule inv_intro, goal_cases)
  case (1 t)
  then show ?case using inv_parts(1) [OF inv, of t] assms(2-) by (auto simp: do_check_def split: if_splits)
next
  case (2 t)
  then show ?case using inv_parts(2) [OF inv, of t] assms(2-) by (auto simp: do_check_def split: if_splits)
next
  case (3 a q)
  then show ?case using inv_parts(3) [OF inv, of a q] assms(2-) by (auto simp: do_check_def split: if_splits)
next
  case (4 t a s v)
  then show ?case using inv_parts(4) [OF inv, of t a s v] assms(2-) by (auto simp: do_check_def split: if_splits)
next
  case (5 t v)
  then show ?case using inv_parts(5) [OF inv, of t v] assms(2-) by (auto simp: do_check_def split: if_splits)
next
  case (6 t a s)
  then show ?case using inv_parts(6) [OF inv, of t a s] assms(2-) by (auto simp: do_check_def split: if_splits)
next
  case 7
  then show ?case using inv_parts(7) [OF inv] by (auto simp: do_check_def split: if_splits)
qed

lemma inv_insert:
  assumes inv: "broker_inv y"
  shows "broker_inv (do_insert y task now)"
proof (cases "fmlookup (bs_checked y) task")
  case None
  with inv show ?thesis by (simp add: do_insert_def)
next
  case (Some as)
  obtain aid sid where as: "as = (aid, sid)" by (cases as)
  from Some have c: "task |\<in>| fmdom (bs_checked y)" by (simp add: fmdomI)
  then have nw: "fmlookup (bs_waiting y) task = None" and nr: "task \<notin> returned y"
    using inv_parts [OF inv] by (auto simp: fmdom_notD)
  then have ns: "(task, a, s, v) \<notin> set (bs_settled y)" for a s v using inv_parts(4) [OF inv, of task a s v] by auto
  have step: "do_insert y task now =
      y\<lparr>bs_broker := register (bs_broker y) aid sid now task, bs_checked := fmdrop task (bs_checked y),
         bs_waiting := fmupd task (aid, sid) (bs_waiting y)\<rparr>"
    by (simp add: do_insert_def Some as)
  show ?thesis unfolding step
  proof (rule inv_intro, goal_cases)
    case (1 t)
    then show ?case using inv_parts(1) [OF inv, of t] nr by (auto simp: register_pending split: if_splits)
  next
    case (2 t)
    then show ?case using inv_parts(2) [OF inv, of t] nr by (auto simp: register_pending split: if_splits)
  next
    case (3 a q)
    then show ?case using inv_parts(3) [OF inv, of a q] nw ns by (auto simp: register_pending split: if_splits)
  next
    case (4 t a s v)
    then show ?case using inv_parts(4) [OF inv, of t a s v] nw ns by (auto simp: register_pending split: if_splits)
  next
    case (5 t v)
    then show ?case using inv_parts(5) [OF inv, of t v] by (auto simp: register_pending split: if_splits)
  next
    case (6 t a s)
    then show ?case using inv_parts(6) [OF inv, of t a s] by (auto simp: register_pending split: if_splits)
  next
    case 7
    then show ?case using inv_parts(7) [OF inv] by (auto simp: register_pending split: if_splits)
  qed
qed

lemma inv_resolve:
  assumes inv: "broker_inv y"
  shows "broker_inv (do_resolve y aid sid approved)"
proof (cases "\<exists>p. fmlookup (ab_pending (bs_broker y)) aid = Some p \<and> pn_session p = sid")
  case True
  then obtain p where p: "fmlookup (ab_pending (bs_broker y)) aid = Some p" "pn_session p = sid" by blast
  have w: "fmlookup (bs_waiting y) (pn_task p) = Some (aid, sid)" and ns: "(pn_task p, a, s, v) \<notin> set (bs_settled y)" for a s v
    using inv_parts(3) [OF inv p(1)] p by (auto dest!: image_eqI [of _ fst "(pn_task p, a, s, v)" for a s v, rotated])
  have other: "pn_task q \<noteq> pn_task p" if "fmlookup (ab_pending (bs_broker y)) a = Some q" "a \<noteq> aid" for a q
    using that inv_parts(3) [OF inv that(1)] w by auto
  have step: "do_resolve y aid sid approved =
      y\<lparr>bs_broker := unregister (bs_broker y) aid, bs_mail := fmupd (pn_task p) approved (bs_mail y),
         bs_settled := bs_settled y @ [(pn_task p, aid, sid, approved)]\<rparr>"
    using p by (simp add: do_resolve_def resolve_def)
  show ?thesis unfolding step
  proof (rule inv_intro, goal_cases)
    case (1 t)
    then show ?case using inv_parts(1) [OF inv, of t] by (auto simp: unregister_pending split: if_splits)
  next
    case (2 t)
    then show ?case using inv_parts(2) [OF inv, of t] by (auto simp: unregister_pending split: if_splits)
  next
    case (3 a q)
    then show ?case using inv_parts(3) [OF inv, of a q] other [of a q] by (auto simp: unregister_pending split: if_splits)
  next
    case (4 t a s v)
    then show ?case using inv_parts(4) [OF inv, of t a s v] w ns by (auto simp: unregister_pending split: if_splits)
  next
    case (5 t v)
    then show ?case using inv_parts(5) [OF inv, of t v] w ns by (auto simp: unregister_pending split: if_splits)
  next
    case (6 t a s)
    then show ?case using inv_parts(6) [OF inv, of t a s] by (auto simp: unregister_pending split: if_splits)
  next
    case 7
    then show ?case using inv_parts(7) [OF inv] ns by (auto simp: unregister_pending split: if_splits)
  qed
next
  case False
  then have "do_resolve y aid sid approved = y"
    by (auto simp: do_resolve_def resolve_def split: option.splits)
  with inv show ?thesis by simp
qed

lemma inv_wake:
  assumes inv: "broker_inv y" and w: "\<And>v. w = Received v \<Longrightarrow> fmlookup (bs_mail y) task = Some v"
  shows "broker_inv (do_wake y task w)"
proof (cases "fmlookup (bs_waiting y) task")
  case None
  with inv show ?thesis by (simp add: do_wake_def)
next
  case (Some as)
  obtain aid sid where as: "as = (aid, sid)" by (cases as)
  have nr: "task \<notin> returned y" "task |\<notin>| fmdom (bs_checked y)"
    using inv_parts(1) [OF inv] Some by (auto simp: fmdomI)
  have ok: "(task, aid, sid, True) \<in> set (bs_settled y)" if "decision w"
  proof -
    from that have "w = Received True" by (cases w) auto
    from inv_parts(5) [OF inv w [OF this]] obtain a s where st: "(task, a, s, True) \<in> set (bs_settled y)" by blast
    from inv_parts(4) [OF inv st] st nr Some as show ?thesis by auto
  qed
  have other: "pn_task q \<noteq> task" if "fmlookup (ab_pending (bs_broker y)) a = Some q" "a \<noteq> aid" for a q
    using that inv_parts(3) [OF inv that(1)] Some as by auto
  have step: "do_wake y task w =
      y\<lparr>bs_broker := unregister (bs_broker y) aid, bs_waiting := fmdrop task (bs_waiting y),
         bs_results := bs_results y @ [(task, aid, sid, decision w)]\<rparr>"
    by (simp add: do_wake_def Some as)
  show ?thesis unfolding step
  proof (rule inv_intro, goal_cases)
    case (1 t)
    then show ?case using inv_parts(1) [OF inv, of t] nr by (auto simp: unregister_pending split: if_splits)
  next
    case (2 t)
    then show ?case using inv_parts(2) [OF inv, of t] nr by (auto simp: unregister_pending split: if_splits)
  next
    case (3 a q)
    then show ?case using inv_parts(3) [OF inv, of a q] other [of a q] by (auto simp: unregister_pending split: if_splits)
  next
    case (4 t a s v)
    then show ?case using inv_parts(4) [OF inv, of t a s v] Some as by (auto simp: unregister_pending split: if_splits)
  next
    case (5 t v)
    then show ?case using inv_parts(5) [OF inv, of t v] by (auto simp: unregister_pending split: if_splits)
  next
    case (6 t a s)
    then show ?case using inv_parts(6) [OF inv, of t a s] ok by (auto simp: unregister_pending split: if_splits)
  next
    case 7
    then show ?case using inv_parts(7) [OF inv] by (auto simp: unregister_pending split: if_splits)
  qed
qed

lemma broker_reachable_inv: "broker_reachable names y \<Longrightarrow> broker_inv y"
proof (induction rule: broker_reachable.induct)
  case init
  show ?case by (rule inv_intro) (simp_all add: broker_init_def with_auto_approve_def)
next
  case (step y z)
  from step(2,3) show ?case
    by (cases rule: broker_step.cases) (auto intro: inv_check inv_insert inv_resolve inv_wake)
qed

section \<open>Properties\<close>

text \<open>
  Property C3: an approval is granted only by its own session. In every interleaving of requests,
  resolutions, cancellations and timeouts, also with several requests racing for one session, a request
  that returns \<open>true\<close> was settled, while it was waiting, by a call of \<open>resolve\<close> that named its approval
  id and its session and approved it; and no request is settled twice.
\<close>

theorem approval_only_by_own_session:
  assumes "broker_reachable names y" and "(task, aid, sid, True) \<in> set (bs_results y)"
  shows "(task, aid, sid, True) \<in> set (bs_settled y) \<and> distinct (map fst (bs_settled y))"
  using inv_parts(6,7) [OF broker_reachable_inv [OF assms(1)]] assms(2) by blast

definition example_approval :: broker_sys where
  "example_approval =
     do_wake (do_resolve (do_insert (do_check (broker_init {||}) 0 1 7) 0 ''now'') 1 7 True) 0 (Received True)"

lemma example_approval_reachable: "broker_reachable {||} example_approval"
  unfolding example_approval_def
  by (intro broker_reachable.step [OF _ broker_step.wake] broker_reachable.step [OF _ broker_step.resolve]
      broker_reachable.step [OF _ broker_step.insert] broker_reachable.step [OF _ broker_step.check]
      broker_reachable.init)
    (simp_all add: do_check_def do_insert_def do_resolve_def broker_init_def with_auto_approve_def
      session_pending_def register_def resolve_def unregister_def)

theorem approval_only_by_own_session_witness:
  "(0, 1, 7, True) \<in> set (bs_results example_approval) \<and> (0, 1, 7, True) \<in> set (bs_settled example_approval)"
proof -
  have "(0, 1, 7, True) \<in> set (bs_results example_approval)"
    by (simp add: example_approval_def do_wake_def do_check_def do_insert_def do_resolve_def broker_init_def
        with_auto_approve_def session_pending_def register_def resolve_def unregister_def)
  with approval_only_by_own_session [OF example_approval_reachable this] show ?thesis by blast
qed

text \<open>
  The limit of one pending approval per session is checked before the insertion, not with it: two
  requests of one session that interleave both register.
\<close>

lemma two_pending_for_one_session:
  "\<exists>y. broker_reachable {||} y \<and> fmlookup (ab_pending (bs_broker y)) 1 \<noteq> None \<and>
     fmlookup (ab_pending (bs_broker y)) 2 \<noteq> None \<and>
     (\<forall>a p. fmlookup (ab_pending (bs_broker y)) a = Some p \<longrightarrow> pn_session p = 7)"
proof -
  let ?y = "do_insert (do_insert (do_check (do_check (broker_init {||}) 0 1 7) 1 2 7) 0 ''a'') 1 ''b''"
  have "broker_reachable {||} ?y"
    by (intro broker_reachable.step [OF _ broker_step.insert] broker_reachable.step [OF _ broker_step.check]
        broker_reachable.init)
      (simp_all add: do_check_def broker_init_def with_auto_approve_def session_pending_def)
  moreover have "ab_pending (bs_broker ?y) =
      fmupd 2 \<lparr>pn_session = 7, pn_created_at = ''b'', pn_task = 1\<rparr>
        (fmupd 1 \<lparr>pn_session = 7, pn_created_at = ''a'', pn_task = 0\<rparr> fmempty)"
    by (simp add: do_insert_def do_check_def broker_init_def with_auto_approve_def session_pending_def register_def)
  ultimately show ?thesis by (intro exI [of _ ?y]) simp
qed

end
