(* ===== verification/Json.thy ===== *)
theory Json
  imports Prelude
begin

text \<open>
  JSON values as the code sees them through \<open>serde_json::Value\<close>, with the accessors it uses. Numbers are integers
  or doubles, as the parser stores them. A text column
  that holds JSON is either the text of a value or some other text (\<open>json_text\<close>); parsing is the inverse of
  printing and fails on the other texts.
\<close>

section \<open>JSON values\<close>

text \<open>A double: \<open>m * 2 ^ e\<close> with \<open>m\<close> odd or both 0, an infinity with its sign, or not a number.\<close>

datatype f64 = Fin int int | Inf bool | NaN

datatype json =
    JNull | JBool bool | JNum int | JFloat f64 | JStr string | JArr "json list" | JObj "(string \<times> json) list"

fun jget :: "json \<Rightarrow> string \<Rightarrow> json option" where
  "jget (JObj flds) key = map_of flds key"
| "jget _ _ = None"

fun as_object :: "json \<Rightarrow> (string \<times> json) list option" where
  "as_object (JObj flds) = Some flds"
| "as_object _ = None"

text \<open>\<open>Map::insert\<close> and \<open>entry(k).or_insert(v)\<close> on the fields of an object.\<close>

fun obj_insert :: "string \<Rightarrow> json \<Rightarrow> (string \<times> json) list \<Rightarrow> (string \<times> json) list" where
  "obj_insert k v [] = [(k, v)]"
| "obj_insert k v ((k', v') # flds) = (if k = k' then (k, v) # flds else (k', v') # obj_insert k v flds)"

definition obj_or_insert :: "string \<Rightarrow> json \<Rightarrow> (string \<times> json) list \<Rightarrow> (string \<times> json) list" where
  "obj_or_insert k v flds = (if map_of flds k = None then obj_insert k v flds else flds)"

lemma map_of_obj_insert [simp]: "map_of (obj_insert k v flds) = (map_of flds)(k \<mapsto> v)"
  by (induction k v flds rule: obj_insert.induct) (auto simp: fun_eq_iff)

lemma map_of_obj_or_insert:
  "map_of (obj_or_insert k v flds) k' = (if k = k' \<and> map_of flds k = None then Some v else map_of flds k')"
  by (simp add: obj_or_insert_def)

fun as_str :: "json \<Rightarrow> string option" where
  "as_str (JStr s) = Some s"
| "as_str _ = None"

fun as_array :: "json \<Rightarrow> json list option" where
  "as_array (JArr xs) = Some xs"
| "as_array _ = None"

fun as_i64 :: "json \<Rightarrow> int option" where
  "as_i64 (JNum n) = (if - (2 ^ 63) \<le> n \<and> n < 2 ^ 63 then Some n else None)"
| "as_i64 _ = None"

datatype json_text = Text_of json | Other_text string

fun parse_json :: "json_text \<Rightarrow> json option" where
  "parse_json (Text_of v) = Some v"
| "parse_json (Other_text _) = None"

end
