(* ===== verification/ToolDispatch.thy ===== *)
theory ToolDispatch
  imports ApprovalBroker Json
begin

text \<open>
  The safety gate in front of every tool: \<open>LoopGuard\<close> and \<open>dispatch\<close> of
  \<open>crates/haily-core/src/tool_call.rs\<close>, and the validation of the auto-approve allowlist in
  \<open>crates/haily-app/src/auto_approve.rs\<close>. What a tool's \<open>execute\<close> returns, what the approval broker
  answers and the state of the kill switch at the time of the call are arguments of the model
  (\<open>call_env\<close>); the calls \<open>dispatch\<close> makes are returned in order as effects.
\<close>

section \<open>Loop guard\<close>

definition MAX_TOOL_CALLS :: u32 where "MAX_TOOL_CALLS = 10"

record LoopGuard =
  lg_last :: "(string \<times> string) option"
  lg_count :: u32
  lg_limit :: u32

definition lg_new :: LoopGuard where
  "lg_new = \<lparr>lg_last = None, lg_count = 0, lg_limit = MAX_TOOL_CALLS\<rparr>"

definition lg_with_limit :: "u32 \<Rightarrow> LoopGuard" where
  "lg_with_limit limit = \<lparr>lg_last = None, lg_count = 0, lg_limit = limit\<rparr>"

datatype guard_error = RepeatedCall string | CallLimit u32

text \<open>\<open>args_str\<close> is the JSON text of the arguments.\<close>

definition lg_check :: "LoopGuard \<Rightarrow> string \<Rightarrow> string \<Rightarrow> guard_error + LoopGuard" where
  "lg_check g tool args_str =
     (if lg_last g = Some (tool, args_str) then Inl (RepeatedCall tool)
      else if lg_count g \<ge> lg_limit g then Inl (CallLimit (lg_limit g))
      else Inr (g\<lparr>lg_last := Some (tool, args_str), lg_count := lg_count g + 1\<rparr>))"

text \<open>The calls of one turn: the first refusal ends it.\<close>

fun lg_run :: "LoopGuard \<Rightarrow> (string \<times> string) list \<Rightarrow> (string \<times> string) list" where
  "lg_run g [] = []"
| "lg_run g ((tool, args) # calls) =
     (case lg_check g tool args of
        Inl _ \<Rightarrow> []
      | Inr g' \<Rightarrow> (tool, args) # lg_run g' calls)"

section \<open>Dispatch\<close>

datatype RiskTier = Read | ReversibleWrite | IrreversibleWrite | Blocked

record Tool =
  tl_risk_tier :: "json \<Rightarrow> RiskTier"
  tl_schema :: json

type_synonym registry = "string \<Rightarrow> Tool option"

definition RETIERED_DELETE_TOOLS :: "string list" where
  "RETIERED_DELETE_TOOLS =
     [''task_delete'', ''note_delete'', ''reminder_delete'', ''memory_forget'', ''work_item_delete'',
      ''calendar_delete'']"

definition IS_COMPENSATION_TOOL :: string where "IS_COMPENSATION_TOOL = ''journal_undo''"

definition MAX_AUTO_DELETES_PER_TURN :: nat where "MAX_AUTO_DELETES_PER_TURN = 5"

record ToolCtx =
  tc_turn_deletes :: nat
  tc_last_journal_id :: "string option"
  tc_depth :: nat
  tc_domain :: "string option"

text \<open>
  \<open>ce_exec\<close> is what \<open>execute\<close> would return (\<open>Inl\<close> for its error) and \<open>ce_journal\<close> the journal id it would
  leave in the context; \<open>ce_approved\<close> is what a request to the broker would return.
\<close>

record call_env =
  ce_kill :: bool
  ce_approval_id :: uuid
  ce_approved :: bool
  ce_exec :: "string + string"
  ce_journal :: "string option"

datatype dispatch_effect =
    AskApproval string uuid string bool
  | Execute string
  | Report string bool bool "string option"

datatype dispatch_text = WritesDisabled | Declined | Output string | ToolError string

datatype dispatch_error = UnknownTool string | BlockedTool string

fun nat_dec :: "nat \<Rightarrow> string" where
  "nat_dec n = (if n < 10 then [char_of (48 + n)] else nat_dec (n div 10) @ [char_of (48 + n mod 10)])"

definition approval_origin :: "nat \<Rightarrow> string option \<Rightarrow> string" where
  "approval_origin depth domain =
     (if depth = 0 then ''L0''
      else case domain of
             Some name \<Rightarrow> ''L'' @ nat_dec depth @ '':'' @ name
           | None \<Rightarrow> ''L'' @ nat_dec depth)"

definition effective_tier :: "ToolCtx \<Rightarrow> string \<Rightarrow> RiskTier \<Rightarrow> RiskTier" where
  "effective_tier ctx tool_name tier =
     (if tool_name \<in> set RETIERED_DELETE_TOOLS \<and> tier = ReversibleWrite
         \<and> tc_turn_deletes ctx \<ge> MAX_AUTO_DELETES_PER_TURN
      then IrreversibleWrite else tier)"

text \<open>The tail of \<open>dispatch\<close>, from the call of \<open>execute\<close> on.\<close>

definition run_tool :: "ToolCtx \<Rightarrow> call_env \<Rightarrow> string \<Rightarrow> RiskTier
    \<Rightarrow> (dispatch_text \<times> bool) \<times> ToolCtx \<times> dispatch_effect list" where
  "run_tool ctx env tool_name tier =
     (let ctx1 = (case ce_journal env of None \<Rightarrow> ctx | Some j \<Rightarrow> ctx\<lparr>tc_last_journal_id := Some j\<rparr>)
      in case ce_exec env of
           Inr output \<Rightarrow>
             (let ctx2 = (if tool_name \<in> set RETIERED_DELETE_TOOLS
                          then ctx1\<lparr>tc_turn_deletes := tc_turn_deletes ctx1 + 1\<rparr> else ctx1);
                  journal_id = (if tier = ReversibleWrite then tc_last_journal_id ctx2 else None)
              in ((Output output, True), ctx2,
                  [Execute tool_name, Report tool_name True (journal_id \<noteq> None) journal_id]))
         | Inl e \<Rightarrow>
             ((ToolError e, False), ctx1, [Execute tool_name, Report tool_name False False None]))"

definition dispatch :: "registry \<Rightarrow> Broker \<Rightarrow> ToolCtx \<Rightarrow> call_env \<Rightarrow> string \<Rightarrow> json
    \<Rightarrow> (dispatch_error + dispatch_text \<times> bool) \<times> ToolCtx \<times> dispatch_effect list" where
  "dispatch registry gate ctx env tool_name args =
     (case registry tool_name of
        None \<Rightarrow> (Inl (UnknownTool tool_name), ctx, [])
      | Some tool \<Rightarrow>
          (let ctx = ctx\<lparr>tc_last_journal_id := None\<rparr>;
               tier = tl_risk_tier tool args;
               eff = effective_tier ctx tool_name tier;
               is_compensation = (tool_name = IS_COMPENSATION_TOOL);
               run = (\<lambda>pre. let (r, ctx', effs) = run_tool ctx env tool_name tier in (Inr r, ctx', pre @ effs))
           in if eff \<noteq> Read \<and> \<not> is_compensation \<and> ce_kill env then
                (Inr (WritesDisabled, False), ctx, [Report tool_name False False None])
              else case eff of
                     Blocked \<Rightarrow> (Inl (BlockedTool tool_name), ctx, [])
                   | IrreversibleWrite \<Rightarrow>
                       if is_auto_approved gate tool_name then run []
                       else (let ask = AskApproval tool_name (ce_approval_id env)
                                         (approval_origin (tc_depth ctx) (tc_domain ctx)) (tier = ReversibleWrite)
                             in if \<not> ce_approved env
                                then (Inr (Declined, False), ctx, [ask, Report tool_name False False None])
                                else run [ask])
                   | _ \<Rightarrow> run []))"

text \<open>The dispatches of one turn, in sequence over one context.\<close>

type_synonym call = "call_env \<times> string \<times> json"

fun dispatch_all :: "registry \<Rightarrow> Broker \<Rightarrow> ToolCtx \<Rightarrow> call list \<Rightarrow> (call \<times> dispatch_effect list) list" where
  "dispatch_all registry gate ctx [] = []"
| "dispatch_all registry gate ctx ((env, name, args) # calls) =
     (let (r, ctx', effs) = dispatch registry gate ctx env name args
      in ((env, name, args), effs) # dispatch_all registry gate ctx' calls)"

section \<open>The auto-approve allowlist\<close>

definition wrong_value :: "json option \<Rightarrow> string \<Rightarrow> json" where
  "wrong_value props field_name =
     (let declared_type = do { p \<leftarrow> props; f \<leftarrow> jget p field_name; t \<leftarrow> jget f ''type''; as_str t }
      in if declared_type = Some ''string'' then JNum 0 else JStr ''__type_violation__'')"

definition malformed_required_field_probe :: "json \<Rightarrow> json option" where
  "malformed_required_field_probe schema =
     do {
       required \<leftarrow> Option.bind (jget schema ''required'') as_array;
       if required = [] then None
       else
         (let flds = List.map_filter as_str required;
              probe = map (\<lambda>f. (f, wrong_value (jget schema ''properties'') f)) flds
          in if probe = [] then None else Some (JObj probe))
     }"

definition can_return_irreversible :: "Tool \<Rightarrow> bool" where
  "can_return_irreversible tool =
     (if tl_risk_tier tool (JObj []) = IrreversibleWrite then True
      else case malformed_required_field_probe (tl_schema tool) of
             Some probe \<Rightarrow> tl_risk_tier tool probe = IrreversibleWrite
           | None \<Rightarrow> False)"

datatype allowlist_error = UnknownName string | AlwaysAsk string

fun validate_auto_approve :: "string list \<Rightarrow> registry \<Rightarrow> allowlist_error + string fset" where
  "validate_auto_approve [] registry = Inr {||}"
| "validate_auto_approve (name # names) registry =
     (case registry name of
        None \<Rightarrow> Inl (UnknownName name)
      | Some tool \<Rightarrow>
          if can_return_irreversible tool then Inl (AlwaysAsk name)
          else map_sum id (finsert name) (validate_auto_approve names registry))"

section \<open>Facts on one dispatch\<close>

lemma run_tool_effects:
  "run_tool ctx env name tier = (r, ctx', effs) \<Longrightarrow>
     \<exists>ok rev j. effs = [Execute name, Report name ok rev j] \<and> (ok \<longleftrightarrow> isl (ce_exec env) = False)"
  by (auto simp: run_tool_def Let_def split: sum.splits)

lemma run_tool_deletes:
  "run_tool ctx env name tier = (r, ctx', effs) \<Longrightarrow>
     tc_turn_deletes ctx' =
       (if \<not> isl (ce_exec env) \<and> name \<in> set RETIERED_DELETE_TOOLS then Suc (tc_turn_deletes ctx)
        else tc_turn_deletes ctx)"
  by (auto simp: run_tool_def Let_def split: sum.splits option.splits)

text \<open>The four ways a dispatch ends without running the tool, and the two ways it runs it.\<close>

lemma dispatch_cases:
  obtains (unknown) "registry name = None" "dispatch registry gate ctx env name args = (Inl (UnknownTool name), ctx, [])"
  | (stopped) tool where "registry name = Some tool" "effective_tier ctx name (tl_risk_tier tool args) \<noteq> Read"
      "name \<noteq> IS_COMPENSATION_TOOL" "ce_kill env"
      "dispatch registry gate ctx env name args =
         (Inr (WritesDisabled, False), ctx\<lparr>tc_last_journal_id := None\<rparr>, [Report name False False None])"
  | (blocked) tool where "registry name = Some tool" "tl_risk_tier tool args = Blocked"
      "dispatch registry gate ctx env name args = (Inl (BlockedTool name), ctx\<lparr>tc_last_journal_id := None\<rparr>, [])"
  | (declined) tool where "registry name = Some tool"
      "effective_tier ctx name (tl_risk_tier tool args) = IrreversibleWrite"
      "\<not> is_auto_approved gate name" "\<not> ce_approved env"
      "dispatch registry gate ctx env name args =
         (Inr (Declined, False), ctx\<lparr>tc_last_journal_id := None\<rparr>,
          [AskApproval name (ce_approval_id env) (approval_origin (tc_depth ctx) (tc_domain ctx))
             (tl_risk_tier tool args = ReversibleWrite), Report name False False None])"
  | (ran) tool r ctx' effs pre where "registry name = Some tool"
      "run_tool (ctx\<lparr>tc_last_journal_id := None\<rparr>) env name (tl_risk_tier tool args) = (r, ctx', effs)"
      "dispatch registry gate ctx env name args = (Inr r, ctx', pre @ effs)"
      "effective_tier ctx name (tl_risk_tier tool args) \<noteq> Blocked"
      "effective_tier ctx name (tl_risk_tier tool args) = Read \<or> name = IS_COMPENSATION_TOOL \<or> \<not> ce_kill env"
      "pre = (if effective_tier ctx name (tl_risk_tier tool args) = IrreversibleWrite \<and> \<not> is_auto_approved gate name
              then [AskApproval name (ce_approval_id env) (approval_origin (tc_depth ctx) (tc_domain ctx))
                      (tl_risk_tier tool args = ReversibleWrite)] else [])"
      "pre = [] \<or> ce_approved env"
proof (cases "registry name")
  case None
  then show ?thesis by (intro unknown) (simp_all add: dispatch_def)
next
  case (Some tool)
  let ?c = "ctx\<lparr>tc_last_journal_id := None\<rparr>"
  let ?eff = "effective_tier ctx name (tl_risk_tier tool args)"
  have eff: "effective_tier ?c n t = effective_tier ctx n t" for n t by (simp add: effective_tier_def)
  obtain r ctx' effs where rt: "run_tool ?c env name (tl_risk_tier tool args) = (r, ctx', effs)"
    by (cases "run_tool ?c env name (tl_risk_tier tool args)") auto
  show ?thesis
  proof (cases "?eff \<noteq> Read \<and> name \<noteq> IS_COMPENSATION_TOOL \<and> ce_kill env")
    case True
    with Some show ?thesis by (intro stopped) (auto simp: dispatch_def eff Let_def)
  next
    case alive: False
    show ?thesis
    proof (cases ?eff)
      case Blocked
      then have "tl_risk_tier tool args = Blocked" by (auto simp: effective_tier_def split: if_splits)
      with Some alive Blocked show ?thesis by (intro blocked) (auto simp: dispatch_def eff Let_def)
    next
      case IrreversibleWrite
      show ?thesis
      proof (cases "is_auto_approved gate name \<or> ce_approved env")
        case True
        with Some alive IrreversibleWrite rt show ?thesis
          by (intro ran [OF Some rt _ _ _ refl]) (auto simp: dispatch_def eff Let_def)
      next
        case False
        with Some alive IrreversibleWrite show ?thesis by (intro declined) (auto simp: dispatch_def eff Let_def)
      qed
    qed (use Some alive rt in \<open>auto simp: dispatch_def eff Let_def intro!: ran [OF Some rt _ _ _ refl]\<close>)
  qed
qed

lemma dispatch_gate_cases:
  assumes "dispatch registry gate ctx env name args = (r, ctx', effs)" and "Execute t \<in> set effs"
  shows "\<exists>tool ask ok rev j.
    registry name = Some tool \<and> t = name \<and> tl_risk_tier tool args \<noteq> Blocked \<and>
    (tl_risk_tier tool args = Read \<or> name = IS_COMPENSATION_TOOL \<or> \<not> ce_kill env) \<and>
    effs = ask @ [Execute name, Report name ok rev j] \<and>
    (effective_tier ctx name (tl_risk_tier tool args) = IrreversibleWrite \<longrightarrow>
       is_auto_approved gate name \<or>
       ce_approved env \<and>
       ask = [AskApproval name (ce_approval_id env) (approval_origin (tc_depth ctx) (tc_domain ctx))
                (tl_risk_tier tool args = ReversibleWrite)])"
proof (rule dispatch_cases [of registry name gate ctx env args])
  fix tool r' ctx'' es pre
  assume a: "registry name = Some tool"
    "run_tool (ctx\<lparr>tc_last_journal_id := None\<rparr>) env name (tl_risk_tier tool args) = (r', ctx'', es)"
    "dispatch registry gate ctx env name args = (Inr r', ctx'', pre @ es)"
    "effective_tier ctx name (tl_risk_tier tool args) \<noteq> Blocked"
    "effective_tier ctx name (tl_risk_tier tool args) = Read \<or> name = IS_COMPENSATION_TOOL \<or> \<not> ce_kill env"
    and pre: "pre = (if effective_tier ctx name (tl_risk_tier tool args) = IrreversibleWrite \<and> \<not> is_auto_approved gate name
              then [AskApproval name (ce_approval_id env) (approval_origin (tc_depth ctx) (tc_domain ctx))
                      (tl_risk_tier tool args = ReversibleWrite)] else [])" "pre = [] \<or> ce_approved env"
  from run_tool_effects [OF a(2)] obtain ok rev j where es: "es = [Execute name, Report name ok rev j]" by blast
  have "tl_risk_tier tool args \<noteq> Blocked"
    "effective_tier ctx name (tl_risk_tier tool args) = Read \<Longrightarrow> tl_risk_tier tool args = Read"
    using a(4) by (auto simp: effective_tier_def split: if_splits)
  with a es pre assms show ?thesis by (intro exI [of _ tool] exI [of _ pre] exI [of _ ok] exI [of _ rev] exI [of _ j])
      (auto split: if_splits)
qed (use assms in auto)

text \<open>The guard along a turn: \<open>guard_hist\<close> is the last call let through, if any.\<close>

definition guard_hist :: "LoopGuard \<Rightarrow> (string \<times> string) list" where
  "guard_hist g = (case lg_last g of None \<Rightarrow> [] | Some c \<Rightarrow> [c])"

lemma lg_run_spec:
  assumes "lg_count g \<le> lg_limit g"
  shows "unat (lg_count g) + length (lg_run g calls) \<le> unat (lg_limit g) \<and>
    distinct_adj (guard_hist g @ lg_run g calls) \<and>
    (\<exists>rest. calls = lg_run g calls @ rest \<and>
       (rest = [] \<or> unat (lg_count g) + length (lg_run g calls) = unat (lg_limit g) \<or>
        (\<exists>c rest'. rest = c # rest' \<and> guard_hist g @ lg_run g calls \<noteq> [] \<and>
           last (guard_hist g @ lg_run g calls) = c)))"
  using assms
proof (induction calls arbitrary: g)
  case Nil
  then show ?case by (simp add: guard_hist_def word_le_nat_alt split: option.splits)
next
  case (Cons c calls)
  obtain tool args where c: "c = (tool, args)" by (cases c)
  show ?case
  proof (cases "lg_check g tool args")
    case (Inl e)
    then consider "lg_last g = Some c" | "lg_count g = lg_limit g"
      using Cons.prems by (auto simp: lg_check_def c split: if_splits)
    then show ?thesis using Inl Cons.prems
      by cases (auto simp: c guard_hist_def word_le_nat_alt split: option.splits)
  next
    case (Inr g')
    then have ok: "lg_last g \<noteq> Some c" "lg_count g < lg_limit g"
      and g': "g' = g\<lparr>lg_last := Some c, lg_count := lg_count g + 1\<rparr>"
      by (auto simp: lg_check_def c split: if_splits)
    have lt: "unat (lg_count g) < unat (lg_limit g)" using ok(2) by (simp add: word_less_nat_alt)
    have cnt: "unat (lg_count g + 1) = Suc (unat (lg_count g))"
      using lt unsigned_less [of "lg_limit g", where ?'a = nat] by (intro unat_add_1) simp
    have "lg_count g' \<le> lg_limit g'" using lt cnt by (simp add: g' word_le_nat_alt)
    note IH = Cons.IH [OF this]
    have run: "lg_run g (c # calls) = c # lg_run g' calls" by (simp add: c Inr [unfolded c])
    have hist: "guard_hist g' = [c]" by (simp add: g' guard_hist_def)
    have "distinct_adj (guard_hist g @ c # lg_run g' calls)"
      using IH ok(1) by (auto simp: hist guard_hist_def [of g] distinct_adj_Cons split: option.splits)
    with IH lt show ?thesis unfolding run hist by (auto simp: g' cnt)
  qed
qed

section \<open>Properties\<close>

text \<open>
  Property C2: no write runs past the gate. If a dispatch executes its tool, the tool is registered and not
  \<open>Blocked\<close>; unless it is a read (or the undo tool) the kill switch was off; and an irreversible write,
  or a delete beyond the per-turn cap, was first put to the user and approved, or is on the auto-approve
  list. The request comes before the execution, and the tool is executed at most once.
\<close>

theorem dispatch_gate:
  assumes "dispatch registry gate ctx env name args = (r, ctx', effs)" and "Execute t \<in> set effs"
  shows "\<exists>tool ask ok rev j.
    registry name = Some tool \<and> t = name \<and> tl_risk_tier tool args \<noteq> Blocked \<and>
    (tl_risk_tier tool args = Read \<or> name = IS_COMPENSATION_TOOL \<or> \<not> ce_kill env) \<and>
    effs = ask @ [Execute name, Report name ok rev j] \<and>
    (effective_tier ctx name (tl_risk_tier tool args) = IrreversibleWrite \<longrightarrow>
       is_auto_approved gate name \<or>
       ce_approved env \<and>
       ask = [AskApproval name (ce_approval_id env) (approval_origin (tc_depth ctx) (tc_domain ctx))
                (tl_risk_tier tool args = ReversibleWrite)])"
  using assms by (rule dispatch_gate_cases)

definition example_registry :: registry where
  "example_registry name =
     (if name = ''http_request'' then Some \<lparr>tl_risk_tier = (\<lambda>_. IrreversibleWrite), tl_schema = JNull\<rparr>
      else if name = ''task_delete'' then Some \<lparr>tl_risk_tier = (\<lambda>_. ReversibleWrite), tl_schema = JNull\<rparr>
      else None)"

definition example_ctx :: ToolCtx where
  "example_ctx = \<lparr>tc_turn_deletes = 0, tc_last_journal_id = None, tc_depth = 0, tc_domain = None\<rparr>"

definition example_env :: call_env where
  "example_env = \<lparr>ce_kill = False, ce_approval_id = 3, ce_approved = True, ce_exec = Inr ''ok'', ce_journal = None\<rparr>"

theorem dispatch_gate_witness:
  "\<exists>ask ok rev j. snd (snd (dispatch example_registry broker_new example_ctx example_env ''http_request'' JNull))
     = ask @ [Execute ''http_request'', Report ''http_request'' ok rev j] \<and> ask \<noteq> []"
proof -
  have "dispatch example_registry broker_new example_ctx example_env ''http_request'' JNull =
      (Inr (Output ''ok'', True), example_ctx,
       [AskApproval ''http_request'' 3 ''L0'' False, Execute ''http_request'', Report ''http_request'' True False None])"
    by (simp add: dispatch_def example_registry_def example_ctx_def example_env_def effective_tier_def
        is_auto_approved_def broker_new_def with_auto_approve_def run_tool_def approval_origin_def
        RETIERED_DELETE_TOOLS_def IS_COMPENSATION_TOOL_def)
  from dispatch_gate [OF this, of "''http_request''"] this show ?thesis
    by (auto simp: example_registry_def effective_tier_def is_auto_approved_def broker_new_def
        with_auto_approve_def)
qed

text \<open>A successful delete that ran on its own, without being put to the user.\<close>

definition auto_delete :: "registry \<Rightarrow> call \<times> dispatch_effect list \<Rightarrow> bool" where
  "auto_delete registry = (\<lambda>((env, name, args), effs).
     name \<in> set RETIERED_DELETE_TOOLS \<and> map_option (\<lambda>t. tl_risk_tier t args) (registry name) = Some ReversibleWrite \<and>
     Execute name \<in> set effs \<and> \<not> isl (ce_exec env) \<and> (\<forall>a i d b. AskApproval a i d b \<notin> set effs))"

lemma dispatch_deletes_mono:
  "tc_turn_deletes ctx \<le> tc_turn_deletes (fst (snd (dispatch registry gate ctx env name args)))"
proof (rule dispatch_cases [of registry name gate ctx env args])
  fix tool r ctx' effs pre
  assume "run_tool (ctx\<lparr>tc_last_journal_id := None\<rparr>) env name (tl_risk_tier tool args) = (r, ctx', effs)"
    "dispatch registry gate ctx env name args = (Inr r, ctx', pre @ effs)"
  then show ?thesis using run_tool_deletes by fastforce
qed simp_all

lemma auto_delete_counts:
  assumes "auto_delete registry ((env, name, args), snd (snd (dispatch registry gate ctx env name args)))"
    and "\<not> is_auto_approved gate name"
  shows "tc_turn_deletes ctx < MAX_AUTO_DELETES_PER_TURN \<and>
    tc_turn_deletes (fst (snd (dispatch registry gate ctx env name args))) = Suc (tc_turn_deletes ctx)"
  using assms(1)
proof (rule_tac dispatch_cases [of registry name gate ctx env args])
  fix tool r ctx' effs pre
  assume d: "auto_delete registry ((env, name, args), snd (snd (dispatch registry gate ctx env name args)))"
    and a: "registry name = Some tool"
    "run_tool (ctx\<lparr>tc_last_journal_id := None\<rparr>) env name (tl_risk_tier tool args) = (r, ctx', effs)"
    "dispatch registry gate ctx env name args = (Inr r, ctx', pre @ effs)"
    "pre = (if effective_tier ctx name (tl_risk_tier tool args) = IrreversibleWrite \<and> \<not> is_auto_approved gate name
              then [AskApproval name (ce_approval_id env) (approval_origin (tc_depth ctx) (tc_domain ctx))
                      (tl_risk_tier tool args = ReversibleWrite)] else [])"
  from d a assms(2) have "effective_tier ctx name (tl_risk_tier tool args) \<noteq> IrreversibleWrite"
    by (auto simp: auto_delete_def split: if_splits)
  with d a(1) have "tc_turn_deletes ctx < MAX_AUTO_DELETES_PER_TURN"
    by (auto simp: auto_delete_def effective_tier_def split: if_splits)
  moreover have "tc_turn_deletes ctx' = Suc (tc_turn_deletes ctx)"
    using run_tool_deletes [OF a(2)] d by (simp add: auto_delete_def)
  ultimately show ?thesis using a(3) by simp
qed (auto simp: auto_delete_def)

lemma auto_deletes_bounded:
  assumes "\<And>name. name \<in> set RETIERED_DELETE_TOOLS \<Longrightarrow> \<not> is_auto_approved gate name"
  shows "length (filter (auto_delete registry) (dispatch_all registry gate ctx calls))
    \<le> MAX_AUTO_DELETES_PER_TURN - tc_turn_deletes ctx"
proof (induction calls arbitrary: ctx)
  case (Cons c calls)
  obtain env name args where c: "c = (env, name, args)" by (cases c) auto
  let ?d = "dispatch registry gate ctx env name args"
  have IH: "length (filter (auto_delete registry) (dispatch_all registry gate (fst (snd ?d)) calls))
      \<le> MAX_AUTO_DELETES_PER_TURN - tc_turn_deletes (fst (snd ?d))" by (rule Cons.IH)
  show ?case
  proof (cases "auto_delete registry ((env, name, args), snd (snd ?d))")
    case True
    then have "name \<in> set RETIERED_DELETE_TOOLS" by (auto simp: auto_delete_def)
    from auto_delete_counts [OF True assms [OF this]] IH
    have "Suc (length (filter (auto_delete registry) (dispatch_all registry gate (fst (snd ?d)) calls)))
        \<le> MAX_AUTO_DELETES_PER_TURN - tc_turn_deletes ctx" by linarith
    with True show ?thesis by (simp add: c case_prod_beta)
  next
    case False
    with IH dispatch_deletes_mono [of ctx registry gate env name args] show ?thesis
      by (simp add: c case_prod_beta)
  qed
qed simp



text \<open>
  The proviso matters: the validation of the list rejects tools that can return \<open>IrreversibleWrite\<close>,
  and the delete tools no longer do. A listed delete tool is never put to the user.
\<close>

lemma validated_list_lifts_cap:
  "validate_auto_approve [''task_delete''] example_registry = Inr {|''task_delete''|} \<and>
   length (filter (auto_delete example_registry)
     (dispatch_all example_registry (with_auto_approve {|''task_delete''|}) example_ctx
       (replicate 7 (example_env, ''task_delete'', JNull)))) = 7"
  by (simp add: numeral_eq_Suc can_return_irreversible_def malformed_required_field_probe_def
      example_registry_def dispatch_def
      example_ctx_def example_env_def effective_tier_def is_auto_approved_def with_auto_approve_def
      run_tool_def auto_delete_def RETIERED_DELETE_TOOLS_def IS_COMPENSATION_TOOL_def
      MAX_AUTO_DELETES_PER_TURN_def)

lemma validated_not_irreversible:
  "validate_auto_approve names registry = Inr V \<Longrightarrow> name |\<in>| V \<Longrightarrow>
   \<exists>tool. registry name = Some tool \<and> \<not> can_return_irreversible tool"
  by (induction names arbitrary: V)
    (auto simp: map_sum_def split: option.splits if_splits sum.splits)

text \<open>
  Property C20: an always-ask tool is never allowlisted away. Under an allowlist that passed the startup
  validation, a tool whose tier is \<open>IrreversibleWrite\<close> for all arguments executes only after the
  request of this very call was put to the user and approved, whatever the allowlist contains.
\<close>

theorem irreversible_always_asks:
  assumes "validate_auto_approve names registry = Inr V" and "registry name = Some tool"
    and "\<forall>a. tl_risk_tier tool a = IrreversibleWrite"
    and "dispatch registry (with_auto_approve V) ctx env name args = (r, ctx', effs)" and "Execute t \<in> set effs"
  shows "ce_approved env \<and> \<not> (ce_kill env \<and> name \<noteq> IS_COMPENSATION_TOOL) \<and>
    (\<exists>ok rev j. effs = [AskApproval name (ce_approval_id env) (approval_origin (tc_depth ctx) (tc_domain ctx)) False,
       Execute name, Report name ok rev j])"
proof -
  have "name |\<notin>| V"
    using validated_not_irreversible [OF assms(1), of name] assms(2,3) by (auto simp: can_return_irreversible_def)
  with dispatch_gate_cases [OF assms(4,5)] assms(2,3) show ?thesis
    by (auto simp: is_auto_approved_def with_auto_approve_def effective_tier_def)
qed

theorem irreversible_always_asks_witness:
  "\<exists>ok rev j. snd (snd (dispatch example_registry (with_auto_approve {|''task_delete''|}) example_ctx example_env
       ''http_request'' JNull))
     = [AskApproval ''http_request'' 3 ''L0'' False, Execute ''http_request'', Report ''http_request'' ok rev j]"
proof -
  have v: "validate_auto_approve [''task_delete''] example_registry = Inr {|''task_delete''|}"
    by (simp add: can_return_irreversible_def malformed_required_field_probe_def example_registry_def)
  have t: "example_registry ''http_request'' = Some \<lparr>tl_risk_tier = (\<lambda>_. IrreversibleWrite), tl_schema = JNull\<rparr>"
    by (simp add: example_registry_def)
  have d: "dispatch example_registry (with_auto_approve {|''task_delete''|}) example_ctx example_env ''http_request'' JNull =
      (Inr (Output ''ok'', True), example_ctx,
       [AskApproval ''http_request'' 3 ''L0'' False, Execute ''http_request'', Report ''http_request'' True False None])"
    by (simp add: dispatch_def example_registry_def example_ctx_def example_env_def effective_tier_def
        is_auto_approved_def with_auto_approve_def run_tool_def approval_origin_def
        RETIERED_DELETE_TOOLS_def IS_COMPENSATION_TOOL_def)
  have "Execute ''http_request'' \<in> set [AskApproval ''http_request'' 3 ''L0'' False, Execute ''http_request'',
      Report ''http_request'' True False None]" by simp
  from irreversible_always_asks [OF v t _ d this] d show ?thesis by (simp add: example_env_def example_ctx_def approval_origin_def)
qed

text \<open>
  A turn cannot loop on tools. Whatever calls the model asks for, a turn's guard lets at most
  its limit of them through (ten for a chat turn), never the same call twice in a row, and it ends the
  turn exactly at the first call that repeats its predecessor or exceeds the limit.
\<close>

lemma loop_guard_bounds:
  "length (lg_run (lg_with_limit limit) calls) \<le> unat limit \<and>
   distinct_adj (lg_run (lg_with_limit limit) calls) \<and>
   (\<exists>rest. calls = lg_run (lg_with_limit limit) calls @ rest \<and>
      (rest = [] \<or> length (lg_run (lg_with_limit limit) calls) = unat limit \<or>
       (\<exists>c rest'. rest = c # rest' \<and> lg_run (lg_with_limit limit) calls \<noteq> [] \<and>
          last (lg_run (lg_with_limit limit) calls) = c)))"
  using lg_run_spec [of "lg_with_limit limit" calls] by (simp add: lg_with_limit_def guard_hist_def)

end
