(* ===== verification/KeyRotation.thy ===== *)
theory KeyRotation
  imports Prelude
begin

text \<open>
  The cloud client's use of its API keys: the circuit breaker kept per key
  (\<open>crates/haily-llm/src/breaker.rs\<close>) and the rotation over the keys in \<open>complete\<close> and
  \<open>complete_stream\<close> (\<open>crates/haily-llm/src/cloud.rs\<close>). What a request to the server returns is an argument
  of the model.
\<close>

section \<open>Circuit breaker\<close>

definition FAILURE_THRESHOLD :: "8 word" where "FAILURE_THRESHOLD = 3"
definition OPEN_DURATION :: duration where "OPEN_DURATION = from_secs 30"

record KeyBreaker =
  kb_consecutive_failures :: "8 word"
  kb_open_until :: "instant option"
  kb_probe_in_flight :: bool

definition kb_new :: KeyBreaker where
  "kb_new = \<lparr>kb_consecutive_failures = 0, kb_open_until = None, kb_probe_in_flight = False\<rparr>"

definition breaker_new :: "nat \<Rightarrow> KeyBreaker list" where
  "breaker_new key_count = replicate key_count kb_new"

datatype Admission = Allowed | Blocked | Probing

definition try_acquire :: "KeyBreaker \<Rightarrow> instant \<Rightarrow> Admission \<times> KeyBreaker" where
  "try_acquire b now =
     (case kb_open_until b of
        None \<Rightarrow> (Allowed, b)
      | Some until \<Rightarrow>
          if now < until then (Blocked, b)
          else if \<not> kb_probe_in_flight b then (Probing, b\<lparr>kb_probe_in_flight := True\<rparr>)
          else (Blocked, b))"

definition record_success :: "KeyBreaker \<Rightarrow> KeyBreaker" where
  "record_success b =
     b\<lparr>kb_consecutive_failures := 0, kb_open_until := None, kb_probe_in_flight := False\<rparr>"

text \<open>The addition in the comparison is the release build's wrapping one.\<close>

definition record_failure :: "KeyBreaker \<Rightarrow> instant \<Rightarrow> KeyBreaker" where
  "record_failure b now =
     (let prev = kb_consecutive_failures b;
          b1 = b\<lparr>kb_consecutive_failures := prev + 1\<rparr>;
          b2 = (if prev + 1 \<ge> FAILURE_THRESHOLD
                then b1\<lparr>kb_open_until := Some (now + OPEN_DURATION)\<rparr> else b1)
      in b2\<lparr>kb_probe_in_flight := False\<rparr>)"

definition record_inconclusive :: "KeyBreaker \<Rightarrow> KeyBreaker" where
  "record_inconclusive b = b\<lparr>kb_probe_in_flight := False\<rparr>"

text \<open>Events on one key, in the order they happen.\<close>

datatype breaker_event = Acquire instant | Success | Failure instant | Inconclusive

fun breaker_apply :: "KeyBreaker \<Rightarrow> breaker_event \<Rightarrow> KeyBreaker" where
  "breaker_apply b (Acquire now) = snd (try_acquire b now)"
| "breaker_apply b Success = record_success b"
| "breaker_apply b (Failure now) = record_failure b now"
| "breaker_apply b Inconclusive = record_inconclusive b"

section \<open>Key rotation\<close>

datatype 'a KeyOutcome = KSuccess 'a | RateLimited | TransportError string | HttpError string

datatype cloud_error = NoKeys | AllKeysExhausted | RequestFailed string

text \<open>
  The loop of \<open>complete\<close> and \<open>complete_stream\<close> over the key indices. \<open>outcome idx\<close> is what a request with
  that key returns, \<open>t\<close> gives the time of each look at the breaker and each failure. The result comes
  with the breakers and the indices of the keys that were used.
\<close>

fun rotate :: "(nat \<Rightarrow> 'a KeyOutcome) \<Rightarrow> (nat \<Rightarrow> instant) \<Rightarrow> KeyBreaker list \<Rightarrow> nat list
    \<Rightarrow> (cloud_error + 'a) \<times> KeyBreaker list \<times> nat list" where
  "rotate outcome t bs [] = (Inl AllKeysExhausted, bs, [])"
| "rotate outcome t bs (idx # rest) =
     (let (adm, b) = try_acquire (bs ! idx) (t idx); bs = bs[idx := b]
      in if adm = Blocked then rotate outcome t bs rest
         else case outcome idx of
                KSuccess v \<Rightarrow> (Inr v, bs[idx := record_success b], [idx])
              | RateLimited \<Rightarrow>
                  (let (r, bs', used) = rotate outcome t (bs[idx := record_inconclusive b]) rest
                   in (r, bs', idx # used))
              | TransportError e \<Rightarrow> (Inl (RequestFailed e), bs[idx := record_failure b (t idx)], [idx])
              | HttpError e \<Rightarrow> (Inl (RequestFailed e), bs[idx := record_inconclusive b], [idx]))"

record CloudClient =
  cc_keys :: nat
  cc_next_key_idx :: u64
  cc_breaker :: "KeyBreaker list"

definition complete :: "(nat \<Rightarrow> 'a KeyOutcome) \<Rightarrow> (nat \<Rightarrow> instant) \<Rightarrow> CloudClient
    \<Rightarrow> (cloud_error + 'a) \<times> CloudClient \<times> nat list" where
  "complete outcome t c =
     (let n = cc_keys c in
      if n = 0 then (Inl NoKeys, c, [])
      else (let start = unat (cc_next_key_idx c) mod n;
                (r, bs, used) = rotate outcome t (cc_breaker c) (map (\<lambda>i. (start + i) mod n) [0..<n])
            in (r, c\<lparr>cc_next_key_idx := cc_next_key_idx c + 1, cc_breaker := bs\<rparr>, used)))"

section \<open>The breaker's contract\<close>

text \<open>
  What the breaker promises, without its representation: the failures since the last success, the time of
  the last failure and whether a probe is out. Three failures close the key for the open duration; after
  that one caller at a time may probe.
\<close>

record breaker_spec =
  bp_streak :: nat
  bp_last :: instant
  bp_probe :: bool

definition bp_init :: breaker_spec where
  "bp_init = \<lparr>bp_streak = 0, bp_last = 0, bp_probe = False\<rparr>"

definition bp_admit :: "breaker_spec \<Rightarrow> instant \<Rightarrow> Admission" where
  "bp_admit a now =
     (if bp_streak a < 3 then Allowed
      else if now < bp_last a + from_secs 30 \<or> bp_probe a then Blocked else Probing)"

fun bp_apply :: "breaker_spec \<Rightarrow> breaker_event \<Rightarrow> breaker_spec" where
  "bp_apply a (Acquire now) = a\<lparr>bp_probe := bp_probe a \<or> bp_admit a now = Probing\<rparr>"
| "bp_apply a Success = a\<lparr>bp_streak := 0, bp_probe := False\<rparr>"
| "bp_apply a (Failure now) = a\<lparr>bp_streak := bp_streak a + 1, bp_last := now, bp_probe := False\<rparr>"
| "bp_apply a Inconclusive = a\<lparr>bp_probe := False\<rparr>"

definition refines :: "KeyBreaker \<Rightarrow> breaker_spec \<Rightarrow> bool" where
  "refines b a \<longleftrightarrow>
     unat (kb_consecutive_failures b) = bp_streak a \<and>
     kb_open_until b = (if bp_streak a < 3 then None else Some (bp_last a + from_secs 30)) \<and>
     kb_probe_in_flight b = bp_probe a \<and> (bp_streak a < 3 \<longrightarrow> \<not> bp_probe a)"

lemma refines_admit: "refines b a \<Longrightarrow> fst (try_acquire b now) = bp_admit a now"
  by (auto simp: refines_def try_acquire_def bp_admit_def split: option.splits)

lemma refines_apply:
  assumes "refines b a" "bp_streak (bp_apply a ev) < 256"
  shows "refines (breaker_apply b ev) (bp_apply a ev)"
proof (cases ev)
  case (Failure now)
  have "unat (kb_consecutive_failures b + 1) = Suc (bp_streak a)"
    using assms Failure by (subst unat_add_1) (simp_all add: refines_def)
  then show ?thesis using assms Failure
    by (auto simp: refines_def record_failure_def Let_def FAILURE_THRESHOLD_def OPEN_DURATION_def word_le_nat_alt)
qed (use assms in \<open>auto simp: refines_def record_success_def record_inconclusive_def try_acquire_def
      bp_admit_def split: option.splits\<close>)

text \<open>The streak along a history stays below the counter's range.\<close>

fun streaks_fit :: "breaker_spec \<Rightarrow> breaker_event list \<Rightarrow> bool" where
  "streaks_fit a [] \<longleftrightarrow> True"
| "streaks_fit a (ev # evs) \<longleftrightarrow> bp_streak (bp_apply a ev) < 256 \<and> streaks_fit (bp_apply a ev) evs"

lemma refines_run:
  "refines b a \<Longrightarrow> streaks_fit a evs \<Longrightarrow> refines (foldl breaker_apply b evs) (foldl bp_apply a evs)"
  by (induction evs arbitrary: a b) (auto simp: refines_apply)

section \<open>Properties\<close>

text \<open>
  Property C23: the circuit breaker implements its contract. After any history of acquisitions and reported
  outcomes in which no more than 255 failures follow each other, a key is admitted freely exactly when fewer than
  three failures were reported since its last success; otherwise it is blocked for thirty seconds after
  the last failure and then let through for one probe at a time.
\<close>

theorem breaker_implements_contract:
  assumes "streaks_fit bp_init evs"
  shows "fst (try_acquire (foldl breaker_apply kb_new evs) now) = bp_admit (foldl bp_apply bp_init evs) now"
  by (rule refines_admit, rule refines_run)
    (use assms in \<open>simp_all add: refines_def kb_new_def bp_init_def\<close>)

theorem breaker_implements_contract_witness:
  "fst (try_acquire (foldl breaker_apply kb_new [Failure 0, Failure 1, Failure 2, Acquire (from_secs 40)]) (from_secs 41))
     = Blocked"
proof -
  have "streaks_fit bp_init [Failure 0, Failure 1, Failure 2, Acquire (from_secs 40)]"
    by (simp add: bp_init_def)
  from breaker_implements_contract [OF this, of "from_secs 41"] show ?thesis
    by (simp add: bp_init_def bp_admit_def time_simps)
qed

text \<open>
  Two limits of the contract. The counter has eight bits: the 256th failure in a row wraps it to zero
  and does not close the key again. A probe that is never reported leaves the key blocked for good,
  whatever is acquired later.
\<close>

lemma breaker_counter_wraps:
  assumes "kb_consecutive_failures b = - 1" "kb_open_until b = Some u" "u \<le> now"
  shows "fst (try_acquire (record_failure b now) now) = Probing"
  using assms by (simp add: record_failure_def try_acquire_def FAILURE_THRESHOLD_def Let_def)

lemma lost_probe_blocks:
  assumes "try_acquire b now = (Probing, b')"
  shows "fst (try_acquire (foldl breaker_apply b' (map Acquire ts)) t) = Blocked"
proof -
  from assms obtain w where b': "kb_open_until b' = Some w" "kb_probe_in_flight b'"
    by (auto simp: try_acquire_def split: option.splits if_splits)
  then have "foldl breaker_apply b' (map Acquire ts) = b'"
    by (induction ts) (auto simp: try_acquire_def)
  with b' show ?thesis by (simp add: try_acquire_def)
qed

section \<open>Rotation\<close>

text \<open>The keys a request may use, in the order the loop comes to them.\<close>

definition rotation :: "nat \<Rightarrow> nat \<Rightarrow> nat list" where
  "rotation start n = map (\<lambda>i. (start + i) mod n) [0..<n]"

lemma mod_shift_inj: "inj_on (\<lambda>i. (s + i) mod n) {0..<n}" for n s :: nat
proof (rule inj_onI)
  fix i j assume ij: "i \<in> {0..<n}" "j \<in> {0..<n}" and eq: "(s + i) mod n = (s + j) mod n"
  from eq obtain q r where "s + i + n * q = s + j + n * r" by (auto simp: nat_mod_eq_iff)
  then have "i mod n = j mod n" by (auto simp: nat_mod_eq_iff)
  with ij show "i = j" by simp
qed

lemma distinct_rotation: "distinct (rotation start n)"
  using mod_shift_inj [of start n] by (simp add: rotation_def distinct_map)

lemma set_rotation: "set (rotation start n) = {..<n}"
proof -
  have "set (rotation start n) \<subseteq> {..<n}" by (auto simp: rotation_def intro!: mod_less_divisor)
  moreover have "card (set (rotation start n)) = n"
    using distinct_card [OF distinct_rotation, of start n] by (simp add: rotation_def)
  ultimately show ?thesis by (intro card_subset_eq) simp_all
qed

text \<open>
  The reference for the loop: of the keys the breakers admit, those that answer 429 are passed over and
  the first that does not is the last one used.
\<close>

definition usable :: "(nat \<Rightarrow> instant) \<Rightarrow> KeyBreaker list \<Rightarrow> nat list \<Rightarrow> nat list" where
  "usable t bs order = filter (\<lambda>i. fst (try_acquire (bs ! i) (t i)) \<noteq> Blocked) order"

definition limited :: "(nat \<Rightarrow> 'a KeyOutcome) \<Rightarrow> nat \<Rightarrow> bool" where
  "limited outcome i \<longleftrightarrow> outcome i = RateLimited"

fun verdict :: "'a KeyOutcome list \<Rightarrow> cloud_error + 'a" where
  "verdict (KSuccess v # _) = Inr v"
| "verdict (TransportError e # _) = Inl (RequestFailed e)"
| "verdict (HttpError e # _) = Inl (RequestFailed e)"
| "verdict _ = Inl AllKeysExhausted"

lemma usable_update:
  assumes "idx \<notin> set rest"
  shows "usable t (bs[idx := x]) rest = usable t bs rest"
proof -
  have "bs[idx := x] ! i = bs ! i" if "i \<in> set rest" for i
    using assms that by (cases "i = idx") auto
  then show ?thesis unfolding usable_def by (intro filter_cong refl) simp
qed

lemma blocked_unchanged: "fst (try_acquire b now) = Blocked \<Longrightarrow> snd (try_acquire b now) = b"
  by (auto simp: try_acquire_def split: option.splits if_splits)

lemma reported_releases:
  "\<not> kb_probe_in_flight (record_success b)" "\<not> kb_probe_in_flight (record_failure b now)"
  "\<not> kb_probe_in_flight (record_inconclusive b)"
  by (simp_all add: record_success_def record_failure_def record_inconclusive_def Let_def)

lemma length_rotate: "length (fst (snd (rotate outcome t bs order))) = length bs"
  by (induction order arbitrary: bs) (auto simp: case_prod_beta Let_def split: KeyOutcome.splits)

lemma rotate_reference:
  assumes "distinct order"
  shows "snd (snd (rotate outcome t bs order)) =
           takeWhile (limited outcome) (usable t bs order) @
           take 1 (dropWhile (limited outcome) (usable t bs order))"
    and "fst (rotate outcome t bs order) =
           verdict (map outcome (dropWhile (limited outcome) (usable t bs order)))"
  using assms
proof (induction order arbitrary: bs)
  case (Cons idx rest)
  {
    case 1
    then have "idx \<notin> set rest" "distinct rest" by simp_all
    then show ?case
      by (cases "outcome idx")
        (auto simp: Cons.IH(1) usable_update usable_update [unfolded usable_def] usable_def limited_def case_prod_beta Let_def)
  next
    case 2
    then have "idx \<notin> set rest" "distinct rest" by simp_all
    then show ?case
      by (cases "outcome idx")
        (auto simp: Cons.IH(2) usable_update usable_update [unfolded usable_def] usable_def limited_def case_prod_beta Let_def)
  }
qed (simp_all add: usable_def)

lemma rotate_used: "set (snd (snd (rotate outcome t bs order))) \<subseteq> set order"
proof (induction order arbitrary: bs)
  case (Cons idx rest)
  have "set (snd (snd (rotate outcome t bs' rest))) \<subseteq> insert idx (set rest)" for bs'
    using Cons.IH [of bs'] by blast
  then show ?case by (cases "outcome idx") (simp_all add: case_prod_beta Let_def)
qed simp

lemma rotate_frame:
  "i \<notin> set (snd (snd (rotate outcome t bs order))) \<Longrightarrow>
     fst (snd (rotate outcome t bs order)) ! i = bs ! i"
proof (induction order arbitrary: bs)
  case (Cons idx rest)
  show ?case
  proof (cases "fst (try_acquire (bs ! idx) (t idx)) = Blocked")
    case True
    with Cons show ?thesis by (simp add: case_prod_beta Let_def blocked_unchanged)
  next
    case False
    with Cons.prems show ?thesis
      by (cases "outcome idx") (auto simp: case_prod_beta Let_def Cons.IH)
  qed
qed simp

lemma rotate_releases:
  assumes "distinct order" "\<forall>i\<in>set order. i < length bs"
    and "i \<in> set (snd (snd (rotate outcome t bs order)))"
  shows "\<not> kb_probe_in_flight (fst (snd (rotate outcome t bs order)) ! i)"
  using assms
proof (induction order arbitrary: bs)
  case (Cons idx rest)
  then have idx: "idx < length bs" "idx \<notin> set rest" by simp_all
  let ?b = "snd (try_acquire (bs ! idx) (t idx))"
  have IH: "\<not> kb_probe_in_flight (fst (snd (rotate outcome t (bs[idx := x]) rest)) ! i)"
    if "i \<in> set (snd (snd (rotate outcome t (bs[idx := x]) rest)))" for x
    using Cons.IH [of "bs[idx := x]"] Cons.prems that by simp
  have here: "fst (snd (rotate outcome t (bs[idx := x]) rest)) ! idx = x" for x
    using idx rotate_used [of outcome t "bs[idx := x]" rest] by (subst rotate_frame) auto
  show ?case
    using Cons.prems(3) IH here idx reported_releases
    by (cases "fst (try_acquire (bs ! idx) (t idx)) = Blocked"; cases "outcome idx")
      (auto simp: case_prod_beta Let_def)
qed simp

text \<open>
  Property C22: one call of the cloud client tries its keys round-robin from the rotating start. A key the
  breaker blocks is never used, keys that answer 429 are passed over, and the first other answer is
  the call's result; with none left the call reports that all keys are exhausted. No key is used twice,
  the breaker of an unused key is untouched, and every used key has its probe slot back.
\<close>

theorem key_rotation:
  assumes keys: "cc_keys c = length (cc_breaker c)" "cc_keys c > 0"
    and call: "complete outcome t c = (r, c', used)"
  shows "let order = rotation (unat (cc_next_key_idx c) mod cc_keys c) (cc_keys c);
             admitted = usable t (cc_breaker c) order;
             answered = dropWhile (limited outcome) admitted
         in used = takeWhile (limited outcome) admitted @ take 1 answered \<and>
            r = verdict (map outcome answered) \<and>
            distinct used \<and>
            (\<forall>i. i \<notin> set used \<longrightarrow> cc_breaker c' ! i = cc_breaker c ! i) \<and>
            (\<forall>i. i \<in> set used \<longrightarrow> \<not> kb_probe_in_flight (cc_breaker c' ! i))"
proof -
  define order where "order = rotation (unat (cc_next_key_idx c) mod cc_keys c) (cc_keys c)"
  let ?adm = "usable t (cc_breaker c) order" and ?R = "rotate outcome t (cc_breaker c) order"
  have res: "r = fst ?R" "used = snd (snd ?R)" "cc_breaker c' = fst (snd ?R)"
    using keys call unfolding order_def by (auto simp: complete_def rotation_def case_prod_beta Let_def)
  have ord: "distinct order" "\<forall>i\<in>set order. i < length (cc_breaker c)"
    using keys(1) unfolding order_def by (simp_all add: distinct_rotation set_rotation)
  have used: "used = takeWhile (limited outcome) ?adm @ take 1 (dropWhile (limited outcome) ?adm)"
    unfolding res by (rule rotate_reference(1) [OF ord(1)])
  have "distinct (takeWhile (limited outcome) ?adm @ dropWhile (limited outcome) ?adm)"
    using ord(1) by (simp add: usable_def)
  then have "distinct (takeWhile (limited outcome) ?adm)" "distinct (dropWhile (limited outcome) ?adm)"
      "set (takeWhile (limited outcome) ?adm) \<inter> set (dropWhile (limited outcome) ?adm) = {}"
    by (simp_all only: distinct_append)
  then have "distinct used" unfolding used by (auto dest: in_set_takeD)
  moreover have "r = verdict (map outcome (dropWhile (limited outcome) ?adm))"
    unfolding res by (rule rotate_reference(2) [OF ord(1)])
  moreover have "cc_breaker c' ! i = cc_breaker c ! i" if "i \<notin> set used" for i
    using that unfolding res by (rule rotate_frame)
  moreover have "\<not> kb_probe_in_flight (cc_breaker c' ! i)" if "i \<in> set used" for i
    using that unfolding res by (rule rotate_releases [OF ord])
  ultimately show ?thesis using used unfolding order_def Let_def by blast
qed

theorem key_rotation_witness:
  "\<exists>c'. complete (\<lambda>i. if i = 2 then RateLimited else KSuccess (i + 10)) (\<lambda>_. 0)
         \<lparr>cc_keys = 3, cc_next_key_idx = 2, cc_breaker = breaker_new 3\<rparr> = (Inr 10, c', [2, 0])"
proof -
  let ?c = "\<lparr>cc_keys = 3, cc_next_key_idx = 2, cc_breaker = breaker_new 3\<rparr>"
  let ?f = "\<lambda>i. if i = 2 then RateLimited else KSuccess (i + 10 :: nat)"
  obtain r c' used where call: "complete ?f (\<lambda>_. 0) ?c = (r, c', used)" by (metis prod_cases3)
  have rot: "rotation 2 3 = [2, 0, 1]" by (simp add: rotation_def upt_rec)
  have "used = [2, 0] \<and> r = Inr 10"
    using key_rotation [where c = ?c, OF _ _ call]
    by (simp add: rot usable_def limited_def breaker_new_def kb_new_def try_acquire_def Let_def nth_replicate)
  with call show ?thesis by blast
qed

end
