(* ===== verification/LlmRouting.thy ===== *)
theory LlmRouting
  imports KeyRotation TextStream "HOL-Library.Sublist"
begin

text \<open>
  The model router (\<open>crates/haily-llm/src/router.rs\<close>): which client serves a tier, how the router is built
  from its configuration, when it falls back to the cloud; the escalation policy
  (\<open>crates/haily-llm/src/escalation.rs\<close>) and the turn's single rescue step
  (\<open>open_stream_with_escalation\<close> of \<open>crates/haily-core/src/routing.rs\<close>). Whether an HTTP client builds, a model
  file loads, and what a client answers are arguments of the model.
\<close>

section \<open>Tiers\<close>

datatype Tier = Fast | Medium | Thinking | Ultra

fun tier_rank :: "Tier \<Rightarrow> nat" where
  "tier_rank Fast = 0" | "tier_rank Medium = 1" | "tier_rank Thinking = 2" | "tier_rank Ultra = 3"

instantiation Tier :: linorder
begin

definition less_eq_Tier :: "Tier \<Rightarrow> Tier \<Rightarrow> bool" where
  "less_eq_Tier a b \<longleftrightarrow> tier_rank a \<le> tier_rank b"

definition less_Tier :: "Tier \<Rightarrow> Tier \<Rightarrow> bool" where
  "less_Tier a b \<longleftrightarrow> tier_rank a < tier_rank b"

instance
proof intro_classes
  fix x y :: Tier
  show "x \<le> y \<Longrightarrow> y \<le> x \<Longrightarrow> x = y" by (cases x; cases y) (simp_all add: less_eq_Tier_def)
qed (auto simp: less_eq_Tier_def less_Tier_def)

end

fun tier_next :: "Tier \<Rightarrow> Tier option" where
  "tier_next Fast = Some Medium"
| "tier_next Medium = Some Thinking"
| "tier_next Thinking = Some Ultra"
| "tier_next Ultra = None"

definition CURATED_MODEL_TIERS :: "(string \<times> Tier) list" where
  "CURATED_MODEL_TIERS =
     [(''gpt-4o-mini'', Fast), (''gpt-5.4-mini'', Fast), (''claude-3-5-haiku'', Fast),
      (''gemini-1.5-flash'', Fast), (''gpt-4o'', Medium), (''claude-3-5-sonnet'', Medium),
      (''gemini-1.5-pro'', Medium), (''gpt-5.4'', Thinking), (''claude-3-7-sonnet'', Thinking),
      (''o1'', Thinking), (''claude-opus-4'', Ultra), (''o1-pro'', Ultra), (''gpt-5.4-pro'', Ultra)]"

fun longest_match_from :: "string \<Rightarrow> (nat \<times> Tier) option \<Rightarrow> (string \<times> Tier) list \<Rightarrow> (nat \<times> Tier) option" where
  "longest_match_from model best [] = best"
| "longest_match_from model best ((key, tier) # table) =
     longest_match_from model
       (if key \<noteq> [] \<and> sublist key model \<and> (case best of None \<Rightarrow> True | Some (len, _) \<Rightarrow> length key > len)
        then Some (length key, tier) else best) table"

definition longest_substring_match :: "string \<Rightarrow> (string \<times> Tier) list \<Rightarrow> Tier option" where
  "longest_substring_match model table = map_option snd (longest_match_from model None table)"

definition resolve_model_tier :: "string \<Rightarrow> (string \<times> Tier) list \<Rightarrow> Tier option" where
  "resolve_model_tier model_name overrides =
     (case find (\<lambda>(k, _). k = model_name) overrides of
        Some (_, t) \<Rightarrow> Some t
      | None \<Rightarrow>
          (case find (\<lambda>(k, _). k = model_name) CURATED_MODEL_TIERS of
             Some (_, t) \<Rightarrow> Some t
           | None \<Rightarrow>
               (case longest_substring_match model_name overrides of
                  Some t \<Rightarrow> Some t
                | None \<Rightarrow> longest_substring_match model_name CURATED_MODEL_TIERS)))"

section \<open>Configuration and clients\<close>

record TierEndpoint =
  te_model :: string
  te_base_url :: "string option"
  te_api_keys :: "string list option"

record TierModels =
  tm_fast :: "TierEndpoint option"
  tm_medium :: "TierEndpoint option"
  tm_thinking :: "TierEndpoint option"
  tm_ultra :: "TierEndpoint option"

fun tm_get :: "TierModels \<Rightarrow> Tier \<Rightarrow> TierEndpoint option" where
  "tm_get m Fast = tm_fast m"
| "tm_get m Medium = tm_medium m"
| "tm_get m Thinking = tm_thinking m"
| "tm_get m Ultra = tm_ultra m"

text \<open>Without the \<open>llama\<close> feature the path field does not exist: \<open>None\<close>.\<close>

record LlmConfig =
  lc_cloud_api_keys :: "string list"
  lc_cloud_base_url :: string
  lc_cloud_model :: string
  lc_tier_models :: TierModels
  lc_cost_quality :: "8 word"
  lc_llama_model_path :: "string option"
  lc_llama_n_ctx :: u32

datatype client =
    LlamaClient (llama_path: string) (llama_n_ctx: u32)
  | Cloud (cloud_url: string) (cloud_keys: "string list") (cloud_model: string)
  | NoopClient

fun provider_name :: "client \<Rightarrow> string" where
  "provider_name (LlamaClient _ _) = ''llama.cpp''"
| "provider_name (Cloud _ _ _) = ''cloud''"
| "provider_name NoopClient = ''unconfigured''"

definition DEFAULT_LLAMA_N_CTX :: u32 where "DEFAULT_LLAMA_N_CTX = 8192"
definition CLOUD_CONTEXT_WINDOW_CLAMP :: u32 where "CLOUD_CONTEXT_WINDOW_CLAMP = 32000"
definition COST_QUALITY_MAX :: "8 word" where "COST_QUALITY_MAX = 10"

fun client_context_window :: "client \<Rightarrow> u32" where
  "client_context_window (LlamaClient _ n) = n"
| "client_context_window (Cloud _ _ _) = CLOUD_CONTEXT_WINDOW_CLAMP"
| "client_context_window NoopClient = DEFAULT_LLAMA_N_CTX"

text \<open>
  What the surroundings decide: whether the HTTP client of the session default (\<open>None\<close>) or of a tier can
  be built, whether a model file exists and whether it loads.
\<close>

record surroundings =
  http_builds :: "Tier option \<Rightarrow> bool"
  path_exists :: "string \<Rightarrow> bool"
  llama_loads :: "string \<Rightarrow> bool"

definition resolve_tier_keys :: "LlmConfig \<Rightarrow> TierEndpoint \<Rightarrow> string list" where
  "resolve_tier_keys config ep =
     (case te_api_keys ep of
        Some k \<Rightarrow> if k \<noteq> [] then k else lc_cloud_api_keys config
      | None \<Rightarrow> lc_cloud_api_keys config)"

definition build_tier_client :: "surroundings \<Rightarrow> LlmConfig \<Rightarrow> Tier \<Rightarrow> client option" where
  "build_tier_client w config tier =
     (case tm_get (lc_tier_models config) tier of
        None \<Rightarrow> None
      | Some ep \<Rightarrow>
          (let base_url = (case te_base_url ep of Some u \<Rightarrow> u | None \<Rightarrow> lc_cloud_base_url config);
               keys = resolve_tier_keys config ep
           in if keys = [] then None
              else if http_builds w (Some tier) then Some (Cloud base_url keys (te_model ep)) else None))"

definition build_tier_clients :: "surroundings \<Rightarrow> LlmConfig \<Rightarrow> Tier \<rightharpoonup> client" where
  "build_tier_clients w config =
     foldl (\<lambda>clients tier. case build_tier_client w config tier of
                Some c \<Rightarrow> clients(tier \<mapsto> c) | None \<Rightarrow> clients)
       Map.empty [Fast, Medium, Thinking, Ultra]"

definition tier_model_names :: "LlmConfig \<Rightarrow> Tier \<rightharpoonup> string" where
  "tier_model_names config =
     foldl (\<lambda>names tier. case tm_get (lc_tier_models config) tier of
                Some ep \<Rightarrow> if resolve_tier_keys config ep \<noteq> [] then names(tier \<mapsto> te_model ep) else names
              | None \<Rightarrow> names)
       Map.empty [Fast, Medium, Thinking, Ultra]"

record LlmRouter =
  lr_primary :: client
  lr_fallback :: "client option"
  lr_tier_clients :: "Tier \<rightharpoonup> client"
  lr_default_model :: string
  lr_tier_model_names :: "Tier \<rightharpoonup> string"
  lr_cost_quality :: "8 word"

definition init :: "surroundings \<Rightarrow> LlmConfig \<Rightarrow> LlmRouter" where
  "init w config =
     (let cloud = (if lc_cloud_api_keys config \<noteq> [] \<and> http_builds w None
                   then Some (Cloud (lc_cloud_base_url config) (lc_cloud_api_keys config) (lc_cloud_model config))
                   else None);
          router = (\<lambda>primary fallback.
             \<lparr>lr_primary = primary, lr_fallback = fallback, lr_tier_clients = build_tier_clients w config,
              lr_default_model = lc_cloud_model config, lr_tier_model_names = tier_model_names config,
              lr_cost_quality = min (lc_cost_quality config) COST_QUALITY_MAX\<rparr>);
          otherwise = (case cloud of Some c \<Rightarrow> router c None | None \<Rightarrow> router NoopClient None)
      in case lc_llama_model_path config of
           Some path \<Rightarrow>
             if path_exists w path \<and> llama_loads w path
             then router (LlamaClient path (lc_llama_n_ctx config)) cloud else otherwise
         | None \<Rightarrow> otherwise)"

definition context_window :: "LlmRouter \<Rightarrow> u32" where
  "context_window r = client_context_window (lr_primary r)"

definition ultra_reachable :: "LlmRouter \<Rightarrow> bool" where
  "ultra_reachable r \<longleftrightarrow>
     lr_tier_clients r Ultra \<noteq> None \<or> provider_name (lr_primary r) = ''cloud'' \<or> lr_fallback r \<noteq> None"

definition highest_local_tier :: "LlmRouter \<Rightarrow> Tier" where
  "highest_local_tier r = (if provider_name (lr_primary r) = ''llama.cpp'' then Thinking else Ultra)"

record RouterSnapshot =
  rs_default_model :: string
  rs_tier_models :: "Tier \<rightharpoonup> string"

definition snapshot :: "LlmRouter \<Rightarrow> RouterSnapshot" where
  "snapshot r = \<lparr>rs_default_model = lr_default_model r, rs_tier_models = lr_tier_model_names r\<rparr>"

definition model_for_tier :: "RouterSnapshot \<Rightarrow> Tier option \<Rightarrow> string" where
  "model_for_tier s tier =
     (case Option.bind tier (rs_tier_models s) of Some m \<Rightarrow> m | None \<Rightarrow> rs_default_model s)"

definition session_tier :: "RouterSnapshot \<Rightarrow> (string \<times> Tier) list \<Rightarrow> Tier option" where
  "session_tier s overrides = resolve_model_tier (rs_default_model s) overrides"

section \<open>Requests\<close>

text \<open>
  A client's stream is an error before any chunk, or the chunks on its channel until it is closed. A
  call consults at most a client and then the fallback; \<open>ans_first\<close> and \<open>ans_fallback\<close> say what each would
  answer. Results come with the clients that were contacted.
\<close>

datatype llm_error = Unconfigured | BackendError string | ClosedEarly string

type_synonym 'a reply = "llm_error + 'a"
type_synonym stream = "StreamChunk list"

record 'a answers =
  ans_first :: "client \<Rightarrow> 'a reply"
  ans_fallback :: "client \<Rightarrow> 'a reply"

definition ask :: "(client \<Rightarrow> 'a reply) \<Rightarrow> client \<Rightarrow> 'a reply" where
  "ask answer c = (if c = NoopClient then Inl Unconfigured else answer c)"

definition fallback_stream_or_err :: "stream answers \<Rightarrow> LlmRouter \<Rightarrow> llm_error \<Rightarrow> stream reply \<times> client list" where
  "fallback_stream_or_err a r err =
     (case lr_fallback r of
        Some fallback \<Rightarrow> (ask (ans_fallback a) fallback, [fallback])
      | None \<Rightarrow> (Inl err, []))"

definition stream_backend :: "stream answers \<Rightarrow> LlmRouter \<Rightarrow> client \<Rightarrow> stream reply \<times> client list" where
  "stream_backend a r backend =
     (let (reply, used) =
        (case ask (ans_first a) backend of
           Inl err \<Rightarrow> fallback_stream_or_err a r err
         | Inr [] \<Rightarrow> fallback_stream_or_err a r (ClosedEarly (provider_name backend))
         | Inr (StreamError msg # _) \<Rightarrow> fallback_stream_or_err a r (BackendError msg)
         | Inr (Token piece # rest) \<Rightarrow> (Inr (Token piece # rest), [])
         | Inr (Done n p # rest) \<Rightarrow> (Inr (Done n p # rest), []))
      in (reply, backend # used))"

definition tier_client :: "LlmRouter \<Rightarrow> Tier option \<Rightarrow> client" where
  "tier_client r tier = (case Option.bind tier (lr_tier_clients r) of Some c \<Rightarrow> c | None \<Rightarrow> lr_primary r)"

definition complete_stream_tiered :: "stream answers \<Rightarrow> LlmRouter \<Rightarrow> Tier option \<Rightarrow> stream reply \<times> client list" where
  "complete_stream_tiered a r tier = stream_backend a r (tier_client r tier)"

definition complete_stream :: "stream answers \<Rightarrow> LlmRouter \<Rightarrow> stream reply \<times> client list" where
  "complete_stream a r = stream_backend a r (lr_primary r)"

definition router_complete :: "string answers \<Rightarrow> LlmRouter \<Rightarrow> string reply \<times> client list" where
  "router_complete a r =
     (case ask (ans_first a) (lr_primary r) of
        Inr body \<Rightarrow> (Inr body, [lr_primary r])
      | Inl primary_err \<Rightarrow>
          (case lr_fallback r of
             Some fallback \<Rightarrow> (ask (ans_fallback a) fallback, [lr_primary r, fallback])
           | None \<Rightarrow> (Inl primary_err, [lr_primary r])))"

definition complete_tiered :: "string answers \<Rightarrow> LlmRouter \<Rightarrow> Tier option \<Rightarrow> string reply \<times> client list" where
  "complete_tiered a r tier =
     (case Option.bind tier (lr_tier_clients r) of
        Some c \<Rightarrow> (ask (ans_first a) c, [c])
      | None \<Rightarrow> router_complete a r)"

section \<open>Escalation\<close>

datatype Egress = LocalOnly | AllowCloud

definition from_provider :: "string \<Rightarrow> Egress" where
  "from_provider name = (if name = ''llama.cpp'' then LocalOnly else AllowCloud)"

record EscalationPolicy =
  ep_failures_before_escalation :: u32
  ep_max_tier :: Tier
  ep_enabled :: bool

definition escalation_default :: EscalationPolicy where
  "escalation_default = \<lparr>ep_failures_before_escalation = 2, ep_max_tier = Thinking, ep_enabled = False\<rparr>"

definition next_tier :: "EscalationPolicy \<Rightarrow> Tier \<Rightarrow> u32 \<Rightarrow> Egress \<Rightarrow> Tier \<Rightarrow> Tier option" where
  "next_tier p current failures egress highest_local =
     (if \<not> ep_enabled p \<or> failures < ep_failures_before_escalation p then None
      else
        (let ceiling = (case egress of
                          AllowCloud \<Rightarrow> ep_max_tier p
                        | LocalOnly \<Rightarrow> min (ep_max_tier p) highest_local)
         in do { nxt \<leftarrow> tier_next current; if nxt \<le> ceiling then Some nxt else None }))"

definition effective_current :: "RouterSnapshot \<Rightarrow> Tier option \<Rightarrow> Tier" where
  "effective_current snap current_tier =
     (case current_tier of
        Some t \<Rightarrow> t
      | None \<Rightarrow> (case session_tier snap [] of Some t \<Rightarrow> t | None \<Rightarrow> Fast))"

text \<open>
  The rescue. \<open>a1\<close> and \<open>a2\<close> are what the clients answer to the first and to the second request; the result
  is the stream, the tier the turn goes on with, and the clients contacted.
\<close>

definition open_stream_with_escalation ::
  "stream answers \<Rightarrow> stream answers \<Rightarrow> LlmRouter \<Rightarrow> Tier option \<Rightarrow> EscalationPolicy \<Rightarrow> Egress \<Rightarrow> bool
    \<Rightarrow> stream reply \<times> Tier option \<times> client list" where
  "open_stream_with_escalation a1 a2 llm current_tier policy egress cancelled =
     (case complete_stream_tiered a1 llm current_tier of
        (Inr rx, used) \<Rightarrow> (Inr rx, current_tier, used)
      | (Inl e, used) \<Rightarrow>
          if cancelled then (Inl e, current_tier, used)
          else
            (let snap = snapshot llm
             in case next_tier policy (effective_current snap current_tier) 1 egress (highest_local_tier llm) of
                  None \<Rightarrow> (Inl e, current_tier, used)
                | Some nxt \<Rightarrow>
                    if model_for_tier snap (Some nxt) = model_for_tier snap current_tier
                    then (Inl e, current_tier, used)
                    else (case complete_stream_tiered a2 llm (Some nxt) of
                            (Inr rx, used2) \<Rightarrow> (Inr rx, Some nxt, used @ used2)
                          | (Inl e2, used2) \<Rightarrow> (Inl e2, current_tier, used @ used2))))"

section \<open>Resolving model names\<close>

text \<open>The fold keeps a longest matching key seen so far.\<close>

lemma longest_match_from_spec:
  assumes "longest_match_from model best table = Some (n, t)"
  shows "(best = Some (n, t) \<or>
       (\<exists>key. (key, t) \<in> set table \<and> key \<noteq> [] \<and> sublist key model \<and> length key = n)) \<and>
    (\<forall>key u. (key, u) \<in> set table \<longrightarrow> key \<noteq> [] \<longrightarrow> sublist key model \<longrightarrow> length key \<le> n) \<and>
    (\<forall>m u. best = Some (m, u) \<longrightarrow> m \<le> n)"
  using assms
proof (induction table arbitrary: best)
  case (Cons e table)
  obtain key tier where e: "e = (key, tier)" by fastforce
  let ?best = "if key \<noteq> [] \<and> sublist key model \<and> (case best of None \<Rightarrow> True | Some (len, _) \<Rightarrow> length key > len)
     then Some (length key, tier) else best"
  have IH: "(?best = Some (n, t) \<or>
       (\<exists>k. (k, t) \<in> set table \<and> k \<noteq> [] \<and> sublist k model \<and> length k = n))"
      "\<And>k u. (k, u) \<in> set table \<Longrightarrow> k \<noteq> [] \<Longrightarrow> sublist k model \<Longrightarrow> length k \<le> n"
      "\<And>m u. ?best = Some (m, u) \<Longrightarrow> m \<le> n"
    using Cons.IH [of ?best] Cons.prems e by auto
  have here: "length key \<le> n" if "key \<noteq> []" "sublist key model"
    using IH(3) that by (cases best) (force split: if_splits)+
  have old: "m \<le> n" if "best = Some (m, u)" for m u
    using IH(3) that by (force split: if_splits)
  from IH(1,2) here old show ?case unfolding e by (auto split: if_splits)
qed simp

lemma longest_match_from_None:
  "longest_match_from model best table = None \<longleftrightarrow>
     best = None \<and> (\<forall>(key, u) \<in> set table. key = [] \<or> \<not> sublist key model)"
  by (induction model best table rule: longest_match_from.induct) auto

lemma longest_substring_match_Some:
  assumes "longest_substring_match model table = Some t"
  obtains key where "(key, t) \<in> set table" "key \<noteq> []" "sublist key model"
    "\<forall>(k, u) \<in> set table. k \<noteq> [] \<longrightarrow> sublist k model \<longrightarrow> length k \<le> length key"
proof -
  from assms obtain n where n: "longest_match_from model None table = Some (n, t)"
    by (auto simp: longest_substring_match_def)
  from longest_match_from_spec [OF n] that show thesis by fastforce
qed

section \<open>The router follows its snapshot\<close>

lemma build_tier_clients_apply: "build_tier_clients w config t = build_tier_client w config t"
  by (cases t) (simp_all add: build_tier_clients_def split: option.split)

lemma tier_model_names_apply:
  "tier_model_names config t =
     (case tm_get (lc_tier_models config) t of
        Some ep \<Rightarrow> if resolve_tier_keys config ep \<noteq> [] then Some (te_model ep) else None
      | None \<Rightarrow> None)"
  by (cases t) (simp_all add: tier_model_names_def split: option.split)

lemma init_fields [simp]:
  "lr_tier_clients (init w config) = build_tier_clients w config"
  "lr_default_model (init w config) = lc_cloud_model config"
  "lr_tier_model_names (init w config) = tier_model_names config"
  by (auto simp: init_def Let_def split: option.split)

lemma init_primary_cloud:
  "lr_primary (init w config) = Cloud u ks m \<Longrightarrow> m = lc_cloud_model config \<and> ks \<noteq> []"
  by (auto simp: init_def Let_def split: option.splits if_splits)

text \<open>
  The snapshot tells the truth. When the HTTP clients of the tiers can be built, a router
  made from any configuration routes a tier request that reaches a cloud client to exactly the model the
  snapshot names for that tier, with a non-empty key pool; the snapshot lists a model for a tier if and
  only if that tier has a client of its own.
\<close>

lemma snapshot_names_routed_model:
  assumes "\<forall>t. http_builds w (Some t)"
  shows "(\<forall>tier u ks m. tier_client (init w config) tier = Cloud u ks m \<longrightarrow>
            model_for_tier (snapshot (init w config)) tier = m \<and> ks \<noteq> []) \<and>
         dom (rs_tier_models (snapshot (init w config))) = dom (lr_tier_clients (init w config))"
proof (intro conjI allI impI)
  show "dom (rs_tier_models (snapshot (init w config))) = dom (lr_tier_clients (init w config))"
    using assms
    by (auto simp: snapshot_def build_tier_clients_apply build_tier_client_def tier_model_names_apply
        Let_def dom_def split: option.splits if_splits)
next
  fix tier u ks m assume c: "tier_client (init w config) tier = Cloud u ks m"
  have "model_for_tier (snapshot (init w config)) tier = m \<and> ks \<noteq> []"
  proof (cases "Option.bind tier (build_tier_clients w config)")
    case None
    then have "Option.bind tier (tier_model_names config) = None" using assms
      by (cases tier) (auto simp: build_tier_clients_apply build_tier_client_def tier_model_names_apply
          Let_def split: option.splits if_splits)
    with None c show ?thesis
      by (auto simp: tier_client_def model_for_tier_def snapshot_def dest: init_primary_cloud)
  next
    case (Some cl)
    with c show ?thesis
      by (cases tier) (auto simp: tier_client_def model_for_tier_def snapshot_def build_tier_clients_apply
          build_tier_client_def tier_model_names_apply Let_def split: option.splits if_splits)
  qed
  then show "model_for_tier (snapshot (init w config)) tier = m" "ks \<noteq> []" by simp_all
qed

definition sample_config :: LlmConfig where
  "sample_config =
     \<lparr>lc_cloud_api_keys = [], lc_cloud_base_url = ''u'', lc_cloud_model = ''gpt-4o-mini'',
      lc_tier_models = \<lparr>tm_fast = None,
        tm_medium = Some \<lparr>te_model = ''gpt-4o'', te_base_url = None, te_api_keys = Some [''k'']\<rparr>,
        tm_thinking = None, tm_ultra = None\<rparr>,
      lc_cost_quality = 7, lc_llama_model_path = Some ''m.gguf'', lc_llama_n_ctx = 8192\<rparr>"

definition sample_surroundings :: surroundings where
  "sample_surroundings = \<lparr>http_builds = \<lambda>_. True, path_exists = \<lambda>_. True, llama_loads = \<lambda>_. True\<rparr>"

lemma sample_client:
  "tier_client (init sample_surroundings sample_config) (Some Medium) = Cloud ''u'' [''k''] ''gpt-4o''"
  by (simp add: tier_client_def build_tier_clients_apply build_tier_client_def sample_surroundings_def
      sample_config_def resolve_tier_keys_def Let_def)

lemma snapshot_names_routed_model_witness:
  "model_for_tier (snapshot (init sample_surroundings sample_config)) (Some Medium) = ''gpt-4o''"
proof -
  have "\<forall>t. http_builds sample_surroundings (Some t)" by (simp add: sample_surroundings_def)
  from snapshot_names_routed_model [OF this, of sample_config] sample_client show ?thesis by blast
qed

section \<open>Fallback and rescue\<close>

definition started :: "stream reply \<Rightarrow> bool" where
  "started reply \<longleftrightarrow> (case reply of
     Inr (Token _ # _) \<Rightarrow> True | Inr (Done _ _ # _) \<Rightarrow> True | _ \<Rightarrow> False)"

definition pre_error :: "string \<Rightarrow> stream reply \<Rightarrow> llm_error" where
  "pre_error name reply = (case reply of
     Inl e \<Rightarrow> e | Inr (StreamError m # _) \<Rightarrow> BackendError m | _ \<Rightarrow> ClosedEarly name)"

lemma stream_backend_eq:
  "stream_backend a r b =
     (if started (ask (ans_first a) b) then (ask (ans_first a) b, [b])
      else case lr_fallback r of
             Some fb \<Rightarrow> (ask (ans_fallback a) fb, [b, fb])
           | None \<Rightarrow> (Inl (pre_error (provider_name b) (ask (ans_first a) b)), [b]))"
proof (cases "ask (ans_first a) b")
  case (Inl e)
  then show ?thesis
    by (simp add: stream_backend_def fallback_stream_or_err_def started_def pre_error_def split: option.split)
next
  case (Inr xs)
  show ?thesis
  proof (cases xs)
    case Nil
    then show ?thesis using Inr
      by (simp add: stream_backend_def fallback_stream_or_err_def started_def pre_error_def split: option.split)
  next
    case (Cons x rest)
    then show ?thesis using Inr
      by (cases x)
        (simp_all add: stream_backend_def fallback_stream_or_err_def started_def pre_error_def split: option.split)
  qed
qed

lemma next_tier_Some:
  assumes "next_tier p cur n eg hl = Some nxt"
  shows "ep_enabled p \<and> tier_next cur = Some nxt \<and> nxt \<le> ep_max_tier p \<and> (eg = LocalOnly \<longrightarrow> nxt \<le> hl)"
  using assms by (cases "tier_next cur") (auto simp: next_tier_def Let_def split: if_splits Egress.splits)

lemma stream_backend_single:
  assumes "stream_backend a r b = (reply, used)"
  shows "1 \<le> length used \<and> length used \<le> 2 \<and>
    (\<forall>rx. reply = Inr rx \<longrightarrow> ask (ans_first a) (last used) = Inr rx \<or> ask (ans_fallback a) (last used) = Inr rx)"
  using assms by (auto simp: stream_backend_eq split: if_splits option.splits)

text \<open>
  Property C24: opening the model's stream for a turn escalates at most once and only as a rescue. The turn
  goes on with another tier only if the first request failed before its first token, the turn was not
  cancelled and the policy is enabled; the new tier is one step up, within the policy's ceiling and, for a
  local-only turn, within the highest local tier. A cancelled turn or a disabled policy gets exactly
  the first request's outcome. A stream that is returned is the answer of the last client contacted, never a
  mix of two, and at most four requests are made.
\<close>

theorem rescue_bounded:
  assumes "open_stream_with_escalation a1 a2 llm tier policy egress cancelled = (reply, tier', used)"
  shows "(tier' \<noteq> tier \<longrightarrow>
            (\<exists>cur nxt. tier' = Some nxt \<and> tier_next cur = Some nxt \<and> (\<forall>t. tier = Some t \<longrightarrow> cur = t) \<and>
               nxt \<le> ep_max_tier policy \<and> (egress = LocalOnly \<longrightarrow> nxt \<le> highest_local_tier llm)) \<and>
            ep_enabled policy \<and> \<not> cancelled \<and> isl (fst (complete_stream_tiered a1 llm tier))) \<and>
         (cancelled \<or> \<not> ep_enabled policy \<longrightarrow> (reply, used) = complete_stream_tiered a1 llm tier) \<and>
         (\<forall>rx. reply = Inr rx \<longrightarrow>
            (\<exists>answer \<in> {ans_first a1, ans_fallback a1, ans_first a2, ans_fallback a2}.
               ask answer (last used) = Inr rx)) \<and>
         length used \<le> 4"
proof -
  obtain r1 u1 where one: "complete_stream_tiered a1 llm tier = (r1, u1)" by fastforce
  note s1 = stream_backend_single [OF one [unfolded complete_stream_tiered_def]]
  have two: "\<And>t r2 u2. complete_stream_tiered a2 llm t = (r2, u2) \<Longrightarrow>
      1 \<le> length u2 \<and> length u2 \<le> 2 \<and>
      (\<forall>rx. r2 = Inr rx \<longrightarrow> ask (ans_first a2) (last u2) = Inr rx \<or> ask (ans_fallback a2) (last u2) = Inr rx)"
    unfolding complete_stream_tiered_def by (rule stream_backend_single)
  show ?thesis
  proof (cases r1)
    case (Inr rx)
    then show ?thesis using assms one s1 by (auto simp: open_stream_with_escalation_def)
  next
    case (Inl e)
    let ?step = "next_tier policy (effective_current (snapshot llm) tier) 1 egress (highest_local_tier llm)"
    show ?thesis
    proof (cases "\<not> cancelled \<and> ?step \<noteq> None")
      case False
      then have "(reply, tier', used) = (Inl e, tier, u1)"
        using assms one Inl by (auto simp: open_stream_with_escalation_def Let_def split: if_splits)
      then show ?thesis using one s1 Inl by simp
    next
      case True
      then obtain nxt where nxt: "?step = Some nxt" by blast
      obtain r2 u2 where second: "complete_stream_tiered a2 llm (Some nxt) = (r2, u2)" by fastforce
      have u2: "u2 \<noteq> []" using two [OF second] by auto
      have cur: "\<forall>t. tier = Some t \<longrightarrow> effective_current (snapshot llm) tier = t"
        by (simp add: effective_current_def)
      have out: "(reply, tier', used) = (Inl e, tier, u1) \<or>
          (\<exists>rx. r2 = Inr rx \<and> (reply, tier', used) = (Inr rx, Some nxt, u1 @ u2)) \<or>
          (\<exists>e2. r2 = Inl e2 \<and> (reply, tier', used) = (Inl e2, tier, u1 @ u2))"
        using assms one Inl True nxt second
        by (cases r2) (auto simp: open_stream_with_escalation_def Let_def split: if_splits)
      from out show ?thesis
        using one Inl True s1 two [OF second] next_tier_Some [OF nxt] u2 cur
        by (elim disjE exE conjE) auto
    qed
  qed
qed

text \<open>
  The pin of a local run is about tiers, not about clients: with a local primary, an override for the
  medium tier and no cloud fallback at all, the rescue of a local-only turn is served by the cloud.
\<close>

lemma local_only_reaches_cloud:
  fixes a1 a2 :: "stream answers"
  defines "router \<equiv> init sample_surroundings sample_config"
  assumes "\<And>c. ans_first a1 c = Inl (BackendError ''oom'')" "\<And>c. ans_first a2 c = Inr [Token piece]"
  shows "provider_name (lr_primary router) = ''llama.cpp''" "lr_fallback router = None"
    and "open_stream_with_escalation a1 a2 router (Some Fast)
           \<lparr>ep_failures_before_escalation = 1, ep_max_tier = Thinking, ep_enabled = True\<rparr>
           (from_provider (provider_name (lr_primary router))) False
         = (Inr [Token piece], Some Medium, [lr_primary router, Cloud ''u'' [''k''] ''gpt-4o''])"
proof -
  have prim: "lr_primary router = LlamaClient ''m.gguf'' 8192" and fb: "lr_fallback router = None"
    by (simp_all add: router_def init_def sample_surroundings_def sample_config_def)
  then show "provider_name (lr_primary router) = ''llama.cpp''" "lr_fallback router = None" by simp_all
  have fast: "tier_client router (Some Fast) = lr_primary router"
    by (simp add: router_def tier_client_def build_tier_clients_apply build_tier_client_def sample_config_def)
  have models: "model_for_tier (snapshot router) (Some Medium) = ''gpt-4o''"
      "model_for_tier (snapshot router) (Some Fast) = ''gpt-4o-mini''"
    by (simp_all add: router_def model_for_tier_def snapshot_def tier_model_names_apply sample_config_def
        resolve_tier_keys_def)
  show "open_stream_with_escalation a1 a2 router (Some Fast)
           \<lparr>ep_failures_before_escalation = 1, ep_max_tier = Thinking, ep_enabled = True\<rparr>
           (from_provider (provider_name (lr_primary router))) False
         = (Inr [Token piece], Some Medium, [lr_primary router, Cloud ''u'' [''k''] ''gpt-4o''])"
    using assms(2,3) sample_client [folded router_def]
    by (simp add: open_stream_with_escalation_def complete_stream_tiered_def stream_backend_eq fast prim fb models
        ask_def started_def pre_error_def effective_current_def next_tier_def from_provider_def
        highest_local_tier_def less_eq_Tier_def min_def)
qed

theorem rescue_bounded_witness:
  "\<exists>used. open_stream_with_escalation
      \<lparr>ans_first = \<lambda>_. Inl (BackendError ''oom''), ans_fallback = \<lambda>_. Inl (BackendError ''net'')\<rparr>
      \<lparr>ans_first = \<lambda>_. Inr [Token [104, 105]], ans_fallback = \<lambda>_. Inr []\<rparr>
      (init sample_surroundings sample_config) (Some Fast)
      \<lparr>ep_failures_before_escalation = 1, ep_max_tier = Thinking, ep_enabled = True\<rparr> LocalOnly False
     = (Inr [Token [104, 105]], Some Medium, used) \<and> length used \<le> 4"
proof -
  let ?a1 = "\<lparr>ans_first = \<lambda>_. Inl (BackendError ''oom''), ans_fallback = \<lambda>_. Inl (BackendError ''net'')\<rparr> :: stream answers"
  let ?a2 = "\<lparr>ans_first = \<lambda>_. Inr [Token [104, 105]], ans_fallback = \<lambda>_. Inr []\<rparr> :: stream answers"
  have "open_stream_with_escalation ?a1 ?a2 (init sample_surroundings sample_config) (Some Fast)
      \<lparr>ep_failures_before_escalation = 1, ep_max_tier = Thinking, ep_enabled = True\<rparr> LocalOnly False
     = (Inr [Token [104, 105]], Some Medium,
        [lr_primary (init sample_surroundings sample_config), Cloud ''u'' [''k''] ''gpt-4o''])"
    using local_only_reaches_cloud [of ?a1 ?a2 "[104, 105]"] by (simp add: from_provider_def)
  with rescue_bounded [OF this] show ?thesis by blast
qed

end
