(* ===== verification/LocalJournal.thy ===== *)
theory LocalJournal
  imports Json "HOL-Library.FSet"
begin

text \<open>
  The action journal and the local tools' writes to it: the tables, \<open>local_journaled_write\<close> and the guarded
  restore statements of \<open>crates/haily-db/src/queries/local_snapshot.rs\<close>, the journal's statements of
  \<open>crates/haily-db/src/queries/journal.rs\<close>, and the undo of a local row in
  \<open>crates/haily-tools/src/journal_undo/local_compensator.rs\<close>.

  A table is a map from ids to rows, a row a function from column names to texts (\<open>None\<close> is \<open>NULL\<close>). A
  statement is the function SQL gives it, with the number of affected rows where the code reads it; of the
  errors a statement can raise, the violated unique constraints are modelled, because the code's
  behaviour depends on them. A transaction that is rolled back leaves the database as it was. Times and fresh
  ids are arguments.
\<close>

section \<open>Tables\<close>

datatype LocalTable = Tasks | Notes | Reminders | KmsFacts | WorkItems | Calendar

fun whitelisted_columns :: "LocalTable \<Rightarrow> string list" where
  "whitelisted_columns Tasks =
     [''id'', ''title'', ''description'', ''priority'', ''status'', ''due_at'', ''completed_at'',
      ''calendar_event_id'', ''domain_id'', ''updated_at'', ''deleted_at'']"
| "whitelisted_columns Notes =
     [''id'', ''title'', ''content'', ''tags'', ''wikilinks'', ''domain_id'', ''updated_at'', ''deleted_at'']"
| "whitelisted_columns Reminders =
     [''id'', ''title'', ''fire_at'', ''recurrence'', ''fired_at'', ''outcome'', ''outcome_at'',
      ''session_id'', ''updated_at'', ''deleted_at'']"
| "whitelisted_columns KmsFacts = [''id'', ''deleted_at'', ''updated_at'']"
| "whitelisted_columns WorkItems =
     [''id'', ''session_id'', ''title'', ''status'', ''phase'', ''checkpoint'', ''started_at'',
      ''completed_at'', ''error'', ''updated_at'', ''deleted_at'']"
| "whitelisted_columns Calendar =
     [''id'', ''title'', ''description'', ''location'', ''start_at'', ''end_at'', ''recurrence'',
      ''updated_at'', ''deleted_at'']"

type_synonym row = "string \<Rightarrow> string option"

record JournalRow =
  j_id :: string
  j_session_id :: string
  j_tool_name :: string
  j_tool_tier :: string
  j_compensability :: string
  j_idempotency_key :: string
  j_correlation_ref :: string
  j_request_params :: string
  j_pre_state :: "json_text option"
  j_pre_state_version :: "string option"
  j_post_state :: "string option"
  j_turn_id :: "string option"
  j_post_state_version :: "string option"
  j_readback_status :: string
  j_compensation_plan :: "json_text option"
  j_undo_status :: string
  j_undo_attempts :: int
  j_created_at :: string
  j_undone_at :: "string option"
  j_retention_expires_at :: string
  j_manifest_hash :: "string option"
  j_workspace_id :: "string option"
  j_run_id :: "string option"

record Db =
  db_rows :: "LocalTable \<Rightarrow> string \<Rightarrow> row option"
  db_exceptions :: "(string \<times> string) fset"
  db_journal :: "JournalRow list"

datatype db_error = UniqueViolation | Vanished

text \<open>\<open>UPDATE\<close> of one row by id under a condition: the affected rows and the database.\<close>

definition update_row :: "Db \<Rightarrow> LocalTable \<Rightarrow> string \<Rightarrow> (row \<Rightarrow> bool) \<Rightarrow> (row \<Rightarrow> row) \<Rightarrow> nat \<times> Db" where
  "update_row db t i cond f =
     (case db_rows db t i of
        Some r \<Rightarrow> if cond r then (1, db\<lparr>db_rows := (db_rows db)(t := (db_rows db t)(i \<mapsto> f r))\<rparr>) else (0, db)
      | None \<Rightarrow> (0, db))"

definition insert_row :: "Db \<Rightarrow> LocalTable \<Rightarrow> string \<Rightarrow> row \<Rightarrow> db_error + nat \<times> Db" where
  "insert_row db t i r =
     (if db_rows db t i = None
      then Inr (1, db\<lparr>db_rows := (db_rows db)(t := (db_rows db t)(i \<mapsto> r))\<rparr>)
      else Inl UniqueViolation)"

text \<open>A row given by the columns an \<open>INSERT\<close> lists; the others are \<open>NULL\<close>.\<close>

definition row_of :: "(string \<times> string option) list \<Rightarrow> row" where
  "row_of cols c = (case map_of cols c of Some v \<Rightarrow> v | None \<Rightarrow> None)"

section \<open>Journal statements\<close>

record NewAction =
  na_session_id :: string
  na_tool_name :: string
  na_tool_tier :: string
  na_compensability :: string
  na_idempotency_key :: string
  na_correlation_ref :: string
  na_request_params :: string
  na_pre_state :: "json_text option"
  na_pre_state_version :: "string option"
  na_compensation_plan :: "json_text option"
  na_turn_id :: "string option"
  na_retention_expires_at :: string
  na_manifest_hash :: "string option"

definition insert_via :: "Db \<Rightarrow> string \<Rightarrow> string \<Rightarrow> NewAction \<Rightarrow> string option \<Rightarrow> string option
    \<Rightarrow> db_error + JournalRow \<times> Db" where
  "insert_via db new_id created_at a workspace_id run_id =
     (if \<exists>r \<in> set (db_journal db). j_id r = new_id \<or> j_idempotency_key r = na_idempotency_key a
      then Inl UniqueViolation
      else
        (let r = \<lparr>j_id = new_id, j_session_id = na_session_id a, j_tool_name = na_tool_name a,
            j_tool_tier = na_tool_tier a, j_compensability = na_compensability a,
            j_idempotency_key = na_idempotency_key a, j_correlation_ref = na_correlation_ref a,
            j_request_params = na_request_params a, j_pre_state = na_pre_state a,
            j_pre_state_version = na_pre_state_version a, j_post_state = None, j_turn_id = na_turn_id a,
            j_post_state_version = None, j_readback_status = ''pending'',
            j_compensation_plan = na_compensation_plan a, j_undo_status = ''not_requested'',
            j_undo_attempts = 0, j_created_at = created_at, j_undone_at = None,
            j_retention_expires_at = na_retention_expires_at a, j_manifest_hash = na_manifest_hash a,
            j_workspace_id = workspace_id, j_run_id = run_id\<rparr>
         in Inr (r, db\<lparr>db_journal := db_journal db @ [r]\<rparr>)))"

definition update_journal :: "string \<Rightarrow> (JournalRow \<Rightarrow> JournalRow) \<Rightarrow> Db \<Rightarrow> Db" where
  "update_journal i f db = db\<lparr>db_journal := map (\<lambda>r. if j_id r = i then f r else r) (db_journal db)\<rparr>"

definition get_by_id :: "Db \<Rightarrow> string \<Rightarrow> JournalRow option" where
  "get_by_id db i = find (\<lambda>r. j_id r = i) (db_journal db)"

definition get_by_id_scoped :: "Db \<Rightarrow> string \<Rightarrow> string \<Rightarrow> JournalRow option" where
  "get_by_id_scoped db i session_id = find (\<lambda>r. j_id r = i \<and> j_session_id r = session_id) (db_journal db)"

definition set_readback :: "string \<Rightarrow> string \<Rightarrow> string option \<Rightarrow> Db \<Rightarrow> Db" where
  "set_readback i status post = update_journal i (\<lambda>r. r\<lparr>j_readback_status := status, j_post_state := post\<rparr>)"

definition set_post_state_version :: "string \<Rightarrow> string \<Rightarrow> Db \<Rightarrow> Db" where
  "set_post_state_version i v = update_journal i (\<lambda>r. r\<lparr>j_post_state_version := Some v\<rparr>)"

definition update_compensation_plan :: "string \<Rightarrow> json_text \<Rightarrow> Db \<Rightarrow> Db" where
  "update_compensation_plan i p = update_journal i (\<lambda>r. r\<lparr>j_compensation_plan := Some p\<rparr>)"

definition advance_undo_status :: "string \<Rightarrow> string \<Rightarrow> string \<Rightarrow> Db \<Rightarrow> Db" where
  "advance_undo_status now i status =
     update_journal i (\<lambda>r. r\<lparr>j_undo_status := status,
       j_undone_at := (if status = ''undone'' then Some now else j_undone_at r)\<rparr>)"

definition increment_undo_attempt :: "string \<Rightarrow> Db \<Rightarrow> int \<times> Db" where
  "increment_undo_attempt i db =
     (let db' = update_journal i (\<lambda>r. r\<lparr>j_undo_attempts := j_undo_attempts r + 1\<rparr>) db
      in (case get_by_id db' i of Some r \<Rightarrow> j_undo_attempts r | None \<Rightarrow> 0, db'))"

text \<open>Rows of a group come in the order of their insertion, which is that of \<open>created_at\<close>.\<close>

definition list_by_turn :: "Db \<Rightarrow> string \<Rightarrow> string \<Rightarrow> JournalRow list" where
  "list_by_turn db turn_id session_id =
     filter (\<lambda>r. j_turn_id r = Some turn_id \<and> j_session_id r = session_id) (db_journal db)"

definition list_by_run :: "Db \<Rightarrow> string \<Rightarrow> string \<Rightarrow> JournalRow list" where
  "list_by_run db run_id session_id =
     filter (\<lambda>r. j_run_id r = Some run_id \<and> j_session_id r = session_id) (db_journal db)"

section \<open>Local mutations\<close>

datatype LocalMutation =
    TaskCreate (m_id: string) string "string option" string "string option"
  | TaskComplete (m_id: string)
  | TaskDelete (m_id: string)
  | NoteSave (m_id: string) string string "string option" "string option"
  | NoteUpdate (m_id: string) string string
  | NoteDelete (m_id: string)
  | ReminderAdd (m_id: string) string string "string option" string
  | ReminderDelete (m_id: string)
  | MemoryForget (m_id: string)
  | WorkItemDelete (m_id: string)
  | CalendarAdd (m_id: string) string "string option" "string option" string string bool "string option"
  | CalendarDeleteSeries (m_id: string)
  | CalendarDeleteOccurrence (m_id: string) (m_occurrence_start: string)

fun m_table :: "LocalMutation \<Rightarrow> LocalTable" where
  "m_table (TaskCreate _ _ _ _ _) = Tasks"
| "m_table (TaskComplete _) = Tasks"
| "m_table (TaskDelete _) = Tasks"
| "m_table (NoteSave _ _ _ _ _) = Notes"
| "m_table (NoteUpdate _ _ _) = Notes"
| "m_table (NoteDelete _) = Notes"
| "m_table (ReminderAdd _ _ _ _ _) = Reminders"
| "m_table (ReminderDelete _) = Reminders"
| "m_table (MemoryForget _) = KmsFacts"
| "m_table (WorkItemDelete _) = WorkItems"
| "m_table (CalendarAdd _ _ _ _ _ _ _ _) = Calendar"
| "m_table (CalendarDeleteSeries _) = Calendar"
| "m_table (CalendarDeleteOccurrence _ _) = Calendar"

fun is_create :: "LocalMutation \<Rightarrow> bool" where
  "is_create (TaskCreate _ _ _ _ _) = True"
| "is_create (NoteSave _ _ _ _ _) = True"
| "is_create (ReminderAdd _ _ _ _ _) = True"
| "is_create (CalendarAdd _ _ _ _ _ _ _ _) = True"
| "is_create _ = False"

fun explicit_pre_state :: "LocalMutation \<Rightarrow> json option" where
  "explicit_pre_state (CalendarDeleteOccurrence event_id occurrence_start) =
     Some (JObj [(''event_id'', JStr event_id), (''occurrence_start'', JStr occurrence_start)])"
| "explicit_pre_state _ = None"

fun idempotency_id :: "LocalMutation \<Rightarrow> string" where
  "idempotency_id (CalendarDeleteOccurrence event_id occurrence_start) = event_id @ ''@'' @ occurrence_start"
| "idempotency_id m = m_id m"

definition row_to_json :: "row \<Rightarrow> string list \<Rightarrow> json" where
  "row_to_json r cols = JObj (map (\<lambda>c. (c, case r c of Some v \<Rightarrow> JStr v | None \<Rightarrow> JNull)) cols)"

definition snapshot_row :: "Db \<Rightarrow> LocalTable \<Rightarrow> string \<Rightarrow> json option" where
  "snapshot_row db t i = map_option (\<lambda>r. row_to_json r (whitelisted_columns t)) (db_rows db t i)"

definition reminder_is_fired :: "Db \<Rightarrow> string \<Rightarrow> bool" where
  "reminder_is_fired db i = (case db_rows db Reminders i of Some r \<Rightarrow> r ''fired_at'' \<noteq> None | None \<Rightarrow> False)"

definition row_exists :: "Db \<Rightarrow> LocalTable \<Rightarrow> string \<Rightarrow> bool" where
  "row_exists db t i \<longleftrightarrow> db_rows db t i \<noteq> None"

text \<open>The condition \<open>WHERE id = ? AND updated_at = ?\<close> of the restore statements.\<close>

definition at_version :: "string \<Rightarrow> row \<Rightarrow> bool" where
  "at_version v r \<longleftrightarrow> r ''updated_at'' = Some v"

definition settable :: "LocalTable \<Rightarrow> json \<Rightarrow> string list" where
  "settable t pre_state =
     filter (\<lambda>c. c \<noteq> ''id'' \<and> c \<noteq> ''updated_at'' \<and> jget pre_state c \<noteq> None) (whitelisted_columns t)"

definition restore_row :: "string \<Rightarrow> Db \<Rightarrow> LocalTable \<Rightarrow> string \<Rightarrow> json \<Rightarrow> string \<Rightarrow> nat \<times> Db" where
  "restore_row now db t i pre_state expected_updated_at =
     (if settable t pre_state = [] then (0, db)
      else update_row db t i (at_version expected_updated_at)
        (\<lambda>r c. if c = ''updated_at'' then Some now
               else if c \<in> set (settable t pre_state) then Option.bind (jget pre_state c) as_str
               else r c))"

definition clear_deleted_at :: "string \<Rightarrow> Db \<Rightarrow> LocalTable \<Rightarrow> string \<Rightarrow> string \<Rightarrow> nat \<times> Db" where
  "clear_deleted_at now db t i expected_updated_at =
     update_row db t i (at_version expected_updated_at)
       (\<lambda>r. r(''deleted_at'' := None, ''updated_at'' := Some now))"

definition soft_delete_row :: "string \<Rightarrow> Db \<Rightarrow> LocalTable \<Rightarrow> string \<Rightarrow> string \<Rightarrow> nat \<times> Db" where
  "soft_delete_row now db t i expected_updated_at =
     update_row db t i (at_version expected_updated_at)
       (\<lambda>r. r(''deleted_at'' := Some now, ''updated_at'' := Some now))"

definition remove_exception :: "Db \<Rightarrow> string \<Rightarrow> string \<Rightarrow> nat \<times> Db" where
  "remove_exception db event_id occurrence_start =
     (if (event_id, occurrence_start) |\<in>| db_exceptions db
      then (1, db\<lparr>db_exceptions := db_exceptions db |-| {|(event_id, occurrence_start)|}\<rparr>) else (0, db))"

definition insert_exception :: "Db \<Rightarrow> string \<Rightarrow> string \<Rightarrow> nat \<times> Db" where
  "insert_exception db event_id occurrence_start =
     (if (event_id, occurrence_start) |\<in>| db_exceptions db then (0, db)
      else (1, db\<lparr>db_exceptions := finsert (event_id, occurrence_start) (db_exceptions db)\<rparr>))"

text \<open>The statement shared by the soft deletes: \<open>WHERE id = ? AND deleted_at IS NULL\<close>.\<close>

definition live :: "row \<Rightarrow> bool" where
  "live r \<longleftrightarrow> r ''deleted_at'' = None"

definition mark_deleted :: "string \<Rightarrow> Db \<Rightarrow> LocalTable \<Rightarrow> string \<Rightarrow> nat \<times> Db" where
  "mark_deleted now db t i =
     update_row db t i live (\<lambda>r. r(''deleted_at'' := Some now, ''updated_at'' := Some now))"

fun apply_mutation :: "string \<Rightarrow> Db \<Rightarrow> LocalMutation \<Rightarrow> db_error + nat \<times> Db" where
  "apply_mutation now db (TaskCreate i title description priority due_at) =
     insert_row db Tasks i (row_of [(''id'', Some i), (''title'', Some title), (''description'', description),
       (''priority'', Some priority), (''status'', Some ''todo''), (''due_at'', due_at),
       (''created_at'', Some now), (''updated_at'', Some now)])"
| "apply_mutation now db (TaskComplete i) =
     Inr (update_row db Tasks i live
       (\<lambda>r. r(''status'' := Some ''done'', ''completed_at'' := Some now, ''updated_at'' := Some now)))"
| "apply_mutation now db (TaskDelete i) = Inr (mark_deleted now db Tasks i)"
| "apply_mutation now db (NoteSave i title content tags wikilinks) =
     (case insert_row db Notes i (row_of [(''id'', Some i), (''title'', Some title), (''content'', Some content),
        (''tags'', tags), (''wikilinks'', wikilinks), (''created_at'', Some now), (''updated_at'', Some now)]) of
        Inl e \<Rightarrow> Inl e
      | Inr (n, db') \<Rightarrow>
          Inr (n, if wikilinks \<noteq> None
                  then snd (update_row db' Notes i (\<lambda>_. True)
                    (\<lambda>r. r(''wikilinks'' := wikilinks, ''updated_at'' := Some now)))
                  else db'))"
| "apply_mutation now db (NoteUpdate i title content) =
     Inr (update_row db Notes i live
       (\<lambda>r. r(''title'' := Some title, ''content'' := Some content, ''updated_at'' := Some now)))"
| "apply_mutation now db (NoteDelete i) = Inr (mark_deleted now db Notes i)"
| "apply_mutation now db (ReminderAdd i title fire_at recurrence session_id) =
     insert_row db Reminders i (row_of [(''id'', Some i), (''title'', Some title), (''fire_at'', Some fire_at),
       (''recurrence'', recurrence), (''session_id'', Some session_id), (''created_at'', Some now),
       (''updated_at'', Some now)])"
| "apply_mutation now db (ReminderDelete i) = Inr (mark_deleted now db Reminders i)"
| "apply_mutation now db (MemoryForget i) = Inr (mark_deleted now db KmsFacts i)"
| "apply_mutation now db (WorkItemDelete i) = Inr (mark_deleted now db WorkItems i)"
| "apply_mutation now db (CalendarAdd i title description loc start_at end_at all_day recurrence) =
     insert_row db Calendar i (row_of [(''id'', Some i), (''title'', Some title), (''description'', description),
       (''location'', loc), (''start_at'', Some start_at), (''end_at'', Some end_at),
       (''all_day'', Some (if all_day then ''1'' else ''0'')), (''recurrence'', recurrence),
       (''created_at'', Some now), (''updated_at'', Some now)])"
| "apply_mutation now db (CalendarDeleteSeries i) = Inr (mark_deleted now db Calendar i)"
| "apply_mutation now db (CalendarDeleteOccurrence event_id occurrence_start) =
     Inr (insert_exception db event_id occurrence_start)"

definition read_updated_at :: "Db \<Rightarrow> LocalTable \<Rightarrow> string \<Rightarrow> string option" where
  "read_updated_at db t i = Option.bind (db_rows db t i) (\<lambda>r. r ''updated_at'')"

text \<open>
  The pre-state of a write: what the transaction reads before it journals the write, \<open>None\<close> when there is
  nothing to write to.
\<close>

definition write_pre_state :: "Db \<Rightarrow> LocalMutation \<Rightarrow> json option option" where
  "write_pre_state db m =
     (case explicit_pre_state m of
        Some explicit \<Rightarrow>
          (case m of
             CalendarDeleteOccurrence event_id occurrence_start \<Rightarrow>
               if (event_id, occurrence_start) |\<in>| db_exceptions db then None else Some (Some explicit)
           | _ \<Rightarrow> Some (Some explicit))
      | None \<Rightarrow>
          if is_create m then Some None
          else (case snapshot_row db (m_table m) (m_id m) of Some v \<Rightarrow> Some (Some v) | None \<Rightarrow> None))"

text \<open>
  An error or \<open>None\<close> means that the transaction was rolled back. \<open>now\<close> is the time of the write,
  \<open>now_j\<close> that of the journal row, \<open>expires\<close> the end of its retention.
\<close>

definition local_journaled_write ::
  "Db \<Rightarrow> string \<Rightarrow> string \<Rightarrow> string \<Rightarrow> string \<Rightarrow> LocalMutation \<Rightarrow> string \<Rightarrow> string \<Rightarrow> string \<Rightarrow> string
    \<Rightarrow> string option \<Rightarrow> db_error + ((JournalRow \<times> string) \<times> Db) option" where
  "local_journaled_write db now now_j new_id expires m session_id tool_name tool_tier request_params turn_id =
     (case write_pre_state db m of
        None \<Rightarrow> Inr None
      | Some pre_state \<Rightarrow>
          (case insert_via db new_id now_j
                  \<lparr>na_session_id = session_id, na_tool_name = tool_name, na_tool_tier = tool_tier,
                   na_compensability = ''compensatable'',
                   na_idempotency_key = tool_name @ '':'' @ idempotency_id m, na_correlation_ref = m_id m,
                   na_request_params = request_params, na_pre_state = map_option Text_of pre_state,
                   na_pre_state_version = None, na_compensation_plan = None, na_turn_id = turn_id,
                   na_retention_expires_at = expires, na_manifest_hash = None\<rparr> None None of
             Inl e \<Rightarrow> Inl e
           | Inr (r, db1) \<Rightarrow>
               (case apply_mutation now db1 m of
                  Inl e \<Rightarrow> Inl e
                | Inr (affected, db2) \<Rightarrow>
                    if affected = 0 then Inr None
                    else (case read_updated_at db2 (m_table m) (m_id m) of
                            None \<Rightarrow> Inl Vanished
                          | Some v \<Rightarrow>
                              Inr (Some ((r, v), set_readback (j_id r) ''match'' None
                                                   (set_post_state_version (j_id r) v db2)))))))"

end
