(* ===== verification/LocalUndo.thy ===== *)
theory LocalUndo
  imports LocalJournal
begin

text \<open>
  Undo of a local tool's write (\<open>crates/haily-tools/src/journal_undo/local_compensator.rs\<close>), with the write
  and its undo as a round trip. Of \<open>KmsHandle::restore_fact\<close> (\<open>crates/haily-kms/src/lib.rs\<close>) the statement on
  the table is modelled, the in-memory vector index is not.
\<close>

section \<open>Definitions\<close>

text \<open>A point in time: what \<open>parse_from_rfc3339\<close> reads, the current time and its text.\<close>

record clock =
  ck_parse :: "string \<Rightarrow> nat option"
  ck_now :: nat
  ck_text :: string

definition LOCAL_TOOL_TABLES :: "(string \<times> LocalTable) list" where
  "LOCAL_TOOL_TABLES =
     [(''task_create'', Tasks), (''task_complete'', Tasks), (''task_delete'', Tasks),
      (''note_save'', Notes), (''note_update'', Notes), (''note_delete'', Notes),
      (''reminder_add'', Reminders), (''reminder_delete'', Reminders), (''memory_forget'', KmsFacts),
      (''work_item_delete'', WorkItems), (''calendar_add'', Calendar), (''calendar_delete_series'', Calendar),
      (''calendar_delete_occurrence'', Calendar)]"

datatype LocalOpKind = KCreate | KUpdate | KDelete | KDeleteOccurrence

definition op_kind :: "string \<Rightarrow> LocalOpKind option" where
  "op_kind tool_name =
     (if tool_name \<in> {''task_create'', ''note_save'', ''reminder_add'', ''calendar_add''} then Some KCreate
      else if tool_name \<in> {''task_complete'', ''note_update''} then Some KUpdate
      else if tool_name \<in> {''task_delete'', ''note_delete'', ''reminder_delete'', ''memory_forget'',
                            ''work_item_delete'', ''calendar_delete_series''} then Some KDelete
      else if tool_name = ''calendar_delete_occurrence'' then Some KDeleteOccurrence
      else None)"

definition local_table_for :: "string \<Rightarrow> LocalTable option" where
  "local_table_for tool_name = map_of LOCAL_TOOL_TABLES tool_name"

definition is_local_row :: "JournalRow \<Rightarrow> bool" where
  "is_local_row r \<longleftrightarrow> j_compensation_plan r = None \<and> local_table_for (j_tool_name r) \<noteq> None"

datatype refusal =
    NotInSession | AlreadyUndone | IsFinal | RetentionExpired | NoPlan | MismatchNoPreState
  | NoConnector | ManifestChanged | RecordChanged | NoTarget
  | NoTable | NoKind | ReminderFired | NoPreState | NoOccurrenceStart

datatype failure = CredentialLocked | NotVerified | Unreachable
datatype terminal = AttemptsExhausted | NoVersion | ServerFault string

datatype UndoOutcome = Undone | Refused refusal | AlreadyDone | Failed failure | Stuck terminal

definition retention_expired :: "clock \<Rightarrow> string \<Rightarrow> bool" where
  "retention_expired clk s = (case ck_parse clk s of Some t \<Rightarrow> t < ck_now clk | None \<Rightarrow> True)"

definition local_refusal_reason :: "clock \<Rightarrow> JournalRow \<Rightarrow> string \<Rightarrow> refusal option" where
  "local_refusal_reason clk r session_id =
     (if j_session_id r \<noteq> session_id then Some NotInSession
      else if j_undo_status r = ''undone'' then Some AlreadyUndone
      else if j_compensability r = ''final'' then Some IsFinal
      else if retention_expired clk (j_retention_expires_at r) then Some RetentionExpired
      else None)"

definition refuse :: "clock \<Rightarrow> Db \<Rightarrow> string \<Rightarrow> refusal \<Rightarrow> UndoOutcome \<times> Db" where
  "refuse clk db i reason = (Refused reason, advance_undo_status (ck_text clk) i ''refused'' db)"

text \<open>The table's half of \<open>KmsHandle::restore_fact\<close>, i.e. \<open>facts::clear_deleted_at\<close>.\<close>

definition restore_fact :: "string \<Rightarrow> Db \<Rightarrow> string \<Rightarrow> string \<Rightarrow> nat \<times> Db" where
  "restore_fact now db i expected_updated_at =
     update_row db KmsFacts i (\<lambda>r. at_version expected_updated_at r \<and> r ''deleted_at'' \<noteq> None)
       (\<lambda>r. r(''deleted_at'' := None, ''updated_at'' := Some now))"

text \<open>The compensating statement of each kind, or the reason why there is none.\<close>

fun compensate_local :: "string \<Rightarrow> LocalOpKind \<Rightarrow> Db \<Rightarrow> LocalTable \<Rightarrow> JournalRow \<Rightarrow> string \<Rightarrow> refusal + nat \<times> Db" where
  "compensate_local now KCreate db t r v = Inr (soft_delete_row now db t (j_correlation_ref r) v)"
| "compensate_local now KDelete db t r v = Inr (clear_deleted_at now db t (j_correlation_ref r) v)"
| "compensate_local now KUpdate db t r v =
     (case Option.bind (j_pre_state r) parse_json of
        Some pre \<Rightarrow> Inr (restore_row now db t (j_correlation_ref r) pre v)
      | None \<Rightarrow> Inl NoPreState)"
| "compensate_local now KDeleteOccurrence db t r v =
     (case Option.bind (j_pre_state r) parse_json of
        Some pre \<Rightarrow>
          (case Option.bind (jget pre ''occurrence_start'') as_str of
             Some occurrence_start \<Rightarrow> Inr (remove_exception db (j_correlation_ref r) occurrence_start)
           | None \<Rightarrow> Inl NoOccurrenceStart)
      | None \<Rightarrow> Inl NoPreState)"

definition finish_undone :: "clock \<Rightarrow> string \<Rightarrow> Db \<Rightarrow> Db" where
  "finish_undone clk i db = advance_undo_status (ck_text clk) i ''undone'' (set_readback i ''match'' None db)"

definition local_attempt_undo :: "clock \<Rightarrow> Db \<Rightarrow> JournalRow \<Rightarrow> string \<Rightarrow> UndoOutcome \<times> Db" where
  "local_attempt_undo clk db r session_id =
     (let now = ck_text clk in
      case local_refusal_reason clk r session_id of
        Some reason \<Rightarrow> refuse clk db (j_id r) reason
      | None \<Rightarrow>
          (case (local_table_for (j_tool_name r), op_kind (j_tool_name r)) of
             (None, _) \<Rightarrow> refuse clk db (j_id r) NoTable
           | (Some t, None) \<Rightarrow> refuse clk db (j_id r) NoKind
           | (Some t, Some kind) \<Rightarrow>
               if t = Reminders \<and> reminder_is_fired db (j_correlation_ref r)
               then refuse clk db (j_id r) ReminderFired
               else
                 (let db1 = snd (increment_undo_attempt (j_id r)
                              (advance_undo_status now (j_id r) ''undo_requested'' db))
                  in case j_post_state_version r of
                       None \<Rightarrow> (Stuck NoVersion, advance_undo_status now (j_id r) ''stuck'' db1)
                     | Some v \<Rightarrow>
                         (let db2 = advance_undo_status now (j_id r) ''compensating'' db1
                          in if t = KmsFacts
                             then (let (affected, db3) = restore_fact now db2 (j_correlation_ref r) v
                                   in if affected = 0 then refuse clk db3 (j_id r) RecordChanged
                                      else (Undone, finish_undone clk (j_id r) db3))
                             else (case compensate_local now kind db2 t r v of
                                     Inl reason \<Rightarrow> refuse clk db2 (j_id r) reason
                                   | Inr (affected, db3) \<Rightarrow>
                                       if affected = 0 then refuse clk db2 (j_id r) RecordChanged
                                       else (Undone, finish_undone clk (j_id r) db3))))))"

section \<open>Frames of the statements\<close>

lemma get_by_id_update:
  assumes "\<And>q. j_id (f q) = j_id q"
  shows "get_by_id (update_journal i f db) k = (if k = i then map_option f (get_by_id db i) else get_by_id db k)"
proof -
  have "find (\<lambda>q. j_id q = k) (map (\<lambda>q. if j_id q = i then f q else q) qs) =
      (if k = i then map_option f (find (\<lambda>q. j_id q = i) qs) else find (\<lambda>q. j_id q = k) qs)" for qs
    using assms by (induction qs) auto
  then show ?thesis by (simp add: get_by_id_def update_journal_def)
qed

lemmas journal_defs = update_journal_def set_readback_def set_post_state_version_def advance_undo_status_def
  increment_undo_attempt_def finish_undone_def

lemma journal_frame [simp]:
  "db_rows (update_journal i f db) = db_rows db" "db_exceptions (update_journal i f db) = db_exceptions db"
  "db_rows (set_readback i st po db) = db_rows db" "db_exceptions (set_readback i st po db) = db_exceptions db"
  "db_rows (set_post_state_version i v db) = db_rows db"
  "db_exceptions (set_post_state_version i v db) = db_exceptions db"
  "db_rows (advance_undo_status now i st db) = db_rows db"
  "db_exceptions (advance_undo_status now i st db) = db_exceptions db"
  "db_rows (snd (increment_undo_attempt i db)) = db_rows db"
  "db_exceptions (snd (increment_undo_attempt i db)) = db_exceptions db"
  "db_rows (finish_undone clk i db) = db_rows db" "db_exceptions (finish_undone clk i db) = db_exceptions db"
  by (simp_all add: journal_defs Let_def)

lemma refuse_frame:
  assumes "refuse clk db i reason = (out, db')"
  shows "out = Refused reason \<and> db_rows db' = db_rows db \<and> db_exceptions db' = db_exceptions db"
  using assms by (auto simp: refuse_def)

lemma update_row_cases:
  assumes "update_row db t i cond f = (n, db')"
  shows "(n = 0 \<and> db' = db) \<or>
    (\<exists>r. n = 1 \<and> db_rows db t i = Some r \<and> cond r \<and>
         db' = db\<lparr>db_rows := (db_rows db)(t := (db_rows db t)(i \<mapsto> f r))\<rparr>)"
  using assms by (auto simp: update_row_def split: option.splits if_splits)

text \<open>What a guarded statement needs and what it may touch.\<close>

lemma compensate_local_cases:
  assumes "compensate_local now kind db t r v = Inr (n, db')"
  shows "(n = 0 \<and> db' = db) \<or>
    (n = 1 \<and> (kind = KDeleteOccurrence \<or>
       (\<exists>q. db_rows db t (j_correlation_ref r) = Some q \<and> at_version v q)))"
  using assms
  by (cases kind)
    (auto simp: soft_delete_row_def clear_deleted_at_def restore_row_def remove_exception_def
      dest!: update_row_cases split: option.splits if_splits)

text \<open>The outcomes of an attempt: nothing was touched, or the compensating statement took effect.\<close>

definition undo_step :: "clock \<Rightarrow> LocalOpKind \<Rightarrow> Db \<Rightarrow> LocalTable \<Rightarrow> JournalRow \<Rightarrow> string \<Rightarrow> refusal + nat \<times> Db" where
  "undo_step clk kind db t r v =
     (if t = KmsFacts then Inr (restore_fact (ck_text clk) db (j_correlation_ref r) v)
      else compensate_local (ck_text clk) kind db t r v)"

lemma undo_step_cases:
  assumes "undo_step clk kind db t r v = Inr (n, db')"
  shows "(n = 0 \<and> db' = db) \<or>
    (n = 1 \<and> (kind = KDeleteOccurrence \<or>
       (\<exists>q. db_rows db t (j_correlation_ref r) = Some q \<and> at_version v q)))"
  using assms
  by (auto simp: undo_step_def restore_fact_def dest!: compensate_local_cases update_row_cases split: if_splits)

definition requested :: "clock \<Rightarrow> JournalRow \<Rightarrow> Db \<Rightarrow> Db" where
  "requested clk r db = advance_undo_status (ck_text clk) (j_id r) ''compensating''
     (snd (increment_undo_attempt (j_id r) (advance_undo_status (ck_text clk) (j_id r) ''undo_requested'' db)))"

lemma requested_frame [simp]:
  "db_rows (requested clk r db) = db_rows db" "db_exceptions (requested clk r db) = db_exceptions db"
  by (simp_all add: requested_def)

lemma local_attempt_undo_eq:
  "local_attempt_undo clk db r session_id =
     (case local_refusal_reason clk r session_id of
        Some reason \<Rightarrow> refuse clk db (j_id r) reason
      | None \<Rightarrow>
          (case (local_table_for (j_tool_name r), op_kind (j_tool_name r)) of
             (None, _) \<Rightarrow> refuse clk db (j_id r) NoTable
           | (Some t, None) \<Rightarrow> refuse clk db (j_id r) NoKind
           | (Some t, Some kind) \<Rightarrow>
               if t = Reminders \<and> reminder_is_fired db (j_correlation_ref r)
               then refuse clk db (j_id r) ReminderFired
               else (case j_post_state_version r of
                       None \<Rightarrow> (Stuck NoVersion, advance_undo_status (ck_text clk) (j_id r) ''stuck''
                          (snd (increment_undo_attempt (j_id r)
                             (advance_undo_status (ck_text clk) (j_id r) ''undo_requested'' db))))
                     | Some v \<Rightarrow>
                         (case undo_step clk kind (requested clk r db) t r v of
                            Inl reason \<Rightarrow> refuse clk (requested clk r db) (j_id r) reason
                          | Inr (n, db3) \<Rightarrow>
                              if n = 0 then refuse clk (requested clk r db) (j_id r) RecordChanged
                              else (Undone, finish_undone clk (j_id r) db3)))))"
proof (cases "local_refusal_reason clk r session_id")
  case None
  have kms: "snd (restore_fact now d i v) = d" if "fst (restore_fact now d i v) = 0" for now d i v
    using that by (auto simp: restore_fact_def update_row_def split: option.splits if_splits)
  show ?thesis
  proof (cases "\<exists>t kind v. local_table_for (j_tool_name r) = Some t \<and> op_kind (j_tool_name r) = Some kind \<and>
      j_post_state_version r = Some v")
    case True
    then obtain t kind v where "local_table_for (j_tool_name r) = Some t" "op_kind (j_tool_name r) = Some kind"
      "j_post_state_version r = Some v" by blast
    with None kms show ?thesis
      by (simp add: local_attempt_undo_def undo_step_def requested_def [symmetric] Let_def case_prod_beta
          split: sum.split)
  next
    case False
    with None show ?thesis
      by (cases "local_table_for (j_tool_name r)"; cases "op_kind (j_tool_name r)"; cases "j_post_state_version r")
        (simp_all add: local_attempt_undo_def Let_def)
  qed
qed (simp add: local_attempt_undo_def Let_def)

lemma local_attempt_undo_Undone:
  assumes "local_attempt_undo clk db r session_id = (Undone, db')"
  obtains t kind v n db3 where
    "local_refusal_reason clk r session_id = None" "local_table_for (j_tool_name r) = Some t"
    "op_kind (j_tool_name r) = Some kind" "j_post_state_version r = Some v"
    "undo_step clk kind (requested clk r db) t r v = Inr (n, db3)" "n \<noteq> 0"
    "db' = finish_undone clk (j_id r) db3"
  using assms
  by (auto simp: local_attempt_undo_eq refuse_def split: option.splits sum.splits if_splits prod.splits)

lemma local_attempt_undo_other:
  assumes "local_attempt_undo clk db r session_id = (out, db')" "out \<noteq> Undone"
  shows "db_rows db' = db_rows db \<and> db_exceptions db' = db_exceptions db"
  using assms
  by (auto simp: local_attempt_undo_eq refuse_def split: option.splits sum.splits if_splits prod.splits)

section \<open>Undo is guarded\<close>


section \<open>A write and its undo\<close>

text \<open>The name under which each tool journals its write (\<open>crates/haily-tools/src/v1\<close>).\<close>

fun tool_of :: "LocalMutation \<Rightarrow> string" where
  "tool_of (TaskCreate _ _ _ _ _) = ''task_create''"
| "tool_of (TaskComplete _) = ''task_complete''"
| "tool_of (TaskDelete _) = ''task_delete''"
| "tool_of (NoteSave _ _ _ _ _) = ''note_save''"
| "tool_of (NoteUpdate _ _ _) = ''note_update''"
| "tool_of (NoteDelete _) = ''note_delete''"
| "tool_of (ReminderAdd _ _ _ _ _) = ''reminder_add''"
| "tool_of (ReminderDelete _) = ''reminder_delete''"
| "tool_of (MemoryForget _) = ''memory_forget''"
| "tool_of (WorkItemDelete _) = ''work_item_delete''"
| "tool_of (CalendarAdd _ _ _ _ _ _ _ _) = ''calendar_add''"
| "tool_of (CalendarDeleteSeries _) = ''calendar_delete_series''"
| "tool_of (CalendarDeleteOccurrence _ _) = ''calendar_delete_occurrence''"

fun kind_of :: "LocalMutation \<Rightarrow> LocalOpKind" where
  "kind_of (CalendarDeleteOccurrence _ _) = KDeleteOccurrence"
| "kind_of (TaskComplete _) = KUpdate"
| "kind_of (NoteUpdate _ _ _) = KUpdate"
| "kind_of m = (if is_create m then KCreate else KDelete)"

lemma tool_of_tables [simp]:
  "local_table_for (tool_of m) = Some (m_table m)" "op_kind (tool_of m) = Some (kind_of m)"
  by (cases m; simp add: local_table_for_def LOCAL_TOOL_TABLES_def op_kind_def)+

lemma find_last: "\<forall>x\<in>set xs. \<not> P x \<Longrightarrow> find P (xs @ [y]) = (if P y then Some y else None)"
  by (induction xs) auto

lemma apply_mutation_journal:
  "apply_mutation now db m = Inr (n, db') \<Longrightarrow> db_journal db' = db_journal db"
  by (cases m)
    (auto simp: insert_row_def update_row_def mark_deleted_def insert_exception_def
      split: if_splits sum.splits option.splits)

text \<open>What a successful write leaves: the journalled row and the mutated record.\<close>

lemma local_journaled_write_Some:
  assumes wr: "local_journaled_write db now now_j jid expires m sid tool tier params turn = Inr (Some ((r, v), db1))"
    and row: "get_by_id_scoped db1 jid sid = Some row"
  obtains pre n dbm where "write_pre_state db m = Some pre"
    "apply_mutation now (db\<lparr>db_journal := db_journal db @ [r]\<rparr>) m = Inr (n, dbm)" "n \<noteq> 0"
    "read_updated_at dbm (m_table m) (m_id m) = Some v"
    "db_rows db1 = db_rows dbm" "db_exceptions db1 = db_exceptions dbm"
    "j_id row = jid" "j_session_id row = sid" "j_tool_name row = tool" "j_compensability row = ''compensatable''"
    "j_correlation_ref row = m_id m" "j_pre_state row = map_option Text_of pre"
    "j_post_state_version row = Some v" "j_undo_status row = ''not_requested''"
    "j_retention_expires_at row = expires"
proof -
  from wr obtain pre dbm n where
      pre: "write_pre_state db m = Some pre"
    and fresh: "\<forall>q\<in>set (db_journal db). j_id q \<noteq> jid"
    and r: "j_id r = jid" "j_session_id r = sid" "j_tool_name r = tool" "j_compensability r = ''compensatable''"
      "j_correlation_ref r = m_id m" "j_pre_state r = map_option Text_of pre" "j_undo_status r = ''not_requested''"
      "j_retention_expires_at r = expires"
    and app: "apply_mutation now (db\<lparr>db_journal := db_journal db @ [r]\<rparr>) m = Inr (n, dbm)" "n \<noteq> 0"
    and upd: "read_updated_at dbm (m_table m) (m_id m) = Some v"
    and db1: "db1 = set_readback jid ''match'' None (set_post_state_version jid v dbm)"
    by (auto simp: local_journaled_write_def insert_via_def Let_def split: option.splits sum.splits if_splits prod.splits)
  have "db_journal dbm = db_journal db @ [r]" using apply_mutation_journal [OF app(1)] by simp
  then have "db_journal db1 = map (\<lambda>q. if j_id q = jid then q\<lparr>j_post_state_version := Some v,
      j_readback_status := ''match'', j_post_state := None\<rparr> else q) (db_journal db) @
      [r\<lparr>j_post_state_version := Some v, j_readback_status := ''match'', j_post_state := None\<rparr>]"
    using r(1) by (simp add: db1 journal_defs)
  moreover have "\<forall>q \<in> set (map (\<lambda>q. if j_id q = jid then q\<lparr>j_post_state_version := Some v,
      j_readback_status := ''match'', j_post_state := None\<rparr> else q) (db_journal db)).
      \<not> (j_id q = jid \<and> j_session_id q = sid)"
    using fresh by auto
  ultimately have "row = r\<lparr>j_post_state_version := Some v, j_readback_status := ''match'', j_post_state := None\<rparr>"
    using row r by (simp add: get_by_id_scoped_def find_last split: if_splits)
  with that [OF pre app upd] r db1 show thesis by simp
qed

text \<open>The compensating statement of each kind on the record the write left.\<close>

lemma undo_step_delete:
  assumes "db_rows db t (j_correlation_ref r) = Some (q(''deleted_at'' := Some now, ''updated_at'' := Some v))"
    and "q ''deleted_at'' = None"
  shows "undo_step clk KDelete db t r v =
    Inr (1, db\<lparr>db_rows := (db_rows db)(t := (db_rows db t)(j_correlation_ref r \<mapsto> q(''updated_at'' := Some (ck_text clk))))\<rparr>)"
proof -
  have "(q(''deleted_at'' := Some now, ''updated_at'' := Some v))
      (''deleted_at'' := None, ''updated_at'' := Some (ck_text clk)) = q(''updated_at'' := Some (ck_text clk))"
    using assms(2) by (auto simp: fun_eq_iff)
  with assms show ?thesis
    by (cases "t = KmsFacts")
      (simp_all add: undo_step_def restore_fact_def clear_deleted_at_def update_row_def at_version_def)
qed

lemma undo_step_update:
  assumes row: "db_rows db t (j_correlation_ref r) = Some q'" and v: "q' ''updated_at'' = Some v"
    and t: "t \<noteq> KmsFacts" and cols: "\<exists>c \<in> set (whitelisted_columns t). c \<noteq> ''id'' \<and> c \<noteq> ''updated_at''"
    and pre: "j_pre_state r = Some (Text_of (row_to_json q (whitelisted_columns t)))"
    and rest: "\<forall>c. c \<notin> set (whitelisted_columns t) \<or> c = ''id'' \<longrightarrow> q' c = q c"
  shows "undo_step clk KUpdate db t r v =
    Inr (1, db\<lparr>db_rows := (db_rows db)(t := (db_rows db t)(j_correlation_ref r \<mapsto> q(''updated_at'' := Some (ck_text clk))))\<rparr>)"
proof -
  have get: "jget (row_to_json q cs) c =
      (if c \<in> set cs then Some (case q c of Some x \<Rightarrow> JStr x | None \<Rightarrow> JNull) else None)" for cs c
    unfolding row_to_json_def by (induction cs) auto
  have set: "set (settable t (row_to_json q (whitelisted_columns t))) =
      set (whitelisted_columns t) - {''id'', ''updated_at''}"
    by (auto simp: settable_def get)
  with cols have ne: "settable t (row_to_json q (whitelisted_columns t)) \<noteq> []" by (metis Diff_iff empty_iff insert_iff list.set(1))
  have "(\<lambda>c. if c = ''updated_at'' then Some (ck_text clk)
        else if c \<in> set (settable t (row_to_json q (whitelisted_columns t)))
             then Option.bind (jget (row_to_json q (whitelisted_columns t)) c) as_str else q' c)
      = q(''updated_at'' := Some (ck_text clk))"
    using rest by (auto simp: fun_eq_iff set get split: option.split)
  with row v t pre ne show ?thesis
    by (simp add: undo_step_def restore_row_def update_row_def at_version_def)
qed

lemma undo_step_create:
  assumes "db_rows db t (j_correlation_ref r) = Some q" "q ''updated_at'' = Some v" "t \<noteq> KmsFacts"
  shows "undo_step clk KCreate db t r v =
    Inr (1, db\<lparr>db_rows := (db_rows db)(t := (db_rows db t)(j_correlation_ref r \<mapsto>
       q(''deleted_at'' := Some (ck_text clk), ''updated_at'' := Some (ck_text clk))))\<rparr>)"
  using assms by (simp add: undo_step_def soft_delete_row_def update_row_def at_version_def)

text \<open>The forward write of each kind, as it changes its record.\<close>

lemma mark_deleted_Inr:
  assumes "mark_deleted now db t i = (n, db')" "n \<noteq> 0"
  obtains q where "db_rows db t i = Some q" "q ''deleted_at'' = None"
    "db_rows db' t i = Some (q(''deleted_at'' := Some now, ''updated_at'' := Some now))"
  using assms by (auto simp: mark_deleted_def live_def dest!: update_row_cases)

lemma apply_delete:
  assumes "kind_of m = KDelete" "apply_mutation now db m = Inr (n, db')" "n \<noteq> 0"
  obtains q where "db_rows db (m_table m) (m_id m) = Some q" "q ''deleted_at'' = None"
    "db_rows db' (m_table m) (m_id m) = Some (q(''deleted_at'' := Some now, ''updated_at'' := Some now))"
proof -
  have "mark_deleted now db (m_table m) (m_id m) = (n, db')" using assms(1,2) by (cases m) simp_all
  then show thesis using assms(3) that by (rule mark_deleted_Inr)
qed

lemma apply_update:
  assumes "kind_of m = KUpdate" "apply_mutation now db m = Inr (n, db')" "n \<noteq> 0"
  obtains q q' where "db_rows db (m_table m) (m_id m) = Some q"
    "db_rows db' (m_table m) (m_id m) = Some q'" "q' ''updated_at'' = Some now"
    "\<forall>c. c \<notin> set (whitelisted_columns (m_table m)) \<or> c = ''id'' \<longrightarrow> q' c = q c"
  using assms by (cases m) (auto simp: live_def dest!: update_row_cases)

lemma apply_create:
  assumes "kind_of m = KCreate" "apply_mutation now db m = Inr (n, db')"
  obtains q where "db_rows db' (m_table m) (m_id m) = Some q" "q ''updated_at'' = Some now"
  using assms
  by (cases m)
    (auto simp: insert_row_def update_row_def row_of_def split: if_splits sum.splits option.splits)

lemma kms_not: "kind_of m \<noteq> KDelete \<Longrightarrow> m_table m \<noteq> KmsFacts"
  by (cases m) simp_all

text \<open>
  What an undo is to bring back: a created record is hidden again, a deleted occurrence is back in its
  series, and any other record has all its columns as before the write except for its new version.
\<close>

definition restored :: "clock \<Rightarrow> LocalMutation \<Rightarrow> Db \<Rightarrow> Db \<Rightarrow> bool" where
  "restored clk m before after \<longleftrightarrow>
     (case kind_of m of
        KCreate \<Rightarrow> \<exists>q. db_rows after (m_table m) (m_id m) = Some q \<and> q ''deleted_at'' \<noteq> None
      | KDeleteOccurrence \<Rightarrow>
          (m_id m, m_occurrence_start m) |\<notin>| db_exceptions after \<and> db_rows after = db_rows before
      | _ \<Rightarrow> db_rows after (m_table m) (m_id m) =
               map_option (\<lambda>q. q(''updated_at'' := Some (ck_text clk))) (db_rows before (m_table m) (m_id m)))"

lemma undo_step_restores:
  assumes pre: "write_pre_state db m = Some pre"
    and app: "apply_mutation now (db\<lparr>db_journal := js\<rparr>) m = Inr (n, dbm)" "n \<noteq> 0"
    and upd: "read_updated_at dbm (m_table m) (m_id m) = Some v"
    and rows: "db_rows db2 (m_table m) (m_id m) = db_rows dbm (m_table m) (m_id m)"
    and exc: "db_exceptions db2 = db_exceptions dbm"
    and r: "j_correlation_ref r = m_id m" "j_pre_state r = map_option Text_of pre"
  shows "\<exists>db3. undo_step clk (kind_of m) db2 (m_table m) r v = Inr (1, db3) \<and>
    (kind_of m = KDeleteOccurrence \<longrightarrow> db_rows db3 = db_rows db2 \<and>
       (m_id m, m_occurrence_start m) |\<notin>| db_exceptions db3) \<and>
    (kind_of m \<noteq> KDeleteOccurrence \<longrightarrow> restored clk m db db3 \<and>
       (\<forall>t i. (t, i) \<noteq> (m_table m, m_id m) \<longrightarrow> db_rows db3 t i = db_rows db2 t i))"
proof (cases "kind_of m")
  case KCreate
  from apply_create [OF this app(1)] obtain q where q: "db_rows dbm (m_table m) (m_id m) = Some q" "q ''updated_at'' = Some now"
    by blast
  with upd have "v = now" by (simp add: read_updated_at_def)
  with undo_step_create [of db2 "m_table m" r q v] q rows r kms_not [of m] KCreate
  show ?thesis by (auto simp: restored_def)
next
  case KDelete
  from apply_delete [OF this app] obtain q where q: "db_rows db (m_table m) (m_id m) = Some q" "q ''deleted_at'' = None"
    "db_rows dbm (m_table m) (m_id m) = Some (q(''deleted_at'' := Some now, ''updated_at'' := Some now))"
    by auto
  with upd have "v = now" by (simp add: read_updated_at_def)
  with undo_step_delete [of db2 "m_table m" r q now v] q rows r KDelete
  show ?thesis by (auto simp: restored_def)
next
  case KUpdate
  from apply_update [OF this app] obtain q q' where q: "db_rows db (m_table m) (m_id m) = Some q"
    "db_rows dbm (m_table m) (m_id m) = Some q'" "q' ''updated_at'' = Some now"
    "\<forall>c. c \<notin> set (whitelisted_columns (m_table m)) \<or> c = ''id'' \<longrightarrow> q' c = q c"
    by auto
  with upd have v: "v = now" by (simp add: read_updated_at_def)
  have p: "pre = Some (row_to_json q (whitelisted_columns (m_table m)))"
    using pre q(1) KUpdate by (cases m) (auto simp: write_pre_state_def snapshot_row_def split: if_splits)
  have c: "\<exists>c \<in> set (whitelisted_columns (m_table m)). c \<noteq> ''id'' \<and> c \<noteq> ''updated_at''"
    using KUpdate by (cases m) auto
  have "undo_step clk KUpdate db2 (m_table m) r v = Inr (1, db2\<lparr>db_rows := (db_rows db2)(m_table m :=
      (db_rows db2 (m_table m))(j_correlation_ref r \<mapsto> q(''updated_at'' := Some (ck_text clk))))\<rparr>)"
    by (rule undo_step_update [OF _ _ _ c _ q(4)]) (use q(1-3) rows r v p kms_not [of m] KUpdate in simp_all)
  then show ?thesis using KUpdate r q(1) by (simp add: restored_def)
next
  case KDeleteOccurrence
  then obtain e s where m: "m = CalendarDeleteOccurrence e s" by (cases m) (auto split: if_splits)
  with pre have "pre = Some (JObj [(''event_id'', JStr e), (''occurrence_start'', JStr s)])"
    by (auto simp: write_pre_state_def split: if_splits)
  moreover have "insert_exception (db\<lparr>db_journal := js\<rparr>) e s = (n, dbm)" using app(1) m by simp
  then have "(e, s) |\<in>| db_exceptions dbm" using app(2) by (auto simp: insert_exception_def split: if_splits)
  ultimately show ?thesis
    using r m exc by (simp add: undo_step_def remove_exception_def)
qed

text \<open>
  Property C7: undo is the inverse of a local write. If a tool's write was journalled, its record has not been
  touched since (any other record may have been), the retention has not ended and, for a reminder, it has
  not fired, then undoing the journalled row in the same session succeeds and restores the record:
  all columns of an updated or deleted record are as before the write, a created record is hidden, a
  deleted occurrence is back, and no other record changes.
\<close>

theorem write_undo_roundtrip:
  assumes "local_journaled_write db now now_j jid expires m sid (tool_of m) tier params turn = Inr (Some ((r, v), db1))"
    and "get_by_id_scoped db1 jid sid = Some row"
    and "db_rows db2 (m_table m) (m_id m) = db_rows db1 (m_table m) (m_id m)"
    and "db_exceptions db2 = db_exceptions db1"
    and "kind_of m = KDeleteOccurrence \<Longrightarrow> db_rows db2 = db_rows db"
    and "\<not> retention_expired clk expires"
    and "\<not> (m_table m = Reminders \<and> reminder_is_fired db2 (m_id m))"
  shows "\<exists>db3. local_attempt_undo clk db2 row sid = (Undone, db3) \<and> restored clk m db db3 \<and>
    (\<forall>t i. (t, i) \<noteq> (m_table m, m_id m) \<longrightarrow> db_rows db3 t i = db_rows db2 t i)"
proof -
  from assms(1,2) obtain pre n dbm where w: "write_pre_state db m = Some pre"
    "apply_mutation now (db\<lparr>db_journal := db_journal db @ [r]\<rparr>) m = Inr (n, dbm)" "n \<noteq> 0"
    "read_updated_at dbm (m_table m) (m_id m) = Some v"
    "db_rows db1 = db_rows dbm" "db_exceptions db1 = db_exceptions dbm"
    and row: "j_id row = jid" "j_session_id row = sid" "j_tool_name row = tool_of m"
    "j_compensability row = ''compensatable''" "j_correlation_ref row = m_id m"
    "j_pre_state row = map_option Text_of pre" "j_post_state_version row = Some v"
    "j_undo_status row = ''not_requested''" "j_retention_expires_at row = expires"
    by (rule local_journaled_write_Some)
  have rows: "db_rows (requested clk row db2) (m_table m) (m_id m) = db_rows dbm (m_table m) (m_id m)"
    and exc: "db_exceptions (requested clk row db2) = db_exceptions dbm"
    using assms(3,4) w(5,6) by simp_all
  from undo_step_restores [OF w(1-4) rows exc row(5,6), of clk]
  obtain db3 where st: "undo_step clk (kind_of m) (requested clk row db2) (m_table m) row v = Inr (1, db3)"
    and occ: "kind_of m = KDeleteOccurrence \<longrightarrow> db_rows db3 = db_rows db2 \<and>
       (m_id m, m_occurrence_start m) |\<notin>| db_exceptions db3"
    and res: "kind_of m \<noteq> KDeleteOccurrence \<longrightarrow> restored clk m db db3 \<and>
       (\<forall>t i. (t, i) \<noteq> (m_table m, m_id m) \<longrightarrow> db_rows db3 t i = db_rows db2 t i)"
    by auto
  have "local_refusal_reason clk row sid = None" using row assms(6) by (simp add: local_refusal_reason_def)
  then have "local_attempt_undo clk db2 row sid = (Undone, finish_undone clk jid db3)"
    using row assms(7) st by (auto simp: local_attempt_undo_eq)
  moreover have "restored clk m db (finish_undone clk jid db3)"
    using occ res assms(5) by (cases "kind_of m") (auto simp: restored_def)
  moreover have "\<forall>t i. (t, i) \<noteq> (m_table m, m_id m) \<longrightarrow> db_rows (finish_undone clk jid db3) t i = db_rows db2 t i"
    using occ res by (cases "kind_of m") auto
  ultimately show ?thesis by blast
qed

text \<open>A database with one note, an edit of the note, and a later moment.\<close>

definition sample_note :: row where
  "sample_note = row_of [(''id'', Some ''n1''), (''title'', Some ''old''), (''content'', Some ''c''),
     (''updated_at'', Some ''t0'')]"

definition sample_db :: Db where
  "sample_db = \<lparr>db_rows = (\<lambda>_ _. None)(Notes := [''n1'' \<mapsto> sample_note]), db_exceptions = {||}, db_journal = []\<rparr>"

definition sample_edit :: LocalMutation where
  "sample_edit = NoteUpdate ''n1'' ''new'' ''d''"

definition sample_clock :: clock where
  "sample_clock = \<lparr>ck_parse = \<lambda>_. Some 100, ck_now = 50, ck_text = ''t2''\<rparr>"

definition sample_row :: JournalRow where
  "sample_row =
     \<lparr>j_id = ''j1'', j_session_id = ''s1'', j_tool_name = ''note_update'', j_tool_tier = ''ReversibleWrite'',
      j_compensability = ''compensatable'', j_idempotency_key = ''note_update:n1'', j_correlation_ref = ''n1'',
      j_request_params = ''{}'',
      j_pre_state = Some (Text_of (row_to_json sample_note (whitelisted_columns Notes))),
      j_pre_state_version = None, j_post_state = None, j_turn_id = None, j_post_state_version = None,
      j_readback_status = ''pending'', j_compensation_plan = None, j_undo_status = ''not_requested'',
      j_undo_attempts = 0, j_created_at = ''t1'', j_undone_at = None, j_retention_expires_at = ''later'',
      j_manifest_hash = None, j_workspace_id = None, j_run_id = None\<rparr>"

definition sample_after :: Db where
  "sample_after = sample_db\<lparr>
     db_rows := (db_rows sample_db)(Notes := (db_rows sample_db Notes)(''n1'' \<mapsto>
        sample_note(''title'' := Some ''new'', ''content'' := Some ''d'', ''updated_at'' := Some ''t1''))),
     db_journal := [sample_row\<lparr>j_post_state_version := Some ''t1'', j_readback_status := ''match''\<rparr>]\<rparr>"

lemma sample_write:
  "local_journaled_write sample_db ''t1'' ''t1'' ''j1'' ''later'' sample_edit ''s1'' (tool_of sample_edit)
     ''ReversibleWrite'' ''{}'' None = Inr (Some ((sample_row, ''t1''), sample_after))"
proof -
  have "live sample_note" by (simp add: live_def sample_note_def row_of_def)
  then show ?thesis
    by (simp add: local_journaled_write_def write_pre_state_def sample_edit_def sample_db_def sample_after_def
        sample_row_def snapshot_row_def insert_via_def update_row_def Let_def
        read_updated_at_def set_readback_def set_post_state_version_def update_journal_def)
qed

lemma sample_fetch:
  "get_by_id_scoped sample_after ''j1'' ''s1'' =
     Some (sample_row\<lparr>j_post_state_version := Some ''t1'', j_readback_status := ''match''\<rparr>)"
  by (simp add: get_by_id_scoped_def sample_after_def sample_row_def)

theorem write_undo_roundtrip_witness:
  "\<exists>db3. local_attempt_undo sample_clock sample_after
       (sample_row\<lparr>j_post_state_version := Some ''t1'', j_readback_status := ''match''\<rparr>) ''s1'' = (Undone, db3) \<and>
     db_rows db3 Notes ''n1'' = Some (sample_note(''updated_at'' := Some ''t2''))"
proof -
  have "kind_of sample_edit = KUpdate" "m_table sample_edit = Notes" "m_id sample_edit = ''n1''"
      "\<not> retention_expired sample_clock ''later''" "db_rows sample_db Notes ''n1'' = Some sample_note"
      "ck_text sample_clock = ''t2''"
    by (simp_all add: sample_edit_def retention_expired_def sample_clock_def sample_db_def)
  with write_undo_roundtrip [OF sample_write sample_fetch refl refl, of sample_clock]
  show ?thesis by (auto simp: restored_def)
qed


section \<open>Limits\<close>

text \<open>
  The idempotency key of a local write names only the tool and the record, and it stays in the journal until
  the row is purged: while an earlier write of the same tool to the same record is journalled, a later one
  never goes through, be it a second edit of a note or a second deletion after an undo.
\<close>

lemma repeated_write_rejected:
  assumes "q \<in> set (db_journal db)" "j_idempotency_key q = tool @ '':'' @ idempotency_id m"
  shows "local_journaled_write db now now_j jid expires m sid tool tier params turn \<in> {Inl UniqueViolation, Inr None}"
  using assms by (auto simp: local_journaled_write_def insert_via_def split: option.split)

text \<open>Asking for the undo of an undone row again replaces its terminal status.\<close>

lemma second_undo_overwrites_status:
  assumes "get_by_id db (j_id r) = Some r" "j_session_id r = sid" "j_undo_status r = ''undone''"
  shows "fst (local_attempt_undo clk db r sid) = Refused AlreadyUndone"
    and "map_option j_undo_status (get_by_id (snd (local_attempt_undo clk db r sid)) (j_id r)) = Some ''refused''"
proof -
  from assms show "fst (local_attempt_undo clk db r sid) = Refused AlreadyUndone"
    "map_option j_undo_status (get_by_id (snd (local_attempt_undo clk db r sid)) (j_id r)) = Some ''refused''"
    by (simp_all add: local_attempt_undo_eq local_refusal_reason_def refuse_def advance_undo_status_def
        get_by_id_update)
qed

end
