(* ===== verification/ConnectorUndo.thy ===== *)
theory ConnectorUndo
  imports LocalUndo RunEvents
begin

text \<open>
  Undo of a journalled action (\<open>crates/haily-tools/src/journal_undo/logic.rs\<close> and \<open>mod.rs\<close>): the resolver
  from operations to connectors, one attempt with its guards, the batch, turn and run forms. What the connector
  answers during an attempt is an argument (\<open>connector_answers\<close>); an attempt returns the external
  calls it makes. \<open>to_string\<close> is the printer of \<open>serde_json\<close>.
\<close>

section \<open>Resolver\<close>

record ConnectorResolver =
  cr_executors :: "string \<rightharpoonup> nat"
  cr_manifest_hashes :: "string \<rightharpoonup> string"

definition resolver_new :: ConnectorResolver where
  "resolver_new = \<lparr>cr_executors = Map.empty, cr_manifest_hashes = Map.empty\<rparr>"

definition for_manifest :: "string list \<Rightarrow> nat \<Rightarrow> string \<Rightarrow> ConnectorResolver" where
  "for_manifest ops exec hash =
     foldl (\<lambda>c op. \<lparr>cr_executors = (cr_executors c)(op \<mapsto> exec), cr_manifest_hashes = (cr_manifest_hashes c)(op \<mapsto> hash)\<rparr>)
       resolver_new ops"

definition merge :: "ConnectorResolver \<Rightarrow> ConnectorResolver \<Rightarrow> ConnectorResolver" where
  "merge c d = \<lparr>cr_executors = cr_executors c ++ cr_executors d,
     cr_manifest_hashes = cr_manifest_hashes c ++ cr_manifest_hashes d\<rparr>"

definition hash_matches :: "ConnectorResolver \<Rightarrow> string \<Rightarrow> string option \<Rightarrow> bool" where
  "hash_matches c op pinned =
     (case pinned of
        None \<Rightarrow> True
      | Some p \<Rightarrow> (case cr_manifest_hashes c op of Some cur \<Rightarrow> cur = p | None \<Rightarrow> False))"

section \<open>Plans\<close>

definition MAX_UNDO_ATTEMPTS :: int where "MAX_UNDO_ATTEMPTS = 3"
definition ALREADY_GONE_CODES :: "string list" where "ALREADY_GONE_CODES = [''MissingError'']"

definition int_text :: "int \<Rightarrow> string" where
  "int_text n = (if n < 0 then ''-'' @ nat_text (nat (- n)) else nat_text (nat n))"

definition id_text :: "json \<Rightarrow> string option" where
  "id_text v = (case as_i64 v of Some n \<Rightarrow> Some (int_text n) | None \<Rightarrow> as_str v)"

definition plan_target_id :: "json \<Rightarrow> string option" where
  "plan_target_id plan =
     (case Option.bind (jget plan ''ids'') as_array of
        Some (first # _) \<Rightarrow> id_text first
      | _ \<Rightarrow> Option.bind (jget plan ''id'') id_text)"

definition plan_has_target :: "json \<Rightarrow> bool" where
  "plan_has_target plan \<longleftrightarrow>
     (case Option.bind (jget plan ''ids'') as_array of Some a \<Rightarrow> a \<noteq> [] | None \<Rightarrow> False) \<or>
     (case jget plan ''id'' of Some v \<Rightarrow> v \<noteq> JNull \<and> v \<noteq> JStr '''' | None \<Rightarrow> False)"

definition compensation_needs_target :: "string \<Rightarrow> bool" where
  "compensation_needs_target comp_op \<longleftrightarrow> comp_op \<in> {''write'', ''archive'', ''unlink'', ''delete''}"

definition body_absent :: "json \<Rightarrow> bool" where
  "body_absent v \<longleftrightarrow> v = JNull \<or> v = JBool False \<or> v = JArr []"

definition already_at_target :: "json \<Rightarrow> json \<Rightarrow> bool" where
  "already_at_target plan current =
     (let op = (case Option.bind (jget plan ''op'') as_str of Some s \<Rightarrow> s | None \<Rightarrow> '''')
      in if op = ''unlink'' \<or> op = ''delete'' then body_absent current else False)"

definition summarize :: "(json \<Rightarrow> string) \<Rightarrow> json \<Rightarrow> string" where
  "summarize to_string body = strip_text (take 512 (to_string body))"

text \<open>The plan of a row; a text that does not parse counts as \<open>null\<close>.\<close>

definition row_plan :: "JournalRow \<Rightarrow> json" where
  "row_plan r = (case Option.bind (j_compensation_plan r) parse_json of Some v \<Rightarrow> v | None \<Rightarrow> JNull)"

definition plan_op :: "json \<Rightarrow> string" where
  "plan_op plan = (case Option.bind (jget plan ''op'') as_str of Some s \<Rightarrow> s | None \<Rightarrow> ''compensate'')"

section \<open>One attempt\<close>

definition has_clean_pre_state :: "JournalRow \<Rightarrow> bool" where
  "has_clean_pre_state r \<longleftrightarrow>
     (case j_pre_state r of
        None \<Rightarrow> False
      | Some (Text_of v) \<Rightarrow> v \<noteq> JNull
      | Some (Other_text s) \<Rightarrow> s \<noteq> '''')"

definition refusal_reason :: "clock \<Rightarrow> JournalRow \<Rightarrow> refusal option" where
  "refusal_reason clk r =
     (if j_undo_status r = ''undone'' then Some AlreadyUndone
      else if j_compensability r = ''final'' then Some IsFinal
      else if j_compensation_plan r = None then Some NoPlan
      else if retention_expired clk (j_retention_expires_at r) then Some RetentionExpired
      else if j_readback_status r = ''mismatch'' \<and> \<not> has_clean_pre_state r then Some MismatchNoPreState
      else None)"

datatype ExecOutcome = ExecOk "string option" json | Fault string "string option" "string option"

text \<open>
  The connector's answers in one attempt, in the order it is asked: the credential check, the read for the
  version, the read before the compensation, the compensation, the read after it. \<open>None\<close> is a failed
  request.
\<close>

record connector_answers =
  xa_preflight :: "bool option"
  xa_version :: "json option"
  xa_before :: "json option"
  xa_call :: "ExecOutcome option"
  xa_after :: "json option"

datatype undo_effect =
    ReadBack string string "string option" "string option"
  | Compensate string json

text \<open>\<open>None\<close> stands for the error of the read.\<close>

definition write_date_unchanged :: "connector_answers \<Rightarrow> JournalRow \<Rightarrow> bool option \<times> undo_effect list" where
  "write_date_unchanged x r =
     (case (case j_post_state_version r of Some v \<Rightarrow> Some v | None \<Rightarrow> j_pre_state_version r) of
        None \<Rightarrow> (Some True, [])
      | Some recorded \<Rightarrow>
          (map_option (\<lambda>current.
             (case Option.bind (jget current ''write_date'') as_str of Some d \<Rightarrow> d | None \<Rightarrow> '''') = recorded)
             (xa_version x),
           [ReadBack (j_tool_name r) (j_correlation_ref r) None (plan_target_id (row_plan r))]))"

definition classify_fault :: "clock \<Rightarrow> Db \<Rightarrow> JournalRow \<Rightarrow> string \<Rightarrow> string \<Rightarrow> string option \<Rightarrow> string option
    \<Rightarrow> UndoOutcome \<times> Db" where
  "classify_fault clk db r comp_op fault_string code name =
     (let matches_gone = (case code of Some c \<Rightarrow> c \<in> set ALREADY_GONE_CODES | None \<Rightarrow> False) \<or>
                         (case name of Some n \<Rightarrow> n \<in> set ALREADY_GONE_CODES | None \<Rightarrow> False);
          is_unlink = (comp_op = ''unlink'' \<or> comp_op = ''delete'')
      in if matches_gone \<and> is_unlink
         then (AlreadyDone, advance_undo_status (ck_text clk) (j_id r) ''undone'' db)
         else (Stuck (ServerFault (strip_text fault_string)),
               advance_undo_status (ck_text clk) (j_id r) ''stuck'' db))"

text \<open>From the status \<open>compensating\<close> on.\<close>

definition run_compensation :: "(json \<Rightarrow> string) \<Rightarrow> clock \<Rightarrow> connector_answers \<Rightarrow> Db \<Rightarrow> JournalRow
    \<Rightarrow> UndoOutcome \<times> Db \<times> undo_effect list" where
  "run_compensation to_string clk x db r =
     (let now = ck_text clk; i = j_id r; plan = row_plan r; comp_op = plan_op plan;
          comp_model = Option.bind (jget plan ''model'') as_str;
          read = ReadBack comp_op (j_correlation_ref r) comp_model (plan_target_id plan)
      in if (case xa_before x of Some current \<Rightarrow> already_at_target plan current | None \<Rightarrow> False)
         then (AlreadyDone,
               advance_undo_status now i ''undone''
                 (set_readback i ''match'' (map_option (summarize to_string) (xa_before x)) db), [read])
         else (case xa_call x of
                 Some (ExecOk _ _) \<Rightarrow>
                   (case xa_after x of
                      Some after \<Rightarrow>
                        (Undone, advance_undo_status now i ''undone''
                           (set_readback i ''match'' (Some (summarize to_string after)) db),
                         [read, Compensate comp_op plan, read])
                    | None \<Rightarrow>
                        (Failed NotVerified, advance_undo_status now i ''compensation_failed'' db,
                         [read, Compensate comp_op plan, read]))
               | Some (Fault fault_string code name) \<Rightarrow>
                   (let (out, db') = classify_fault clk db r comp_op fault_string code name
                    in (out, db', [read, Compensate comp_op plan]))
               | None \<Rightarrow>
                   (Failed Unreachable, advance_undo_status now i ''compensation_failed'' db,
                    [read, Compensate comp_op plan])))"

definition attempt_undo :: "(json \<Rightarrow> string) \<Rightarrow> clock \<Rightarrow> connector_answers \<Rightarrow> ConnectorResolver \<Rightarrow> Db \<Rightarrow> JournalRow
    \<Rightarrow> string \<Rightarrow> UndoOutcome \<times> Db \<times> undo_effect list" where
  "attempt_undo to_string clk x resolver db r session_id =
     (let now = ck_text clk; i = j_id r;
          refused = (\<lambda>db reason effs. (Refused reason, advance_undo_status now i ''refused'' db, effs))
      in if is_local_row r
         then (let (out, db') = local_attempt_undo clk db r session_id in (out, db', []))
         else case refusal_reason clk r of
           Some reason \<Rightarrow> refused db reason []
         | None \<Rightarrow>
             if cr_executors resolver (j_tool_name r) = None then refused db NoConnector []
             else if \<not> hash_matches resolver (j_tool_name r) (j_manifest_hash r)
             then refused db ManifestChanged []
             else if xa_preflight x = Some False
             then (Failed CredentialLocked, advance_undo_status now i ''pending_credential'' db, [])
             else
               (let db1 = advance_undo_status now i ''undo_requested'' db;
                    (unchanged, effs) = write_date_unchanged x r
                in if unchanged = Some False then refused db1 RecordChanged effs
                   else
                     (let db2 = (if unchanged = None then set_readback i ''unverified'' None db1 else db1);
                          (cap, db3) = increment_undo_attempt i db2
                      in if cap > MAX_UNDO_ATTEMPTS
                         then (Stuck AttemptsExhausted, advance_undo_status now i ''stuck'' db3, effs)
                         else if compensation_needs_target (plan_op (row_plan r)) \<and> \<not> plan_has_target (row_plan r)
                         then refused db3 NoTarget effs
                         else
                           (let (out, db4, effs') =
                                run_compensation to_string clk x (advance_undo_status now i ''compensating'' db3) r
                            in (out, db4, effs @ effs')))))"

section \<open>Groups\<close>

record BatchCounts =
  bc_undone :: nat
  bc_failed :: nat
  bc_not_attempted :: nat

definition tally :: "UndoOutcome \<Rightarrow> BatchCounts \<Rightarrow> BatchCounts" where
  "tally out c = (if out \<in> {Undone, AlreadyDone} then c\<lparr>bc_undone := bc_undone c + 1\<rparr>
                  else c\<lparr>bc_failed := bc_failed c + 1\<rparr>)"

text \<open>The answers and the time of each attempt of the batch are given by its position.\<close>

fun batch_undo_from :: "(json \<Rightarrow> string) \<Rightarrow> (nat \<Rightarrow> clock) \<Rightarrow> (nat \<Rightarrow> connector_answers) \<Rightarrow> ConnectorResolver
    \<Rightarrow> string \<Rightarrow> nat \<Rightarrow> string list \<Rightarrow> Db \<Rightarrow> BatchCounts \<Rightarrow> BatchCounts \<times> Db \<times> undo_effect list" where
  "batch_undo_from to_string clk x resolver session_id n [] db c = (c, db, [])"
| "batch_undo_from to_string clk x resolver session_id n (i # ids) db c =
     (case get_by_id_scoped db i session_id of
        None \<Rightarrow> batch_undo_from to_string clk x resolver session_id (Suc n) ids db
                  (c\<lparr>bc_not_attempted := bc_not_attempted c + 1\<rparr>)
      | Some r \<Rightarrow>
          (let (out, db', effs) = attempt_undo to_string (clk n) (x n) resolver db r session_id;
               (c', db'', effs') = batch_undo_from to_string clk x resolver session_id (Suc n) ids db' (tally out c)
           in (c', db'', effs @ effs')))"

definition batch_undo where
  "batch_undo to_string clk x resolver db ids session_id =
     batch_undo_from to_string clk x resolver session_id 0 ids db
       \<lparr>bc_undone = 0, bc_failed = 0, bc_not_attempted = 0\<rparr>"

definition undo_turn where
  "undo_turn to_string clk x resolver db turn_id session_id =
     batch_undo to_string clk x resolver db (map j_id (list_by_turn db turn_id session_id)) session_id"

definition undo_run where
  "undo_run to_string clk x resolver db run_id session_id =
     batch_undo to_string clk x resolver db (map j_id (list_by_run db run_id session_id)) session_id"

section \<open>What an attempt may do\<close>

fun is_compensate :: "undo_effect \<Rightarrow> bool" where
  "is_compensate (Compensate _ _) = True"
| "is_compensate (ReadBack _ _ _ _) = False"

definition compensations :: "undo_effect list \<Rightarrow> nat" where
  "compensations effs = length (filter is_compensate effs)"

lemma compensations_simps [simp]:
  "compensations [] = 0" "compensations (e # effs) = (if is_compensate e then 1 else 0) + compensations effs"
  "compensations (effs @ effs') = compensations effs + compensations effs'"
  by (simp_all add: compensations_def)

lemma version_effs: "compensations (snd (write_date_unchanged x r)) = 0"
  by (auto simp: write_date_unchanged_def split: option.split)

lemma version_no_compensate: "Compensate op plan \<notin> set (snd (write_date_unchanged x r))"
  by (auto simp: write_date_unchanged_def split: option.split)

text \<open>The guards an attempt on a connector's row passes before it compensates.\<close>

definition guards_pass :: "clock \<Rightarrow> connector_answers \<Rightarrow> ConnectorResolver \<Rightarrow> JournalRow \<Rightarrow> bool" where
  "guards_pass clk x resolver r \<longleftrightarrow>
     \<not> is_local_row r \<and> refusal_reason clk r = None \<and> cr_executors resolver (j_tool_name r) \<noteq> None \<and>
     hash_matches resolver (j_tool_name r) (j_manifest_hash r) \<and> xa_preflight x \<noteq> Some False \<and>
     fst (write_date_unchanged x r) \<noteq> Some False \<and>
     (compensation_needs_target (plan_op (row_plan r)) \<longrightarrow> plan_has_target (row_plan r))"

definition before_compensation :: "clock \<Rightarrow> connector_answers \<Rightarrow> Db \<Rightarrow> JournalRow \<Rightarrow> Db" where
  "before_compensation clk x db r =
     (let db1 = advance_undo_status (ck_text clk) (j_id r) ''undo_requested'' db
      in snd (increment_undo_attempt (j_id r)
           (if fst (write_date_unchanged x r) = None then set_readback (j_id r) ''unverified'' None db1 else db1)))"

lemma attempt_undo_cases:
  assumes "attempt_undo to_string clk x resolver db r sid = (out, db', effs)"
  obtains
    (local_row) "is_local_row r" "local_attempt_undo clk db r sid = (out, db')" "effs = []"
  | (early) st where "\<not> is_local_row r" "out \<notin> {Undone, AlreadyDone}" "compensations effs = 0"
      "db' = advance_undo_status (ck_text clk) (j_id r) st db"
  | (late) st d where "\<not> is_local_row r" "out \<notin> {Undone, AlreadyDone}" "compensations effs = 0"
      "d \<in> {advance_undo_status (ck_text clk) (j_id r) ''undo_requested'' db, before_compensation clk x db r}"
      "db' = advance_undo_status (ck_text clk) (j_id r) st d"
  | (compensated) effs' where "guards_pass clk x resolver r"
      "fst (increment_undo_attempt (j_id r)
           (if fst (write_date_unchanged x r) = None
            then set_readback (j_id r) ''unverified'' None (advance_undo_status (ck_text clk) (j_id r) ''undo_requested'' db)
            else advance_undo_status (ck_text clk) (j_id r) ''undo_requested'' db)) \<le> MAX_UNDO_ATTEMPTS"
      "run_compensation to_string clk x
         (advance_undo_status (ck_text clk) (j_id r) ''compensating'' (before_compensation clk x db r)) r = (out, db', effs')"
      "effs = snd (write_date_unchanged x r) @ effs'"
proof -
  obtain u e where ue: "write_date_unchanged x r = (u, e)" by fastforce
  then have e: "compensations e = 0" using version_effs [of x r] by simp
  consider "is_local_row r" | "\<not> is_local_row r" "refusal_reason clk r \<noteq> None \<or> cr_executors resolver (j_tool_name r) = None \<or>
      \<not> hash_matches resolver (j_tool_name r) (j_manifest_hash r) \<or> xa_preflight x = Some False"
    | "\<not> is_local_row r" "refusal_reason clk r = None" "cr_executors resolver (j_tool_name r) \<noteq> None"
      "hash_matches resolver (j_tool_name r) (j_manifest_hash r)" "xa_preflight x \<noteq> Some False"
    by blast
  then show thesis
  proof cases
    case 1
    then show thesis using assms local_row by (auto simp: attempt_undo_def Let_def split: prod.splits)
  next
    case 2
    then show thesis using assms early
      by (auto simp: attempt_undo_def Let_def split: option.splits if_splits)
  next
    case 3
    note go = assms [unfolded attempt_undo_def Let_def, simplified 3 ue if_False option.case prod.case not_True_eq_False]
    show thesis
    proof (cases "u = Some False")
      case True
      then show thesis using go 3 e late by (auto split: if_splits)
    next
      case False
      define d2 where "d2 = (if u = None
        then set_readback (j_id r) ''unverified'' None (advance_undo_status (ck_text clk) (j_id r) ''undo_requested'' db)
        else advance_undo_status (ck_text clk) (j_id r) ''undo_requested'' db)"
      obtain cap d3 where inc: "increment_undo_attempt (j_id r) d2 = (cap, d3)" by fastforce
      obtain o4 d4 e4 where rc: "run_compensation to_string clk x
          (advance_undo_status (ck_text clk) (j_id r) ''compensating'' d3) r = (o4, d4, e4)"
        by (metis prod_cases3)
      have bc: "before_compensation clk x db r = d3"
        using inc ue by (simp add: before_compensation_def d2_def Let_def)
      note go' = go [folded d2_def, simplified False inc rc if_False prod.case]
      consider (cap) "cap > MAX_UNDO_ATTEMPTS"
        | (target) "\<not> cap > MAX_UNDO_ATTEMPTS"
            "compensation_needs_target (plan_op (row_plan r)) \<and> \<not> plan_has_target (row_plan r)"
        | (run) "\<not> cap > MAX_UNDO_ATTEMPTS"
            "\<not> (compensation_needs_target (plan_op (row_plan r)) \<and> \<not> plan_has_target (row_plan r))"
        by blast
      then show thesis
      proof cases
        case cap
        with go' have "out = Stuck AttemptsExhausted" "db' = advance_undo_status (ck_text clk) (j_id r) ''stuck'' d3" "effs = e"
          by auto
        then show thesis using late [of d3 "''stuck''"] 3(1) e bc by simp
      next
        case target
        with go' have "out = Refused NoTarget" "db' = advance_undo_status (ck_text clk) (j_id r) ''refused'' d3" "effs = e"
          by auto
        then show thesis using late [of d3 "''refused''"] 3(1) e bc by simp
      next
        case run
        with go' have "out = o4" "db' = d4" "effs = e @ e4" by auto
        moreover have "guards_pass clk x resolver r" using 3 False ue run(2) by (auto simp: guards_pass_def)
        moreover have "cap \<le> MAX_UNDO_ATTEMPTS" using run(1) by simp
        ultimately show thesis using compensated [of e4] rc bc ue inc d2_def by simp
      qed
    qed
  qed
qed

lemma run_compensation_spec:
  assumes "run_compensation to_string clk x db r = (out, db', effs)"
  shows "compensations effs \<le> 1"
    and "Compensate op plan \<in> set effs \<Longrightarrow> plan = row_plan r \<and> op = plan_op (row_plan r)"
    and "out = Undone \<Longrightarrow> (\<exists>v b. xa_call x = Some (ExecOk v b)) \<and> xa_after x \<noteq> None"
    and "out = AlreadyDone \<Longrightarrow> plan_op (row_plan r) \<in> {''unlink'', ''delete''} \<and>
      ((\<exists>current. xa_before x = Some current \<and> body_absent current) \<or>
       (\<exists>f code name. xa_call x = Some (Fault f code name) \<and>
          (code = Some ''MissingError'' \<or> name = Some ''MissingError'')))"
  using assms
  by (auto simp: run_compensation_def classify_fault_def already_at_target_def plan_op_def ALREADY_GONE_CODES_def Let_def
      split: option.splits if_splits ExecOutcome.splits)


definition sample_remote_row :: JournalRow where
  "sample_remote_row = sample_row\<lparr>j_tool_name := ''crm_create'', j_readback_status := ''match'',
     j_compensation_plan := Some (Text_of (JObj [(''op'', JStr ''unlink''), (''id'', JNum 7)]))\<rparr>"

definition sample_answers :: connector_answers where
  "sample_answers = \<lparr>xa_preflight = Some True, xa_version = None, xa_before = None,
     xa_call = Some (ExecOk None JNull), xa_after = Some (JArr [])\<rparr>"


section \<open>Attempts are bounded\<close>

definition attempts :: "Db \<Rightarrow> string \<Rightarrow> int" where
  "attempts db i = (case get_by_id db i of Some r \<Rightarrow> j_undo_attempts r | None \<Rightarrow> 0)"

lemma attempts_advance [simp]: "attempts (advance_undo_status now k st db) i = attempts db i"
  by (simp add: attempts_def advance_undo_status_def get_by_id_update split: option.split)

lemma attempts_readback [simp]: "attempts (set_readback k st po db) i = attempts db i"
  by (simp add: attempts_def set_readback_def get_by_id_update split: option.split)

lemma attempts_increment [simp]:
  "attempts (snd (increment_undo_attempt k db)) i =
     attempts db i + (if k = i \<and> get_by_id db i \<noteq> None then 1 else 0)"
  "fst (increment_undo_attempt k db) = attempts (snd (increment_undo_attempt k db)) k"
  by (auto simp: attempts_def increment_undo_attempt_def get_by_id_update Let_def split: option.split)

lemma attempts_journal: "db_journal db' = db_journal db \<Longrightarrow> attempts db' i = attempts db i"
  by (simp add: attempts_def get_by_id_def)

lemma known_kept [simp]:
  "get_by_id (advance_undo_status now k st db) i = None \<longleftrightarrow> get_by_id db i = None"
  "get_by_id (set_readback k st po db) i = None \<longleftrightarrow> get_by_id db i = None"
  "get_by_id (snd (increment_undo_attempt k db)) i = None \<longleftrightarrow> get_by_id db i = None"
  by (simp_all add: advance_undo_status_def set_readback_def increment_undo_attempt_def get_by_id_update Let_def)

lemma update_row_journal [simp]: "db_journal (snd (update_row db t i cond f)) = db_journal db"
  by (simp add: update_row_def split: option.split)

lemma statement_journal [simp]:
  "db_journal (snd (restore_row now db t i pre v)) = db_journal db"
  "db_journal (snd (clear_deleted_at now db t i v)) = db_journal db"
  "db_journal (snd (soft_delete_row now db t i v)) = db_journal db"
  "db_journal (snd (restore_fact now db i v)) = db_journal db"
  "db_journal (snd (remove_exception db e s)) = db_journal db"
  by (simp_all add: restore_row_def clear_deleted_at_def soft_delete_row_def restore_fact_def remove_exception_def)

lemma undo_step_journal:
  assumes "undo_step clk kind db t r v = Inr (n, db')"
  shows "db_journal db' = db_journal db"
proof -
  have "pred_sum (\<lambda>_. True) (\<lambda>y. db_journal (snd y) = db_journal db) (undo_step clk kind db t r v)"
    by (cases kind) (simp_all add: undo_step_def split: option.split)
  with assms show ?thesis by simp
qed

lemma local_attempts:
  assumes "local_attempt_undo clk db r sid = (out, db')"
  shows "attempts db i \<le> attempts db' i"
proof -
  have f: "attempts (finish_undone clk k d) i = attempts d i" for k d by (simp add: finish_undone_def)
  have req: "attempts db i \<le> attempts (requested clk r db) i" by (simp add: requested_def)
  have step: "attempts db i \<le> attempts d i" if "undo_step clk kind (requested clk r db) t r v = Inr (n, d)" for kind t v n d
    using attempts_journal [OF undo_step_journal [OF that]] req by simp
  show ?thesis using assms req
    by (auto simp: local_attempt_undo_eq refuse_def f dest: step split: option.splits sum.splits if_splits prod.splits)
qed

lemma run_compensation_attempts:
  "run_compensation to_string clk x db r = (out, db', effs) \<Longrightarrow> attempts db' i = attempts db i"
  by (auto simp: run_compensation_def classify_fault_def Let_def
      split: option.splits if_splits ExecOutcome.splits prod.splits)

lemma attempt_counts:
  assumes "attempt_undo to_string clk x resolver db r sid = (out, db', effs)" and "get_by_id db (j_id r) \<noteq> None"
  shows "attempts db (j_id r) + int (compensations effs) \<le> attempts db' (j_id r) \<and>
    (compensations effs \<noteq> 0 \<longrightarrow> attempts db' (j_id r) \<le> MAX_UNDO_ATTEMPTS)"
  using assms(1)
proof (cases rule: attempt_undo_cases)
  case local_row
  then show ?thesis using local_attempts by simp
next
  case early
  then show ?thesis by simp
next
  case late
  then show ?thesis by (auto simp: before_compensation_def Let_def)
next
  case (compensated effs')
  have "attempts db' (j_id r) = attempts (before_compensation clk x db r) (j_id r)"
    using run_compensation_attempts [OF compensated(3)] by simp
  moreover have "attempts (before_compensation clk x db r) (j_id r) = attempts db (j_id r) + 1"
    using assms(2) by (simp add: before_compensation_def Let_def)
  moreover have "attempts (before_compensation clk x db r) (j_id r) \<le> MAX_UNDO_ATTEMPTS"
    using compensated(2) by (auto simp: before_compensation_def Let_def split: if_splits)
  moreover have "compensations effs \<le> 1"
    using run_compensation_spec(1) [OF compensated(3)] compensated(4) version_effs by simp
  ultimately show ?thesis by simp
qed

text \<open>Repeated requests to undo one action, each reading the row afresh.\<close>

fun retries :: "(json \<Rightarrow> string) \<Rightarrow> ConnectorResolver \<Rightarrow> string \<Rightarrow> Db \<Rightarrow> (clock \<times> connector_answers \<times> string) list
    \<Rightarrow> undo_effect list" where
  "retries to_string resolver i db [] = []"
| "retries to_string resolver i db ((clk, x, sid) # rest) =
     (case get_by_id_scoped db i sid of
        None \<Rightarrow> retries to_string resolver i db rest
      | Some r \<Rightarrow>
          (let (out, db', effs) = attempt_undo to_string clk x resolver db r sid
           in effs @ retries to_string resolver i db' rest))"

lemma scoped_known: "get_by_id_scoped db i sid = Some r \<Longrightarrow> j_id r = i \<and> j_session_id r = sid \<and> get_by_id db i \<noteq> None"
  unfolding get_by_id_scoped_def get_by_id_def by (auto simp: find_None_iff find_Some_iff intro: nth_mem)

text \<open>
  An action is compensated at most three times. However often its undo is requested, from
  whatever sessions, at whatever times and whatever the connector answers, a row whose attempts have not been
  counted below zero causes at most \<open>MAX_UNDO_ATTEMPTS\<close> compensations, fewer by those already counted.
\<close>

lemma compensations_bounded:
  "int (compensations (retries to_string resolver i db tries)) \<le> max 0 (MAX_UNDO_ATTEMPTS - attempts db i)"
proof (induction tries arbitrary: db)
  case (Cons rq tries)
  obtain clk x sid where t: "rq = (clk, x, sid)" by (metis prod_cases3)
  show ?case
  proof (cases "get_by_id_scoped db i sid")
    case (Some r)
    obtain out db' effs where a: "attempt_undo to_string clk x resolver db r sid = (out, db', effs)" by (metis prod_cases3)
    from scoped_known [OF Some] attempt_counts [OF a]
    have "attempts db i + int (compensations effs) \<le> attempts db' i"
        "compensations effs \<noteq> 0 \<longrightarrow> attempts db' i \<le> MAX_UNDO_ATTEMPTS" by auto
    with Cons.IH [of db'] show ?thesis using Some a t by (auto simp: max_def split: if_splits)
  qed (use Cons t in simp)
qed simp

section \<open>Undo is confined to a session\<close>

text \<open>
  What an undo may never change of a journal row: its identity and the columns the append-only trigger
  protects.
\<close>

definition evidence where
  "evidence q = (j_id q, j_session_id q, j_tool_name q, j_idempotency_key q, j_correlation_ref q,
     j_request_params q, j_pre_state q, j_pre_state_version q, j_created_at q)"

definition touches :: "string \<Rightarrow> Db \<Rightarrow> Db \<Rightarrow> bool" where
  "touches i db db' \<longleftrightarrow>
     (\<exists>f. (\<forall>q. evidence (f q) = evidence q) \<and>
          db_journal db' = map (\<lambda>q. if j_id q = i then f q else q) (db_journal db))"

lemma evidence_id: "evidence q = evidence q' \<Longrightarrow> j_id q = j_id q' \<and> j_session_id q = j_session_id q'"
  by (simp add: evidence_def)

lemma touches_refl: "db_journal db' = db_journal db \<Longrightarrow> touches i db db'"
  unfolding touches_def by (intro exI [of _ id]) (simp add: map_idI)

lemma touches_trans:
  assumes "touches i db db'" "touches i db' db''"
  shows "touches i db db''"
proof -
  from assms obtain f g where f: "\<forall>q. evidence (f q) = evidence q"
      "db_journal db' = map (\<lambda>q. if j_id q = i then f q else q) (db_journal db)"
    and g: "\<forall>q. evidence (g q) = evidence q"
      "db_journal db'' = map (\<lambda>q. if j_id q = i then g q else q) (db_journal db')"
    unfolding touches_def by blast
  have "j_id (f q) = j_id q" for q using f(1) evidence_id by blast
  then show ?thesis unfolding touches_def using f g by (intro exI [of _ "g \<circ> f"]) simp
qed

lemma touches_update: "(\<And>q. evidence (f q) = evidence q) \<Longrightarrow> touches i db (update_journal i f db)"
  unfolding touches_def by (intro exI [of _ f]) (simp add: update_journal_def)

lemma touches_statements [simp]:
  "touches i db (advance_undo_status now i st db)" "touches i db (set_readback i st po db)"
  "touches i db (snd (increment_undo_attempt i db))" "touches i db (finish_undone clk i db)"
proof -
  show a: "touches i db (advance_undo_status now i st db)" for now st db
    unfolding advance_undo_status_def by (rule touches_update) (simp add: evidence_def)
  show b: "touches i db (set_readback i st po db)" for st po db
    unfolding set_readback_def by (rule touches_update) (simp add: evidence_def)
  show "touches i db (snd (increment_undo_attempt i db))"
    unfolding increment_undo_attempt_def Let_def snd_conv by (rule touches_update) (simp add: evidence_def)
  show "touches i db (finish_undone clk i db)"
    unfolding finish_undone_def by (rule touches_trans [OF b a])
qed

lemmas touches_chain = touches_trans [OF touches_statements(1)] touches_trans [OF touches_statements(2)]
  touches_trans [OF touches_statements(3)]

lemma touches_requested: "touches (j_id r) db (requested clk r db)"
  unfolding requested_def by (rule touches_chain(1), rule touches_chain(3), rule touches_statements)

lemma touches_local:
  assumes "local_attempt_undo clk db r sid = (out, db')"
  shows "touches (j_id r) db db'"
proof (cases "out = Undone")
  case True
  with assms have "local_attempt_undo clk db r sid = (Undone, db')" by simp
  then show ?thesis
  proof (rule local_attempt_undo_Undone)
    fix t kind v n db3
    assume "undo_step clk kind (requested clk r db) t r v = Inr (n, db3)" "db' = finish_undone clk (j_id r) db3"
    then show ?thesis
      using touches_trans [OF touches_requested touches_trans [OF touches_refl [OF undo_step_journal] touches_statements(4)]]
      by blast
  qed
next
  case False
  have stuck: "touches (j_id r) db (advance_undo_status now (j_id r) st
      (snd (increment_undo_attempt (j_id r) (advance_undo_status now' (j_id r) st' db))))" for now st now' st'
    by (rule touches_chain(1), rule touches_chain(3), rule touches_statements)
  have ref: "touches (j_id r) db (advance_undo_status now (j_id r) st (requested clk r db))" for now st
    by (rule touches_trans [OF touches_requested touches_statements(1)])
  from False assms stuck ref show ?thesis
    by (auto simp: local_attempt_undo_eq refuse_def split: option.splits sum.splits if_splits prod.splits)
qed

lemma touches_run:
  assumes "run_compensation to_string clk x db r = (out, db', effs)"
  shows "touches (j_id r) db db'"
  using assms touches_trans [OF touches_statements(2) touches_statements(1)]
  by (auto simp: run_compensation_def classify_fault_def Let_def
      split: option.splits if_splits ExecOutcome.splits prod.splits)

lemma touches_before: "touches (j_id r) db (before_compensation clk x db r)"
proof -
  note t = touches_statements [of "j_id r"]
  have "touches (j_id r) db (snd (increment_undo_attempt (j_id r)
      (advance_undo_status (ck_text clk) (j_id r) ''undo_requested'' db)))"
    by (rule touches_trans [OF t(1) t(3)])
  moreover have "touches (j_id r) db (snd (increment_undo_attempt (j_id r)
      (set_readback (j_id r) ''unverified'' None (advance_undo_status (ck_text clk) (j_id r) ''undo_requested'' db))))"
    by (rule touches_trans [OF touches_trans [OF t(1) t(2)] t(3)])
  ultimately show ?thesis by (simp add: before_compensation_def Let_def)
qed

lemma touches_attempt:
  assumes "attempt_undo to_string clk x resolver db r sid = (out, db', effs)"
  shows "touches (j_id r) db db'"
  using assms
proof (cases rule: attempt_undo_cases)
  case local_row
  then show ?thesis using touches_local by blast
next
  case early
  then show ?thesis by simp
next
  case late
  then show ?thesis using touches_before touches_trans touches_statements(1) by blast
next
  case compensated
  then show ?thesis using touches_trans [OF touches_trans [OF touches_before touches_statements(1)] touches_run] by blast
qed

text \<open>Rows of other sessions, and the evidence of all rows, survive.\<close>

definition confined :: "string \<Rightarrow> Db \<Rightarrow> Db \<Rightarrow> bool" where
  "confined sid db db' \<longleftrightarrow>
     filter (\<lambda>q. j_session_id q \<noteq> sid) (db_journal db') = filter (\<lambda>q. j_session_id q \<noteq> sid) (db_journal db) \<and>
     map evidence (db_journal db') = map evidence (db_journal db)"

lemma touches_confined:
  assumes "touches i db db'" and "\<forall>q \<in> set (db_journal db). j_id q = i \<longrightarrow> j_session_id q = sid"
  shows "confined sid db db'"
proof -
  from assms(1) obtain f where f: "\<forall>q. evidence (f q) = evidence q"
      and j: "db_journal db' = map (\<lambda>q. if j_id q = i then f q else q) (db_journal db)"
    unfolding touches_def by blast
  have s: "j_session_id (f q) = j_session_id q" for q using f evidence_id by blast
  have "filter (\<lambda>q. j_session_id q \<noteq> sid) (map (\<lambda>q. if j_id q = i then f q else q) qs) =
      filter (\<lambda>q. j_session_id q \<noteq> sid) qs" if "\<forall>q \<in> set qs. j_id q = i \<longrightarrow> j_session_id q = sid" for qs
    using that s by (induction qs) auto
  with assms(2) f j show ?thesis unfolding confined_def by simp
qed

lemma confined_trans: "confined sid db db' \<Longrightarrow> confined sid db' db'' \<Longrightarrow> confined sid db db''"
  by (simp add: confined_def)

lemma map_evidence_ids:
  assumes "map evidence qs = map evidence qs'"
  shows "map j_id qs = map j_id qs'"
proof -
  have "map j_id qs = map fst (map evidence qs)" for qs by (simp add: evidence_def)
  with assms show ?thesis by metis
qed

text \<open>
  Undoing a group of actions is confined to the caller's session and keeps the evidence. In a
  journal with distinct ids, \<open>batch_undo\<close> leaves every row of another session exactly as it is, whatever
  ids it is given; it changes of no row the identity or a column that the append-only trigger
  protects, and every id is counted once, as undone, failed or not attempted.
\<close>

lemma batch_undo_confined:
  assumes "distinct (map j_id (db_journal db))"
    and "batch_undo to_string clk x resolver db ids sid = (c, db', effs)"
  shows "filter (\<lambda>q. j_session_id q \<noteq> sid) (db_journal db') = filter (\<lambda>q. j_session_id q \<noteq> sid) (db_journal db) \<and>
    map evidence (db_journal db') = map evidence (db_journal db) \<and>
    bc_undone c + bc_failed c + bc_not_attempted c = length ids"
proof -
  have "confined sid db db' \<and> bc_undone c + bc_failed c + bc_not_attempted c =
      bc_undone c0 + bc_failed c0 + bc_not_attempted c0 + length ids"
    if "batch_undo_from to_string clk x resolver sid n ids db c0 = (c, db', effs)"
      "distinct (map j_id (db_journal db))" for n c0 c db db' effs
    using that
  proof (induction ids arbitrary: n db c0 effs)
    case (Cons i ids)
    show ?case
    proof (cases "get_by_id_scoped db i sid")
      case (Some r)
      obtain out d e where a: "attempt_undo to_string (clk n) (x n) resolver db r sid = (out, d, e)" by (metis prod_cases3)
      have r: "j_id r = i" "j_session_id r = sid" "r \<in> set (db_journal db)"
        using Some unfolding get_by_id_scoped_def by (auto simp: find_Some_iff)
      have "\<forall>q \<in> set (db_journal db). j_id q = i \<longrightarrow> j_session_id q = sid"
        using r Cons.prems(2) by (metis distinct_map inj_onD)
      with touches_attempt [OF a] r have conf: "confined sid db d" using touches_confined by blast
      then have "distinct (map j_id (db_journal d))"
        using Cons.prems(2) map_evidence_ids by (metis confined_def)
      moreover obtain e' where "batch_undo_from to_string clk x resolver sid (Suc n) ids d (tally out c0) = (c, db', e')"
        using Cons.prems(1) Some a by (auto split: prod.splits)
      ultimately have "confined sid d db' \<and> bc_undone c + bc_failed c + bc_not_attempted c =
          bc_undone (tally out c0) + bc_failed (tally out c0) + bc_not_attempted (tally out c0) + length ids"
        using Cons.IH by blast
      moreover have "bc_undone (tally out c0) + bc_failed (tally out c0) + bc_not_attempted (tally out c0) =
          Suc (bc_undone c0 + bc_failed c0 + bc_not_attempted c0)"
        by (simp add: tally_def)
      ultimately show ?thesis using conf confined_trans by auto
    next
      case None
      with Cons.IH [of "Suc n" db] Cons.prems show ?thesis by fastforce
    qed
  qed (simp add: confined_def)
  from this [OF assms(2) [unfolded batch_undo_def] assms(1)] show ?thesis by (simp add: confined_def)
qed

lemma batch_undo_confined_witness:
  "db_journal (fst (snd (batch_undo (\<lambda>_. '''') (\<lambda>_. sample_clock) (\<lambda>_. sample_answers) resolver_new sample_after
      [''j1'', ''j2''] ''s2''))) = db_journal sample_after"
proof -
  obtain c db' effs where b: "batch_undo (\<lambda>_. '''') (\<lambda>_. sample_clock) (\<lambda>_. sample_answers) resolver_new sample_after
      [''j1'', ''j2''] ''s2'' = (c, db', effs)" by (metis prod_cases3)
  have j: "db_journal sample_after = [sample_row\<lparr>j_post_state_version := Some ''t1'', j_readback_status := ''match''\<rparr>]"
    by (simp add: sample_after_def)
  have all: "\<forall>q \<in> set (db_journal sample_after). j_session_id q \<noteq> ''s2''" by (simp add: j sample_row_def)
  have conf: "filter (\<lambda>q. j_session_id q \<noteq> ''s2'') (db_journal db') = filter (\<lambda>q. j_session_id q \<noteq> ''s2'') (db_journal sample_after)"
      "map evidence (db_journal db') = map evidence (db_journal sample_after)"
    using batch_undo_confined [OF _ b] by (simp_all add: j)
  have "length (db_journal db') = length (db_journal sample_after)" using conf(2) by (metis length_map)
  with conf(1) all have "filter (\<lambda>q. j_session_id q \<noteq> ''s2'') (db_journal db') = db_journal sample_after"
      "length (filter (\<lambda>q. j_session_id q \<noteq> ''s2'') (db_journal db')) = length (db_journal db')"
    by (simp_all add: filter_True)
  then have "db_journal db' = db_journal sample_after" by (metis filter_True length_filter_less order_less_irrefl)
  with b show ?thesis by simp
qed

end
