(* ===== verification/TokenBudget.thy ===== *)
theory TokenBudget
  imports ToolTags "HOL-Library.Sublist"
begin

text \<open>
  Fitting a conversation into the model's context window (\<open>crates/haily-core/src/budget.rs\<close>). The reserve
  for the answer is a quarter of the window: \<open>TokenBudget::new\<close> fixes the fraction to 0.25, and the product
  of a 32-bit integer with it is exact in \<open>f64\<close>, so the truncation is the integer quotient.
\<close>

datatype Role = System | User | Assistant

record Message =
  msg_role :: Role
  msg_content :: ustr

definition estimate :: "ustr \<Rightarrow> nat" where
  "estimate content = (length content + 2) div 3"

record TokenBudget =
  tb_context_window :: u32

definition tb_new :: "u32 \<Rightarrow> TokenBudget" where
  "tb_new context_window = \<lparr>tb_context_window = context_window\<rparr>"

definition prompt_budget :: "TokenBudget \<Rightarrow> nat" where
  "prompt_budget b =
     (let reserve = unat (tb_context_window b) div 4 in unat (tb_context_window b) - reserve)"

abbreviation msg_cost :: "Message \<Rightarrow> nat" where
  "msg_cost m \<equiv> estimate (msg_content m)"

definition cost :: "Message list \<Rightarrow> nat" where
  "cost ms = sum_list (map msg_cost ms)"

text \<open>The walk over the history, newest message first.\<close>

fun keep_newest :: "nat \<Rightarrow> Message list \<Rightarrow> Message list" where
  "keep_newest remaining [] = []"
| "keep_newest remaining (m # older) =
     (if msg_cost m > remaining then [] else m # keep_newest (remaining - msg_cost m) older)"

definition fit_messages :: "TokenBudget \<Rightarrow> Message \<Rightarrow> Message list \<Rightarrow> Message list \<Rightarrow> Message list" where
  "fit_messages b system prior_history current_turn =
     (let pinned_cost = msg_cost system + cost current_turn;
          remaining = prompt_budget b - pinned_cost
      in system # rev (keep_newest remaining (rev prior_history)) @ current_turn)"

definition refit :: "TokenBudget \<Rightarrow> Message list \<Rightarrow> nat \<Rightarrow> Message list" where
  "refit b messages pinned_tail_len =
     (if length messages \<le> pinned_tail_len then messages
      else (let n = length messages - pinned_tail_len
            in fit_messages b (hd messages) (drop 1 (take n messages)) (drop n messages)))"

section \<open>Lemmas\<close>

lemma cost_simps [simp]: "cost [] = 0" "cost (m # ms) = msg_cost m + cost ms" "cost (ms @ ns) = cost ms + cost ns"
  "cost (rev ms) = cost ms"
  by (simp_all add: cost_def sum_list.rev flip: rev_map)

text \<open>The walk keeps the longest prefix (of the reversed history) that fits.\<close>

lemma keep_newest_take:
  "\<exists>k \<le> length ms. keep_newest n ms = take k ms \<and> cost (take k ms) \<le> n \<and> (k < length ms \<longrightarrow> cost (take (Suc k) ms) > n)"
proof (induction n ms rule: keep_newest.induct)
  case (2 n m older)
  show ?case
  proof (cases "msg_cost m > n")
    case True
    then show ?thesis by (intro exI [of _ 0]) simp
  next
    case False
    from "2.IH" [OF False] obtain k where "k \<le> length older" "keep_newest (n - msg_cost m) older = take k older"
      "cost (take k older) \<le> n - msg_cost m" "k < length older \<longrightarrow> cost (take (Suc k) older) > n - msg_cost m"
      by blast
    with False show ?thesis by (intro exI [of _ "Suc k"]) auto
  qed
qed simp

lemma cost_take_mono: "k \<le> l \<Longrightarrow> cost (take k ms) \<le> cost (take l ms)"
  by (metis append_take_drop_id cost_simps(3) le_add1 min.absorb1 take_take)

text \<open>
  Property C27: a conversation is cut only at its old end, and only as far as needed. The fitted messages
  are the system message, a suffix of the history and the whole current turn, in order. The suffix fits
  what the pinned messages leave of the prompt budget, and every longer suffix does not; so whenever the
  pinned messages fit, everything sent fits the budget.
\<close>

theorem fit_keeps_longest_suffix:
  "\<exists>dropped kept. prior_history = dropped @ kept \<and>
     fit_messages b system prior_history current_turn = system # kept @ current_turn \<and>
     cost kept \<le> prompt_budget b - (msg_cost system + cost current_turn) \<and>
     (\<forall>dropped' kept'. prior_history = dropped' @ kept' \<and> length kept < length kept' \<longrightarrow>
        prompt_budget b - (msg_cost system + cost current_turn) < cost kept') \<and>
     (msg_cost system + cost current_turn \<le> prompt_budget b \<longrightarrow>
        cost (fit_messages b system prior_history current_turn) \<le> prompt_budget b)"
proof -
  let ?room = "prompt_budget b - (msg_cost system + cost current_turn)" and ?ms = "rev prior_history"
  obtain k where k: "k \<le> length ?ms" "keep_newest ?room ?ms = take k ?ms" "cost (take k ?ms) \<le> ?room"
    "k < length ?ms \<longrightarrow> cost (take (Suc k) ?ms) > ?room"
    using keep_newest_take [of ?ms ?room] by blast
  define dropped kept where "dropped = rev (drop k ?ms)" and "kept = rev (take k ?ms)"
  have split: "prior_history = dropped @ kept"
    unfolding dropped_def kept_def by (metis append_take_drop_id rev_append rev_rev_ident)
  have fit: "fit_messages b system prior_history current_turn = system # kept @ current_turn"
    using k(2) by (simp add: fit_messages_def Let_def kept_def)
  have room: "cost kept \<le> ?room" using k(3) by (simp add: kept_def)
  have longest: "?room < cost kept'" if "prior_history = dropped' @ kept'" "length kept < length kept'" for dropped' kept'
  proof -
    have "k < length kept'" using that(2) k(1) by (simp add: kept_def)
    moreover have "rev kept' = take (length kept') ?ms" using that(1) by simp
    ultimately have "cost (take (Suc k) ?ms) \<le> cost (rev kept')" using cost_take_mono [of "Suc k" "length kept'" ?ms] by simp
    moreover have "k < length ?ms" using \<open>k < length kept'\<close> that(1) by simp
    ultimately show ?thesis using k(4) by simp
  qed
  have "cost (system # kept @ current_turn) \<le> prompt_budget b" if "msg_cost system + cost current_turn \<le> prompt_budget b"
    using room that by simp
  with split fit room longest show ?thesis by metis
qed

theorem fit_keeps_longest_suffix_witness:
  "cost (fit_messages (tb_new 8) \<lparr>msg_role = System, msg_content = [115]\<rparr>
     [\<lparr>msg_role = User, msg_content = replicate 30 120\<rparr>, \<lparr>msg_role = Assistant, msg_content = [97]\<rparr>]
     [\<lparr>msg_role = User, msg_content = [104, 105]\<rparr>]) \<le> 6"
proof -
  have "prompt_budget (tb_new 8) = 6" by (simp add: prompt_budget_def tb_new_def)
  then show ?thesis
    using fit_keeps_longest_suffix [where b = "tb_new 8"
        and prior_history = "[\<lparr>msg_role = User, msg_content = replicate 30 120\<rparr>, \<lparr>msg_role = Assistant, msg_content = [97]\<rparr>]"
        and system = "\<lparr>msg_role = System, msg_content = [115]\<rparr>"
        and current_turn = "[\<lparr>msg_role = User, msg_content = [104, 105]\<rparr>]"]
    by (auto simp: estimate_def)
qed

text \<open>In the tool loop the current turn is never trimmed, whatever it has grown to.\<close>

lemma refit_pins_tail:
  assumes "pinned < length messages"
  shows "\<exists>kept. refit b messages pinned = hd messages # kept @ drop (length messages - pinned) messages"
  using assms by (auto simp: refit_def fit_messages_def Let_def)

end
