(* ===== verification/SsrfGuard.thy ===== *)
theory SsrfGuard
  imports BindPolicy ToolTags
begin

text \<open>
  The guard of outbound HTTP requests (\<open>crates/haily-tools/src/security.rs\<close>): which addresses a tool may
  connect to, the allowance a connector manifest pins, and the redirect followers that vet every hop.
  The URL parser, the address parser, DNS and the HTTP client are fields of \<open>net\<close>; DNS and the servers may
  answer differently at every call. The octet tests of the code are shown to be address blocks, stated
  with the code's own block test \<open>cidr_match\<close>, which in turn compares the leading bits of the addresses.
\<close>

unbundle bit_operations_syntax

section \<open>Addresses\<close>

type_synonym u8 = "8 word"

fun be_bytes :: "nat \<Rightarrow> nat \<Rightarrow> nat list" where
  "be_bytes 0 n = []"
| "be_bytes (Suc m) n = be_bytes m (n div 256) @ [n mod 256]"

text \<open>\<open>Ipv6Addr::octets\<close>, most significant byte first.\<close>

definition octets6 :: "128 word \<Rightarrow> u8 list" where
  "octets6 w = map of_nat (be_bytes 16 (unat w))"

text \<open>\<open>Ipv6Addr::to_ipv4\<close>: addresses \<open>::a.b.c.d\<close> and \<open>::ffff:a.b.c.d\<close>.\<close>

definition to_ipv4 :: "128 word \<Rightarrow> IpAddr option" where
  "to_ipv4 w =
     (let oc = octets6 w in
      if take 12 oc = replicate 12 0 \<or> take 12 oc = replicate 10 0 @ [0xff, 0xff]
      then Some (V4 (oc ! 12) (oc ! 13) (oc ! 14) (oc ! 15)) else None)"

definition NAT64_PREFIX :: "u8 list" where
  "NAT64_PREFIX = [0x00, 0x64, 0xff, 0x9b, 0, 0, 0, 0, 0, 0, 0, 0]"

text \<open>The IPv4 address an IPv6 address stands for, if any.\<close>

definition embedded :: "128 word \<Rightarrow> IpAddr option" where
  "embedded w =
     (let oc = octets6 w in
      if take 12 oc = NAT64_PREFIX then Some (V4 (oc ! 12) (oc ! 13) (oc ! 14) (oc ! 15)) else to_ipv4 w)"

text \<open>\<open>is_private\<close>, \<open>is_documentation\<close> and \<open>is_broadcast\<close> of the standard library.\<close>

definition is_private :: "u8 \<Rightarrow> u8 \<Rightarrow> bool" where
  "is_private a b \<longleftrightarrow> a = 10 \<or> a = 172 \<and> 16 \<le> b \<and> b \<le> 31 \<or> a = 192 \<and> b = 168"

definition is_documentation :: "u8 \<Rightarrow> u8 \<Rightarrow> u8 \<Rightarrow> bool" where
  "is_documentation a b c \<longleftrightarrow> [a, b, c] \<in> {[192, 0, 2], [198, 51, 100], [203, 0, 113]}"

fun ipv4_blocked :: "IpAddr \<Rightarrow> bool" where
  "ipv4_blocked (V4 a b c d) \<longleftrightarrow>
     is_loopback (V4 a b c d) \<or> is_private a b \<or> is_link_local (V4 a b c d) \<or>
     [a, b, c, d] = [255, 255, 255, 255] \<or> is_documentation a b c \<or> [a, b, c, d] = [0, 0, 0, 0] \<or>
     (a = 100 \<and> b AND 0xc0 = 0x40) \<or> a \<ge> 240 \<or> [a, b, c] = [100, 100, 100]"
| "ipv4_blocked (V6 w) \<longleftrightarrow> False"

datatype ssrf_error =
    InvalidUrl | BadScheme ustr | NoHost | BlockedHost ustr | DnsFailed ustr | NoAddresses ustr
  | BlockedIp IpAddr | NotPublicNorPinned IpAddr | NeverAllowable IpAddr
  | SendFailed | TooManyRedirects | NoLocation | InvalidLocation

fun check_ip :: "IpAddr \<Rightarrow> ssrf_error + unit" where
  "check_ip (V4 a b c d) = (if ipv4_blocked (V4 a b c d) then Inl (BlockedIp (V4 a b c d)) else Inr ())"
| "check_ip (V6 w) =
     (let oc = octets6 w;
          native = w = 1 \<or> w = 0 \<or> (oc ! 0) AND 0xfe = 0xfc \<or> (oc ! 0 = 0xfe \<and> (oc ! 1) AND 0xc0 = 0x80);
          emb = (if take 12 oc = NAT64_PREFIX then ipv4_blocked (V4 (oc ! 12) (oc ! 13) (oc ! 14) (oc ! 15))
                 else (case map_option ipv4_blocked (to_ipv4 w) of Some b \<Rightarrow> b | None \<Rightarrow> False))
      in if native \<or> emb then Inl (BlockedIp (V6 w)) else Inr ())"

fun v4_never :: "bool \<Rightarrow> IpAddr \<Rightarrow> bool" where
  "v4_never allow_loopback (V4 a b c d) \<longleftrightarrow>
     is_link_local (V4 a b c d) \<or> (\<not> allow_loopback \<and> is_loopback (V4 a b c d)) \<or> [a, b, c] = [100, 100, 100]"
| "v4_never allow_loopback (V6 w) \<longleftrightarrow> False"

definition v6_metadata :: "128 word \<Rightarrow> bool" where
  "v6_metadata w \<longleftrightarrow>
     (let oc = octets6 w in
      (oc ! 0 = 0xfe \<and> (oc ! 1) AND 0xc0 = 0x80) \<or> take 8 oc = [0xfd, 0x00, 0x0e, 0xc2, 0, 0, 0, 0])"

fun is_never_allowable :: "IpAddr \<Rightarrow> bool" where
  "is_never_allowable (V4 a b c d) \<longleftrightarrow> v4_never False (V4 a b c d)"
| "is_never_allowable (V6 w) \<longleftrightarrow>
     (case embedded w of Some v4 \<Rightarrow> v4_never False v4 | None \<Rightarrow> w = 1 \<or> v6_metadata w)"

fun is_never_allowable_except_loopback :: "IpAddr \<Rightarrow> bool \<Rightarrow> bool" where
  "is_never_allowable_except_loopback (V4 a b c d) allow_loopback \<longleftrightarrow>
     (if \<not> allow_loopback then is_never_allowable (V4 a b c d) else v4_never True (V4 a b c d))"
| "is_never_allowable_except_loopback (V6 w) allow_loopback \<longleftrightarrow>
     (if \<not> allow_loopback then is_never_allowable (V6 w)
      else (case embedded w of Some v4 \<Rightarrow> v4_never True v4 | None \<Rightarrow> v6_metadata w))"

section \<open>Pinned blocks\<close>

definition v4_mask :: "nat \<Rightarrow> u32" where
  "v4_mask p = (if p = 0 then 0 else push_bit (32 - p) (- 1))"

definition v6_mask :: "nat \<Rightarrow> 128 word" where
  "v6_mask p = (if p = 0 then 0 else push_bit (128 - p) (- 1))"

fun v4_u32 :: "u8 \<Rightarrow> u8 \<Rightarrow> u8 \<Rightarrow> u8 \<Rightarrow> u32" where
  "v4_u32 a b c d = of_nat (((unat a * 256 + unat b) * 256 + unat c) * 256 + unat d)"

fun cidr_match :: "IpAddr \<Rightarrow> nat option \<Rightarrow> IpAddr \<Rightarrow> bool" where
  "cidr_match (V4 n1 n2 n3 n4) pre (V4 a b c d) \<longleftrightarrow>
     (let p = (case pre of Some p \<Rightarrow> p | None \<Rightarrow> 32)
      in if p > 32 then False else v4_u32 n1 n2 n3 n4 AND v4_mask p = v4_u32 a b c d AND v4_mask p)"
| "cidr_match (V6 n) pre (V6 w) \<longleftrightarrow>
     (let p = (case pre of Some p \<Rightarrow> p | None \<Rightarrow> 128)
      in if p > 128 then False else n AND v6_mask p = w AND v6_mask p)"
| "cidr_match _ pre _ \<longleftrightarrow> False"

text \<open>\<open>str::parse::<u8>\<close>: digits after an optional sign \<open>+\<close>, at most 255.\<close>

definition digits_value :: "ustr \<Rightarrow> nat" where
  "digits_value s = foldl (\<lambda>n c. n * 10 + (c - 48)) 0 s"

definition parse_u8 :: "ustr \<Rightarrow> nat option" where
  "parse_u8 s =
     (let ds = (case s of c # r \<Rightarrow> (if c = 43 then r else s) | [] \<Rightarrow> [])
      in if ds \<noteq> [] \<and> list_all (\<lambda>c. 48 \<le> c \<and> c \<le> 57) ds \<and> digits_value ds \<le> 255
         then Some (digits_value ds) else None)"

definition split_once :: "nat \<Rightarrow> ustr \<Rightarrow> (ustr \<times> ustr) option" where
  "split_once c s =
     (if c \<in> set s then Some (takeWhile (\<lambda>x. x \<noteq> c) s, tl (dropWhile (\<lambda>x. x \<noteq> c) s)) else None)"

definition cidr_contains :: "(ustr \<Rightarrow> IpAddr option) \<Rightarrow> ustr \<Rightarrow> IpAddr \<Rightarrow> bool" where
  "cidr_contains parse_ip cidr ip =
     (case (case split_once 47 cidr of
              Some (n, p) \<Rightarrow> map_option (\<lambda>p. (n, Some p)) (parse_u8 p)
            | None \<Rightarrow> Some (cidr, None)) of
        None \<Rightarrow> False
      | Some (net_str, pre) \<Rightarrow>
          (case parse_ip (trim net_str) of None \<Rightarrow> False | Some net \<Rightarrow> cidr_match net pre ip))"

definition allowance_permits_inner :: "(ustr \<Rightarrow> IpAddr option) \<Rightarrow> IpAddr \<Rightarrow> ustr list \<Rightarrow> bool \<Rightarrow> bool" where
  "allowance_permits_inner parse_ip ip allowed_ip_cidrs allow_loopback =
     (if is_never_allowable_except_loopback ip allow_loopback then False
      else list_ex (\<lambda>c. cidr_contains parse_ip c ip) allowed_ip_cidrs)"

section \<open>The guards\<close>

definition BLOCKED_HOSTS :: "string list" where
  "BLOCKED_HOSTS = [''169.254.169.254'', ''metadata.google.internal'', ''100.100.100.200'', ''fd00:ec2::254'']"

record Url =
  u_scheme :: ustr
  u_host_str :: "ustr option"
  u_port_or_known_default :: "u16 option"

record Response =
  rs_status :: nat
  rs_location :: "ustr option"
  rs_body :: ustr

text \<open>The code outside the repository; the number is that of the hop.\<close>

record 'r net =
  nt_url_parse :: "ustr \<Rightarrow> Url option"
  nt_join :: "ustr \<Rightarrow> ustr \<Rightarrow> ustr option"
  nt_parse_ip :: "ustr \<Rightarrow> IpAddr option"
  nt_lookup :: "nat \<Rightarrow> ustr \<Rightarrow> IpAddr list option"
  nt_send :: "nat \<Rightarrow> ustr \<Rightarrow> SocketAddr \<Rightarrow> 'r \<Rightarrow> Response option"

text \<open>The part the guards share: the host, the port and the addresses of a URL.\<close>

definition resolve_host :: "'r net \<Rightarrow> nat \<Rightarrow> ustr \<Rightarrow> ssrf_error + (ustr \<times> u16 \<times> bool \<times> IpAddr list)" where
  "resolve_host net n raw_url =
     (case nt_url_parse net raw_url of
        None \<Rightarrow> Inl InvalidUrl
      | Some url \<Rightarrow>
          if u_scheme url \<noteq> lit ''http'' \<and> u_scheme url \<noteq> lit ''https'' then Inl (BadScheme (u_scheme url))
          else (case u_host_str url of
             None \<Rightarrow> Inl NoHost
           | Some host \<Rightarrow>
               if list_ex (\<lambda>b. eq_ignore_ascii_case host (lit b)) BLOCKED_HOSTS then Inl (BlockedHost host)
               else
                 (let port = (case u_port_or_known_default url of Some p \<Rightarrow> p | None \<Rightarrow> 80)
                  in case nt_parse_ip net host of
                       Some ip \<Rightarrow> Inr (host, port, True, [ip])
                     | None \<Rightarrow>
                         (case nt_lookup net n (host @ [58] @ lit (nat_text (unat port))) of
                            None \<Rightarrow> Inl (DnsFailed host)
                          | Some addrs \<Rightarrow> Inr (host, port, False, addrs)))))"

text \<open>\<open>for ip in &addrs { check(ip)? }\<close>\<close>

fun check_all :: "(IpAddr \<Rightarrow> ssrf_error + unit) \<Rightarrow> IpAddr list \<Rightarrow> ssrf_error + unit" where
  "check_all check [] = Inr ()"
| "check_all check (ip # ips) = (case check ip of Inl e \<Rightarrow> Inl e | Inr _ \<Rightarrow> check_all check ips)"

definition ssrf_guard :: "'r net \<Rightarrow> nat \<Rightarrow> ustr \<Rightarrow> ssrf_error + SocketAddr" where
  "ssrf_guard net n raw_url =
     (case resolve_host net n raw_url of
        Inl e \<Rightarrow> Inl e
      | Inr (host, port, literal, addrs) \<Rightarrow>
          if \<not> literal \<and> addrs = [] then Inl (NoAddresses host)
          else (case check_all check_ip addrs of Inl e \<Rightarrow> Inl e | Inr _ \<Rightarrow> Inr (hd addrs, port)))"

definition ssrf_guard_with_allowance_loopback ::
    "'r net \<Rightarrow> nat \<Rightarrow> ustr \<Rightarrow> ustr list \<Rightarrow> bool \<Rightarrow> ssrf_error + SocketAddr" where
  "ssrf_guard_with_allowance_loopback net n raw_url allowed_ip_cidrs allow_loopback =
     (case resolve_host net n raw_url of
        Inl e \<Rightarrow> Inl e
      | Inr (host, port, _, addrs) \<Rightarrow>
          if addrs = [] then Inl (NoAddresses host)
          else
            (case check_all
                    (\<lambda>ip. if check_ip ip \<noteq> Inr () \<and>
                             \<not> allowance_permits_inner (nt_parse_ip net) ip allowed_ip_cidrs allow_loopback
                          then Inl (NotPublicNorPinned ip) else Inr ())
                    addrs of
               Inl e \<Rightarrow> Inl e | Inr _ \<Rightarrow> Inr (hd addrs, port)))"

definition ssrf_guard_with_allowance :: "'r net \<Rightarrow> nat \<Rightarrow> ustr \<Rightarrow> ustr list \<Rightarrow> ssrf_error + SocketAddr" where
  "ssrf_guard_with_allowance net n raw_url allowed_ip_cidrs =
     ssrf_guard_with_allowance_loopback net n raw_url allowed_ip_cidrs False"

definition validate_manifest_base_url :: "'r net \<Rightarrow> nat \<Rightarrow> ustr \<Rightarrow> ssrf_error + unit" where
  "validate_manifest_base_url net n base_url =
     (case resolve_host net n base_url of
        Inl e \<Rightarrow> Inl e
      | Inr (host, port, _, addrs) \<Rightarrow>
          check_all (\<lambda>ip. if is_never_allowable ip then Inl (NeverAllowable ip) else Inr ()) addrs)"

section \<open>Following redirects\<close>

definition MAX_REDIRECT_HOPS :: nat where "MAX_REDIRECT_HOPS = 5"

definition is_redirection :: "Response \<Rightarrow> bool" where
  "is_redirection resp \<longleftrightarrow> 300 \<le> rs_status resp \<and> rs_status resp < 400"

text \<open>
  The loop over the hops with the requests it sends: the URL, the host the client is built for, the address
  the connection is pinned to and the request that \<open>build_request\<close> makes for the URL. The list of hops never
  runs out, since the last one returns.
\<close>

type_synonym 'r hop_request = "ustr \<times> ustr \<times> SocketAddr \<times> 'r"

fun follow_hops :: "(nat \<Rightarrow> ustr \<Rightarrow> ssrf_error + SocketAddr) \<Rightarrow> 'r net \<Rightarrow> (ustr \<Rightarrow> 'r) \<Rightarrow> nat list \<Rightarrow> ustr
    \<Rightarrow> (ssrf_error + Response) \<times> 'r hop_request list" where
  "follow_hops guard net build_request [] current_url = (Inl TooManyRedirects, [])"
| "follow_hops guard net build_request (hop # hops) current_url =
     (case guard hop current_url of
        Inl e \<Rightarrow> (Inl e, [])
      | Inr vetted \<Rightarrow>
          (case nt_url_parse net current_url of
             None \<Rightarrow> (Inl InvalidUrl, [])
           | Some parsed \<Rightarrow>
               (case u_host_str parsed of
                  None \<Rightarrow> (Inl NoHost, [])
                | Some host \<Rightarrow>
                    (let sent = (current_url, host, vetted, build_request current_url)
                     in case nt_send net hop current_url vetted (build_request current_url) of
                          None \<Rightarrow> (Inl SendFailed, [sent])
                        | Some resp \<Rightarrow>
                            if \<not> is_redirection resp then (Inr resp, [sent])
                            else if hop = MAX_REDIRECT_HOPS then (Inl TooManyRedirects, [sent])
                            else (case rs_location resp of
                                    None \<Rightarrow> (Inl NoLocation, [sent])
                                  | Some location \<Rightarrow>
                                      (case nt_join net current_url location of
                                         None \<Rightarrow> (Inl InvalidLocation, [sent])
                                       | Some next_url \<Rightarrow>
                                           (let (r, more) = follow_hops guard net build_request hops next_url
                                            in (r, sent # more))))))))"

definition follow_redirects_with_guard where
  "follow_redirects_with_guard net initial_url build_request =
     follow_hops (ssrf_guard net) net build_request [0..<Suc MAX_REDIRECT_HOPS] initial_url"

definition follow_redirects_with_guard_allowance_loopback where
  "follow_redirects_with_guard_allowance_loopback net initial_url allowed_ip_cidrs allow_loopback build_request =
     follow_hops (\<lambda>n url. ssrf_guard_with_allowance_loopback net n url allowed_ip_cidrs allow_loopback) net build_request
       [0..<Suc MAX_REDIRECT_HOPS] initial_url"

definition follow_redirects_with_guard_allowance where
  "follow_redirects_with_guard_allowance net initial_url allowed_ip_cidrs build_request =
     follow_redirects_with_guard_allowance_loopback net initial_url allowed_ip_cidrs False build_request"

section \<open>The code's block test\<close>

lemma and_high_mask:
  fixes x y :: "'a::len word"
  shows "x AND push_bit k (- 1) = y AND push_bit k (- 1) \<longleftrightarrow> drop_bit k x = drop_bit k y"
proof
  assume eq: "x AND push_bit k (- 1) = y AND push_bit k (- 1)"
  show "drop_bit k x = drop_bit k y"
  proof (rule bit_word_eqI)
    fix n assume "n < LENGTH('a)"
    have "bit (x AND push_bit k (- 1)) (k + n) = bit (y AND push_bit k (- 1)) (k + n)" by (simp only: eq)
    then show "bit (drop_bit k x) n = bit (drop_bit k y) n"
      by (auto simp: bit_simps not_le dest: bit_imp_le_length)
  qed
next
  assume eq: "drop_bit k x = drop_bit k y"
  show "x AND push_bit k (- 1) = y AND push_bit k (- 1)"
  proof (rule bit_word_eqI)
    fix n assume "n < LENGTH('a)"
    have "bit (drop_bit k x) (n - k) = bit (drop_bit k y) (n - k)" by (simp only: eq)
    then show "bit (x AND push_bit k (- 1)) n = bit (y AND push_bit k (- 1)) n"
      by (auto simp: bit_simps)
  qed
qed

lemma masked_eq_iff:
  fixes x y :: "'a::len word"
  shows "x AND push_bit k (- 1) = y AND push_bit k (- 1) \<longleftrightarrow> unat y div 2 ^ k = unat x div 2 ^ k"
  proof -
  have "drop_bit k x = drop_bit k y \<longleftrightarrow> drop_bit k (unat x) = drop_bit k (unat y)"
    by (simp only: word_unat_eq_iff unat_drop_bit_eq)
  then show ?thesis unfolding and_high_mask by (auto simp: drop_bit_eq_div)
qed

lemma v4_value_fits:
  "((unat a * 256 + unat b) * 256 + unat c) * 256 + unat (d :: u8) < 2 ^ 32" for a b c :: u8
  using octet_bound [of a] octet_bound [of b] octet_bound [of c] octet_bound [of d] by simp

lemma unat_v4_u32: "unat (v4_u32 a b c d) = ((unat a * 256 + unat b) * 256 + unat c) * 256 + unat d"
  unfolding v4_u32.simps
  by (rule unat_of_nat_fits) (use v4_value_fits [of a b c d] in simp)

text \<open>The mask test compares the leading bits, for both families.\<close>

lemma cidr_match_V4:
  "p \<le> 32 \<Longrightarrow> cidr_match (V4 n1 n2 n3 n4) (Some p) (V4 a b c d) \<longleftrightarrow> in_cidr (V4 n1 n2 n3 n4) p (V4 a b c d)"
proof -
  assume p: "p \<le> 32"
  have mask: "v4_mask p = push_bit (32 - p) (- 1)"
    by (cases "p = 0") (auto simp: v4_mask_def intro: bit_word_eqI simp: bit_simps)
  show ?thesis
    using p unfolding cidr_match.simps option.case Let_def mask masked_eq_iff unat_v4_u32 in_cidr_def v4_value.simps
    by simp
qed

lemma cidr_match_V6:
  "p \<le> 128 \<Longrightarrow> cidr_match (V6 n) (Some p) (V6 w) \<longleftrightarrow> unat w div 2 ^ (128 - p) = unat n div 2 ^ (128 - p)"
proof -
  assume p: "p \<le> 128"
  have mask: "v6_mask p = push_bit (128 - p) (- 1)"
    by (cases "p = 0") (auto simp: v6_mask_def intro: bit_word_eqI simp: bit_simps)
  show ?thesis using p unfolding cidr_match.simps option.case Let_def mask masked_eq_iff by simp
qed

section \<open>The octet tests as blocks\<close>

definition BLOCKED_V4 :: "(IpAddr \<times> nat) list" where
  "BLOCKED_V4 =
     [(V4 127 0 0 0, 8), (V4 10 0 0 0, 8), (V4 172 16 0 0, 12), (V4 192 168 0 0, 16), (V4 169 254 0 0, 16),
      (V4 255 255 255 255, 32), (V4 192 0 2 0, 24), (V4 198 51 100 0, 24), (V4 203 0 113 0, 24),
      (V4 0 0 0 0, 32), (V4 100 64 0 0, 10), (V4 240 0 0 0, 4)]"

definition in_blocks :: "(IpAddr \<times> nat) list \<Rightarrow> IpAddr \<Rightarrow> bool" where
  "in_blocks blocks ip \<longleftrightarrow> list_ex (\<lambda>(n, p). cidr_match n (Some p) ip) blocks"

lemma in_cidr_24:
  "in_cidr (V4 n1 n2 n3 n4) 24 (V4 a b c d) \<longleftrightarrow> [a, b, c] = [n1, n2, n3]"
proof -
  have strip: "(x * 256 + unat w) div 2 ^ (32 - 24) = x" for x and w :: u8 using octet_bound [of w] by simp
  show ?thesis
    using digits_eq [OF octet_bound [of c] octet_bound [of n3], of "unat a * 256 + unat b" "unat n1 * 256 + unat n2"]
      digits_eq [OF octet_bound [of b] octet_bound [of n2], of "unat a" "unat n1"]
    by (simp only: in_cidr_def v4_value.simps prod.case option.case 
        strip list.inject word_unat_eq_iff)
      auto
qed

lemma in_cidr_32:
  "in_cidr (V4 n1 n2 n3 n4) 32 (V4 a b c d) \<longleftrightarrow> [a, b, c, d] = [n1, n2, n3, n4]"
  using in_cidr_24 [of n1 n2 n3 n4 a b c d]
    digits_eq [OF octet_bound [of d] octet_bound [of n4], of "(unat a * 256 + unat b) * 256 + unat c"
       "(unat n1 * 256 + unat n2) * 256 + unat n3"]
    digits_eq [OF octet_bound [of c] octet_bound [of n3], of "unat a * 256 + unat b" "unat n1 * 256 + unat n2"]
    digits_eq [OF octet_bound [of b] octet_bound [of n2], of "unat a" "unat n1"]
  by (simp add: in_cidr_def word_unat_eq_iff)

lemma in_cidr_16: "in_cidr (V4 n1 n2 n3 n4) 16 (V4 a b c d) \<longleftrightarrow> [a, b] = [n1, n2]"
  using digits_eq [OF octet_bound [of b] octet_bound [of n2], of "unat a" "unat n1"]
  by (simp add: in_cidr_V4 word_unat_eq_iff)

lemma in_cidr_8: "in_cidr (V4 n1 n2 n3 n4) 8 (V4 a b c d) \<longleftrightarrow> a = n1"
  using octet_bound [of b] octet_bound [of n2] by (simp add: in_cidr_V4 word_unat_eq_iff)

lemma in_cidr_class_e: "in_cidr (V4 240 0 0 0) 4 (V4 a b c d) \<longleftrightarrow> a \<ge> 240"
proof -
  have "(unat a * 256 + unat b) div 4096 = unat a div 16"
    using octet_bound [of b] by (simp add: div_mult2_eq [of _ 256 16, simplified])
  then have "in_cidr (V4 240 0 0 0) 4 (V4 a b c d) \<longleftrightarrow> unat a div 16 = 15" by (simp add: in_cidr_V4)
  also have "\<dots> \<longleftrightarrow> 240 \<le> unat a" using octet_bound [of a] by auto
  finally show ?thesis by (simp add: word_le_nat_alt)
qed

lemma private_blocks:
  "is_private a b \<longleftrightarrow> in_cidr (V4 10 0 0 0) 8 (V4 a b c d) \<or> in_cidr (V4 172 16 0 0) 12 (V4 a b c d) \<or>
     in_cidr (V4 192 168 0 0) 16 (V4 a b c d)"
proof -
  have "is_private a b \<longleftrightarrow> is_private_lan (V4 a b c d)" by (auto simp: is_private_def)
  then show ?thesis by (simp only: private_cidr)
qed

lemma ipv4_blocked_blocks: "ipv4_blocked ip \<longleftrightarrow> in_blocks BLOCKED_V4 ip"
proof (cases ip)
  case (V4 a b c d)
  have cgnat: "a = 100 \<and> b AND 0xc0 = 0x40 \<longleftrightarrow> in_cidr (V4 100 64 0 0) 10 (V4 a b c d)"
    using tailnet_cidr [of "V4 a b c d"] by simp
  have alibaba: "[a, b, c] = [100, 100, 100] \<Longrightarrow> in_cidr (V4 100 64 0 0) 10 (V4 a b c d)"
    using cgnat by auto
  have "in_blocks BLOCKED_V4 (V4 a b c d) \<longleftrightarrow> list_ex (\<lambda>(n, p). in_cidr n p (V4 a b c d)) BLOCKED_V4"
    by (simp add: in_blocks_def BLOCKED_V4_def cidr_match_V4 del: cidr_match.simps)
  then show ?thesis
    using alibaba unfolding V4 ipv4_blocked.simps cgnat private_blocks [of a b c d]
    by (simp add: BLOCKED_V4_def in_cidr_8 in_cidr_16 in_cidr_24 in_cidr_32 in_cidr_class_e is_documentation_def) argo
qed (simp add: in_blocks_def BLOCKED_V4_def)

section \<open>IPv6 addresses\<close>

lemma length_be_bytes [simp]: "length (be_bytes m n) = m"
  by (induction m arbitrary: n) auto

lemma be_bytes_numeral: "be_bytes (numeral k) n = be_bytes (pred_numeral k) (n div 256) @ [n mod 256]"
  by (simp only: numeral_eq_Suc [of k] be_bytes.simps)

lemma be_bytes_less: "x \<in> set (be_bytes m n) \<Longrightarrow> x < 256"
  by (induction m arbitrary: n) auto

lemma take_be_bytes: "k \<le> m \<Longrightarrow> take k (be_bytes m n) = be_bytes k (n div 256 ^ (m - k))"
proof (induction m arbitrary: n)
  case (Suc m)
  show ?case
  proof (cases "k = Suc m")
    case False
    with Suc.prems have "k \<le> m" by simp
    then show ?thesis using Suc.IH [of "n div 256"] by (simp add: Suc_diff_le div_mult2_eq)
  qed simp
qed simp

lemma be_bytes_inj: "n < 256 ^ m \<Longrightarrow> n' < 256 ^ m \<Longrightarrow> be_bytes m n = be_bytes m n' \<longleftrightarrow> n = n'"
proof (induction m arbitrary: n n')
  case (Suc m)
  then have "n div 256 < 256 ^ m" "n' div 256 < 256 ^ m" by (simp_all add: div_less_iff_less_mult mult.commute)
  from Suc.IH [OF this] show ?case
    by (auto) (metis div_mult_mod_eq)
qed simp

lemma map_of_nat_octets:
  assumes "\<And>x. x \<in> set xs \<Longrightarrow> x < 256"
  shows "map of_nat xs = (ys :: u8 list) \<longleftrightarrow> xs = map unat ys"
proof
  assume "map of_nat xs = ys"
  then have "map unat ys = map (\<lambda>x. unat (of_nat x :: u8)) xs" by auto
  also have "\<dots> = xs" using assms by (intro map_idI) (simp add: unat_of_nat_fits)
  finally show "xs = map unat ys" ..
qed (simp add: comp_def)

text \<open>The leading octets are the leading bits of the address.\<close>

lemma leading_octets:
  assumes "k \<le> 16" and "map unat ys = be_bytes k v" and "v < 256 ^ k"
  shows "take k (octets6 w) = ys \<longleftrightarrow> unat w div 256 ^ (16 - k) = v"
proof -
  have "unat w < 256 ^ (16 - k) * 256 ^ k"
    using unsigned_less [of w, where ?'a = nat] assms(1) by (simp flip: power_add)
  then have lt: "unat w div 256 ^ (16 - k) < 256 ^ k" by (simp add: div_less_iff_less_mult mult.commute)
  have "take k (octets6 w) = map of_nat (be_bytes k (unat w div 256 ^ (16 - k)))"
    using assms(1) by (simp add: octets6_def take_map take_be_bytes)
  then show ?thesis
    using map_of_nat_octets [of "be_bytes k (unat w div 256 ^ (16 - k))" ys, OF be_bytes_less] be_bytes_inj [OF lt assms(3)]
    by (simp add: assms(2))
qed

lemma length_octets6 [simp]: "length (octets6 w) = 16"
  by (simp add: octets6_def)

lemma first_octet: "unat (octets6 w ! 0) = unat w div 2 ^ 120"
proof -
  have "take 1 (octets6 w) = [octets6 w ! 0]" using length_octets6 [of w] by (cases "octets6 w") auto
  then show ?thesis
    using leading_octets [of 1 "[octets6 w ! 0]" "unat (octets6 w ! 0)" w] octet_bound [of "octets6 w ! 0"]
    by simp
qed

lemma octet_masks:
  fixes b :: u8
  shows "b AND 0xfe = 0xfc \<longleftrightarrow> unat b div 2 = 126" and "b AND 0xc0 = 0x80 \<longleftrightarrow> unat b div 64 = 2"
proof -
  have m: "(0xfe :: u8) = push_bit 1 (- 1)" "(0xc0 :: u8) = push_bit 6 (- 1)"
    by (simp_all add: push_bit_eq_mult)
  have "b AND 0xfe = 0xfc \<longleftrightarrow> b AND 0xfe = 0xfc AND (0xfe :: u8)" by simp
  then show "b AND 0xfe = 0xfc \<longleftrightarrow> unat b div 2 = 126" unfolding m masked_eq_iff by auto
  have "b AND 0xc0 = 0x80 \<longleftrightarrow> b AND 0xc0 = 0x80 AND (0xc0 :: u8)" by simp
  then show "b AND 0xc0 = 0x80 \<longleftrightarrow> unat b div 64 = 2" unfolding m masked_eq_iff by auto
qed

lemma two_octets: "unat w div 2 ^ 112 = unat (octets6 w ! 0) * 256 + unat (octets6 w ! 1)"
proof -
  obtain x y r where o: "octets6 w = x # y # r"
    using length_octets6 [of w] by (cases "octets6 w"; cases "tl (octets6 w)") auto
  have "be_bytes (Suc (Suc 0)) (unat x * 256 + unat y) = [unat x, unat y]"
    using octet_bound [of x] octet_bound [of y] by simp
  then show ?thesis
    using leading_octets [of 2 "[x, y]" "unat x * 256 + unat y" w] octet_bound [of x] octet_bound [of y] o
    by (simp flip: numeral_2_eq_2)
qed

definition BLOCKED_V6 :: "(IpAddr \<times> nat) list" where
  "BLOCKED_V6 = [(V6 1, 128), (V6 0, 128), (V6 (0xfc * 2 ^ 120), 7), (V6 (0xfe80 * 2 ^ 112), 10)]"

definition NEVER_BLOCKS :: "(IpAddr \<times> nat) list" where
  "NEVER_BLOCKS =
     [(V4 169 254 0 0, 16), (V4 127 0 0 0, 8), (V4 100 100 100 0, 24),
      (V6 (0xfe80 * 2 ^ 112), 10), (V6 (0xfd000ec2 * 2 ^ 96), 64)]"

text \<open>The address that is reached: an embedded IPv4 address counts as that address.\<close>

definition canonical :: "IpAddr \<Rightarrow> IpAddr" where
  "canonical ip = (case ip of V4 a b c d \<Rightarrow> ip | V6 w \<Rightarrow> (case embedded w of Some v4 \<Rightarrow> v4 | None \<Rightarrow> ip))"

lemma embedded_V4: "embedded w = Some ip \<Longrightarrow> \<exists>a b c d. ip = V4 a b c d"
  by (auto simp: embedded_def to_ipv4_def Let_def split: if_splits)

lemma unat_shifted:
  "unat (numeral x * 2 ^ k :: 128 word) = numeral x * 2 ^ k" if "numeral x * 2 ^ k < (2 ^ 128 :: nat)"
proof -
  have "(numeral x * 2 ^ k :: 128 word) = of_nat (numeral x * 2 ^ k)" by simp
  then show ?thesis using that by (simp only: unat_of_nat_fits) (rule unat_of_nat_fits, simp)
qed

lemma ula_block: "(octets6 w ! 0) AND 0xfe = 0xfc \<longleftrightarrow> cidr_match (V6 (0xfc * 2 ^ 120)) (Some 7) (V6 w)"
proof -
  have "unat (0xfc * 2 ^ 120 :: 128 word) = 0xfc * 2 ^ 120" by (rule unat_shifted) simp
  moreover have "unat w div 2 ^ 121 = unat w div 2 ^ 120 div 2" by (simp add: div_mult2_eq [symmetric])
  ultimately show ?thesis unfolding octet_masks first_octet by (simp add: cidr_match_V6 del: cidr_match.simps)
qed

lemma link_local_block:
  "octets6 w ! 0 = 0xfe \<and> (octets6 w ! 1) AND 0xc0 = 0x80 \<longleftrightarrow> cidr_match (V6 (0xfe80 * 2 ^ 112)) (Some 10) (V6 w)"
proof -
  have n: "unat (0xfe80 * 2 ^ 112 :: 128 word) = 0xfe80 * 2 ^ 112" by (rule unat_shifted) simp
  have "unat w div 2 ^ 118 = unat w div 2 ^ 112 div 64" by (simp add: div_mult2_eq [symmetric])
  also have "\<dots> = unat (octets6 w ! 0) * 4 + unat (octets6 w ! 1) div 64"
    unfolding two_octets using octet_div [of 64 "unat (octets6 w ! 0)" 4] by simp
  finally have "unat w div 2 ^ 118 = 1018 \<longleftrightarrow> unat (octets6 w ! 0) = 254 \<and> unat (octets6 w ! 1) div 64 = 2"
    using digits_eq [of "unat (octets6 w ! 1) div 64" 4 2 "unat (octets6 w ! 0)" 254] octet_bound [of "octets6 w ! 1"]
    by (simp add: div_less_iff_less_mult)
  with n show ?thesis unfolding octet_masks by (simp add: cidr_match_V6 word_unat_eq_iff del: cidr_match.simps)
qed

lemma metadata_block:
  "take 8 (octets6 w) = [0xfd, 0x00, 0x0e, 0xc2, 0, 0, 0, 0] \<longleftrightarrow> cidr_match (V6 (0xfd000ec2 * 2 ^ 96)) (Some 64) (V6 w)"
proof -
  have "unat (0xfd000ec2 * 2 ^ 96 :: 128 word) = 0xfd000ec2 * 2 ^ 96" by (rule unat_shifted) simp
  moreover have "map unat [0xfd, 0x00, 0x0e, 0xc2, 0, 0, 0, 0 :: u8] = be_bytes 8 (0xfd000ec2 * 2 ^ 32)"
    by (simp add: be_bytes_numeral)
  ultimately show ?thesis
    using leading_octets [of 8 "[0xfd, 0x00, 0x0e, 0xc2, 0, 0, 0, 0]" "0xfd000ec2 * 2 ^ 32" w]
    by (simp add: cidr_match_V6 del: cidr_match.simps)
qed

lemma single_block: "cidr_match (V6 n) (Some 128) (V6 w) \<longleftrightarrow> w = n"
  by (auto simp: cidr_match_V6 word_unat_eq_iff simp del: cidr_match.simps)

lemma in_blocks_simps [simp]:
  "in_blocks [] ip = False"
  "in_blocks ((n, p) # bs) ip \<longleftrightarrow> cidr_match n (Some p) ip \<or> in_blocks bs ip"
  "in_blocks (bs @ cs) ip \<longleftrightarrow> in_blocks bs ip \<or> in_blocks cs ip"
  by (auto simp: in_blocks_def)

text \<open>An address a tool may connect to.\<close>

definition public_ip :: "IpAddr \<Rightarrow> bool" where
  "public_ip ip \<longleftrightarrow> \<not> in_blocks (BLOCKED_V4 @ BLOCKED_V6) ip \<and> \<not> in_blocks BLOCKED_V4 (canonical ip)"

lemma check_ip_public: "check_ip ip = Inr () \<longleftrightarrow> public_ip ip"
proof (cases ip)
  case (V4 a b c d)
  moreover have "\<not> in_blocks BLOCKED_V6 (V4 a b c d)" by (simp add: BLOCKED_V6_def)
  ultimately show ?thesis by (simp add: public_ip_def canonical_def ipv4_blocked_blocks del: ipv4_blocked.simps)
next
  case (V6 w)
  have nat64: "(if take 12 (octets6 w) = NAT64_PREFIX
                then ipv4_blocked (V4 (octets6 w ! 12) (octets6 w ! 13) (octets6 w ! 14) (octets6 w ! 15))
                else (case map_option ipv4_blocked (to_ipv4 w) of Some b \<Rightarrow> b | None \<Rightarrow> False)) \<longleftrightarrow>
               in_blocks BLOCKED_V4 (canonical (V6 w))"
  proof (cases "embedded w")
    case None
    moreover have "\<not> in_blocks BLOCKED_V4 (V6 w)" by (simp add: BLOCKED_V4_def)
    ultimately show ?thesis by (auto simp: embedded_def canonical_def Let_def split: if_splits)
  next
    case (Some v4)
    then show ?thesis
      by (auto simp: embedded_def canonical_def Let_def ipv4_blocked_blocks simp del: ipv4_blocked.simps split: if_splits)
  qed
  have native: "w = 1 \<or> w = 0 \<or> (octets6 w ! 0) AND 0xfe = 0xfc \<or>
      octets6 w ! 0 = 0xfe \<and> (octets6 w ! 1) AND 0xc0 = 0x80 \<longleftrightarrow> in_blocks (BLOCKED_V4 @ BLOCKED_V6) (V6 w)"
    unfolding ula_block link_local_block
    by (simp add: BLOCKED_V6_def BLOCKED_V4_def single_block del: cidr_match.simps(2))
  show ?thesis
    unfolding V6 check_ip.simps Let_def native nat64 public_ip_def by simp
qed

lemma never_allowable_blocks: "is_never_allowable ip \<longleftrightarrow> in_blocks NEVER_BLOCKS (canonical ip)"
proof -
  have v4: "v4_never False (V4 a b c d) \<longleftrightarrow> in_blocks NEVER_BLOCKS (V4 a b c d)" for a b c d
    by (auto simp: NEVER_BLOCKS_def cidr_match_V4 in_cidr_8 in_cidr_16 in_cidr_24 simp del: cidr_match.simps(1))
  have one: "embedded 1 \<noteq> None"
    by (simp add: embedded_def to_ipv4_def Let_def octets6_def NAT64_PREFIX_def be_bytes_numeral)
      (simp add: numeral_eq_Suc)
  show ?thesis
  proof (cases ip)
    case (V4 a b c d)
    then show ?thesis by (simp add: v4 canonical_def del: v4_never.simps)
  next
    case (V6 w)
    show ?thesis
    proof (cases "embedded w")
      case None
      then have "w \<noteq> 1" using one by auto
      then show ?thesis
        unfolding V6 is_never_allowable.simps v6_metadata_def Let_def link_local_block metadata_block using None
        by (simp add: canonical_def NEVER_BLOCKS_def del: cidr_match.simps(2))
    next
      case (Some v4)
      then show ?thesis using embedded_V4 [OF Some] V6 by (auto simp: canonical_def v4 simp del: v4_never.simps)
    qed
  qed
qed

text \<open>The never-allowable surface is part of what the default guard blocks.\<close>

lemma public_not_never: "public_ip ip \<Longrightarrow> \<not> in_blocks NEVER_BLOCKS (canonical ip)"
proof
  assume pub: "public_ip ip" and never: "in_blocks NEVER_BLOCKS (canonical ip)"
  show False
  proof (cases "canonical ip")
    case (V4 a b c d)
    have "ipv4_blocked (V4 a b c d)"
      using never unfolding V4
      by (auto simp: NEVER_BLOCKS_def cidr_match_V4 in_cidr_8 in_cidr_16 in_cidr_24 simp del: cidr_match.simps(1))
    with pub show False by (simp add: public_ip_def V4 ipv4_blocked_blocks del: ipv4_blocked.simps)
  next
    case (V6 w)
    then have ip: "ip = V6 w" using embedded_V4 by (fastforce simp: canonical_def split: IpAddr.splits option.splits)
    have "take 8 (octets6 w) = [0xfd, 0x00, 0x0e, 0xc2, 0, 0, 0, 0] \<Longrightarrow> octets6 w ! 0 = 0xfd"
      by (metis nth_Cons_0 nth_take zero_less_numeral)
    then have "take 8 (octets6 w) = [0xfd, 0x00, 0x0e, 0xc2, 0, 0, 0, 0] \<Longrightarrow> (octets6 w ! 0) AND 0xfe = 0xfc" by simp
    with never have "in_blocks BLOCKED_V6 (V6 w)"
      unfolding V6 by (auto simp: NEVER_BLOCKS_def BLOCKED_V6_def ula_block metadata_block simp del: cidr_match.simps(2))
    with pub show False by (simp add: public_ip_def ip)
  qed
qed

section \<open>The guards\<close>

lemma check_all_Inr: "check_all check ips = Inr () \<longleftrightarrow> (\<forall>ip\<in>set ips. check ip = Inr ())"
  by (induction ips) (auto split: sum.splits)

lemma resolve_literal: "resolve_host net n url = Inr (host, port, True, addrs) \<Longrightarrow> addrs \<noteq> []"
  by (auto simp: resolve_host_def Let_def split: option.splits if_splits)

lemma ssrf_guard_public:
  assumes "ssrf_guard net n url = Inr (ip, port)"
  shows "public_ip ip"
proof -
  obtain host literal addrs where r: "resolve_host net n url = Inr (host, port, literal, addrs)"
    and "\<not> (\<not> literal \<and> addrs = [])" and c: "check_all check_ip addrs = Inr ()" and ip: "ip = hd addrs"
    using assms by (auto simp: ssrf_guard_def split: sum.splits if_splits)
  then have "ip \<in> set addrs" using resolve_literal [of net n url host port addrs] by (cases literal) auto
  with c show ?thesis by (simp add: check_all_Inr check_ip_public)
qed

definition pinned :: "'r net \<Rightarrow> ustr list \<Rightarrow> IpAddr \<Rightarrow> bool" where
  "pinned net cidrs ip \<longleftrightarrow> (\<exists>c\<in>set cidrs. cidr_contains (nt_parse_ip net) c ip)"

lemma guard_with_allowance_vetted:
  assumes "ssrf_guard_with_allowance_loopback net n url cidrs False = Inr (ip, port)"
  shows "(public_ip ip \<or> pinned net cidrs ip) \<and> \<not> in_blocks NEVER_BLOCKS (canonical ip)"
proof -
  have loop: "is_never_allowable_except_loopback ip False = is_never_allowable ip" for ip by (cases ip) simp_all
  let ?check = "\<lambda>ip. if check_ip ip \<noteq> Inr () \<and> \<not> allowance_permits_inner (nt_parse_ip net) ip cidrs False
                     then Inl (NotPublicNorPinned ip) else Inr ()"
  obtain host literal addrs where "resolve_host net n url = Inr (host, port, literal, addrs)"
    and "addrs \<noteq> []" and c: "check_all ?check addrs = Inr ()" and ip: "ip = hd addrs"
    using assms by (auto simp: ssrf_guard_with_allowance_loopback_def split: sum.splits if_splits)
  then have "?check ip = Inr ()" unfolding check_all_Inr by (metis hd_in_set)
  then have "public_ip ip \<or> \<not> is_never_allowable ip \<and> pinned net cidrs ip"
    by (auto simp: check_ip_public allowance_permits_inner_def loop pinned_def list_ex_iff split: if_splits)
  then show ?thesis using public_not_never [of ip] by (auto simp: never_allowable_blocks)
qed

section \<open>Redirects\<close>

text \<open>What a redirect follower relies on: its guard yields only acceptable addresses.\<close>

locale hop_guard =
  fixes guard :: "nat \<Rightarrow> ustr \<Rightarrow> ssrf_error + SocketAddr"
    and acceptable :: "IpAddr \<Rightarrow> bool"
  assumes guard_vets: "guard n url = Inr (ip, port) \<Longrightarrow> acceptable ip"
begin

lemma hops_vetted:
  "follow_hops guard net build_request hops url = (r, sent) \<Longrightarrow>
     length sent \<le> length hops \<and> (\<forall>(u, h, (ip, port), req) \<in> set sent. acceptable ip)"
proof (induction hops arbitrary: url r sent)
  case (Cons hop hops)
  show ?case
  proof (cases "guard hop url")
    case (Inr a)
    obtain ip port where a: "a = (ip, port)" by (cases a)
    have ok: "acceptable ip" using guard_vets Inr a by simp
    from Cons.prems Inr a ok show ?thesis
      by (auto simp: Let_def split: option.splits if_splits prod.splits dest!: Cons.IH)
  qed (use Cons.prems in auto)
qed simp

lemma hops_answer:
  "follow_hops guard net build_request hops url = (Inr resp, sent) \<Longrightarrow> sent \<noteq> [] \<and> \<not> is_redirection resp"
  by (induction hops arbitrary: url sent)
    (auto simp: Let_def split: option.splits if_splits prod.splits sum.splits)

lemma hops_start:
  "follow_hops guard net build_request hops url = (r, (u, h, a, q) # sent) \<Longrightarrow> u = url"
  by (cases hops) (auto simp: Let_def split: option.splits if_splits prod.splits sum.splits)

end

interpretation web: hop_guard "ssrf_guard net" public_ip for net
  by unfold_locales (rule ssrf_guard_public)

interpretation connector: hop_guard "\<lambda>n url. ssrf_guard_with_allowance_loopback net n url cidrs False"
    "\<lambda>ip. (public_ip ip \<or> pinned net cidrs ip) \<and> \<not> in_blocks NEVER_BLOCKS (canonical ip)" for net cidrs
  by unfold_locales (rule guard_with_allowance_vetted)

text \<open>
  Property C9: a web tool reaches public addresses only. Whatever DNS and the servers answer, at every hop,
  each request of the redirect follower is pinned to an address outside the blocked networks of both
  families, also when it stands for an IPv4 address inside an IPv6 one; there are at most six requests, the
  first for the given URL, and an answer is returned only when it is not a redirect.
\<close>

theorem web_requests_public:
  "case follow_redirects_with_guard net url build_request of
     (r, sent) \<Rightarrow>
       length sent \<le> 6 \<and>
       (\<forall>(u, h, (ip, port), req) \<in> set sent.
          \<not> in_blocks (BLOCKED_V4 @ BLOCKED_V6) ip \<and> \<not> in_blocks BLOCKED_V4 (canonical ip)) \<and>
       (sent \<noteq> [] \<longrightarrow> fst (hd sent) = url) \<and>
       (\<forall>resp. r = Inr resp \<longrightarrow> sent \<noteq> [] \<and> \<not> is_redirection resp)"
proof (cases "follow_redirects_with_guard net url build_request")
  case (Pair r sent)
  then have f: "follow_hops (ssrf_guard net) net build_request [0..<Suc MAX_REDIRECT_HOPS] url = (r, sent)"
    by (simp add: follow_redirects_with_guard_def)
  have "sent \<noteq> [] \<longrightarrow> fst (hd sent) = url"
    using f web.hops_start [of net net build_request "[0..<Suc MAX_REDIRECT_HOPS]" url r] by (cases sent) auto
  then show ?thesis
    using web.hops_vetted [OF f] web.hops_answer [of net net build_request "[0..<Suc MAX_REDIRECT_HOPS]" url] f
    unfolding Pair public_ip_def by (auto simp: MAX_REDIRECT_HOPS_def)
qed

text \<open>
  Property C10: a connector reaches what its manifest pins and nothing else that is private. Each request of
  the connector's redirect follower is pinned to an address that is public or in a block of the manifest's
  allowance, and never to link-local, IPv4 loopback or cloud metadata addresses, whatever the allowance
  says; the number of requests is bounded as for web tools.
\<close>

theorem connector_requests_pinned:
  "case follow_redirects_with_guard_allowance net url cidrs build_request of
     (r, sent) \<Rightarrow>
       length sent \<le> 6 \<and>
       (\<forall>(u, h, (ip, port), req) \<in> set sent.
          (check_ip ip = Inr () \<or> (\<exists>c\<in>set cidrs. cidr_contains (nt_parse_ip net) c ip)) \<and>
          \<not> in_blocks NEVER_BLOCKS (canonical ip)) \<and>
       (\<forall>resp. r = Inr resp \<longrightarrow> sent \<noteq> [] \<and> \<not> is_redirection resp)"
proof (cases "follow_redirects_with_guard_allowance net url cidrs build_request")
  case (Pair r sent)
  then have f: "follow_hops (\<lambda>n url. ssrf_guard_with_allowance_loopback net n url cidrs False) net build_request
      [0..<Suc MAX_REDIRECT_HOPS] url = (r, sent)"
    by (simp add: follow_redirects_with_guard_allowance_def follow_redirects_with_guard_allowance_loopback_def)
  then show ?thesis
    using connector.hops_vetted [OF f] connector.hops_answer [of net cidrs net build_request "[0..<Suc MAX_REDIRECT_HOPS]" url]
    unfolding Pair check_ip_public pinned_def by (auto simp: MAX_REDIRECT_HOPS_def)
qed

text \<open>
  A host that answers with a redirect to the metadata service: the first request goes to the host's address,
  the second is refused.
\<close>

definition sample_site :: ustr where "sample_site = lit ''site''"
definition sample_erp :: ustr where "sample_erp = lit ''erp''"
definition sample_evil :: ustr where "sample_evil = lit ''evil''"
definition sample_block :: ustr where "sample_block = lit ''10.0.0.0/8''"
definition sample_network :: ustr where "sample_network = lit ''10.0.0.0''"
definition sample_len :: ustr where "sample_len = lit ''8''"

definition sample_net :: "unit net" where
  "sample_net =
     \<lparr>nt_url_parse = (\<lambda>u. Some \<lparr>u_scheme = lit ''http'', u_host_str = Some u, u_port_or_known_default = Some 80\<rparr>),
      nt_join = (\<lambda>u l. Some l),
      nt_parse_ip = (\<lambda>h. if h = sample_network then Some (V4 10 0 0 0) else None),
      nt_lookup = (\<lambda>n a. Some [if a = lit ''erp:80'' then V4 10 1 2 3
                               else if a = lit ''site:80'' then V4 93 184 216 34 else V4 169 254 169 254]),
      nt_send = (\<lambda>n u a q. Some \<lparr>rs_status = 302, rs_location = Some sample_evil, rs_body = []\<rparr>)\<rparr>"

lemma sample_web:
  "follow_redirects_with_guard sample_net sample_site (\<lambda>_. ()) =
     (Inl (BlockedIp (V4 169 254 169 254)), [(sample_site, sample_site, (V4 93 184 216 34, 80), ())])"
  by code_simp

lemma sample_pin: "cidr_contains (nt_parse_ip sample_net) sample_block (V4 10 1 2 3)"
proof -
  have "split_once 47 sample_block = Some (sample_network, sample_len)" by code_simp
  moreover have "parse_u8 sample_len = Some 8" by (simp add: parse_u8_def sample_len_def digits_value_def)
  moreover have "trim sample_network = sample_network" by (simp add: trim_def is_whitespace_def sample_network_def)
  ultimately show ?thesis
    by (simp add: cidr_contains_def sample_net_def cidr_match_V4 in_cidr_8 del: cidr_match.simps)
qed

lemma sample_guard:
  "ssrf_guard_with_allowance_loopback sample_net 0 sample_erp [sample_block] False = Inr (V4 10 1 2 3, 80)"
  "ssrf_guard_with_allowance_loopback sample_net (Suc 0) sample_evil [sample_block] False =
     Inl (NotPublicNorPinned (V4 169 254 169 254))"
proof -
  have "resolve_host sample_net 0 sample_erp = Inr (sample_erp, 80, False, [V4 10 1 2 3])" by code_simp
  then show "ssrf_guard_with_allowance_loopback sample_net 0 sample_erp [sample_block] False = Inr (V4 10 1 2 3, 80)"
    by (simp add: ssrf_guard_with_allowance_loopback_def allowance_permits_inner_def sample_pin)
  have "resolve_host sample_net (Suc 0) sample_evil = Inr (sample_evil, 80, False, [V4 169 254 169 254])" by code_simp
  then show "ssrf_guard_with_allowance_loopback sample_net (Suc 0) sample_evil [sample_block] False =
     Inl (NotPublicNorPinned (V4 169 254 169 254))"
    by (simp add: ssrf_guard_with_allowance_loopback_def allowance_permits_inner_def)
qed

lemma sample_connector:
  "follow_redirects_with_guard_allowance sample_net sample_erp [sample_block] (\<lambda>_. ()) =
     (Inl (NotPublicNorPinned (V4 169 254 169 254)), [(sample_erp, sample_erp, (V4 10 1 2 3, 80), ())])"
proof -
  have net: "nt_url_parse sample_net u = Some \<lparr>u_scheme = lit ''http'', u_host_str = Some u, u_port_or_known_default = Some 80\<rparr>"
    "nt_join sample_net u l = Some l"
    "nt_send sample_net n u a q = Some \<lparr>rs_status = 302, rs_location = Some sample_evil, rs_body = []\<rparr>" for u l n a q
    by (simp_all add: sample_net_def)
  have hops: "[0..<Suc MAX_REDIRECT_HOPS] = 0 # Suc 0 # [2..<6]" by code_simp
  show ?thesis
    unfolding follow_redirects_with_guard_allowance_def follow_redirects_with_guard_allowance_loopback_def hops
    by (simp add: sample_guard net is_redirection_def MAX_REDIRECT_HOPS_def)
qed

theorem web_requests_public_witness:
  "follow_redirects_with_guard sample_net sample_site (\<lambda>_. ()) =
     (Inl (BlockedIp (V4 169 254 169 254)), [(sample_site, sample_site, (V4 93 184 216 34, 80), ())]) \<and>
   \<not> in_blocks (BLOCKED_V4 @ BLOCKED_V6) (V4 93 184 216 34)"
  using web_requests_public [where net = sample_net and url = sample_site and build_request = "\<lambda>_. ()"] by (simp add: sample_web)

theorem connector_requests_pinned_witness:
  "follow_redirects_with_guard_allowance sample_net sample_erp [sample_block] (\<lambda>_. ()) =
     (Inl (NotPublicNorPinned (V4 169 254 169 254)), [(sample_erp, sample_erp, (V4 10 1 2 3, 80), ())]) \<and>
   \<not> in_blocks NEVER_BLOCKS (V4 10 1 2 3)"
  using connector_requests_pinned [where net = sample_net and url = sample_erp and cidrs = "[sample_block]"
    and build_request = "\<lambda>_. ()"]
  by (simp add: sample_connector canonical_def)

text \<open>
  The address \<open>::1\<close> is an embedded IPv4 address for \<open>to_ipv4\<close>, namely 0.0.0.1, so the code's own test for the
  IPv6 loopback address is never reached: an allowance that pins it is honoured.
\<close>

lemma ipv6_loopback_allowable:
  "\<not> is_never_allowable (V6 1)"
  "allowance_permits_inner (\<lambda>_. Some (V6 1)) (V6 1) [lit ''::1''] False"
  by code_simp+

end
