(* ===== verification/Utf8.thy ===== *)
theory Utf8
  imports ToolTags
begin

text \<open>
  What the sources use of Rust's \<open>str\<close> as bytes: the UTF-8 form of a text, character boundaries, slices,
  \<open>String::from_utf8_lossy\<close> and \<open>str::lines\<close>. A slice that does not end at a character boundary panics,
  which is \<open>None\<close>. A HOL string that stands for a Rust string holds its UTF-8 bytes.
\<close>

section \<open>Bytes and characters\<close>

text \<open>The UTF-8 bytes of a text.\<close>

definition utf8_char :: "nat \<Rightarrow> nat list" where
  "utf8_char c =
     (if c < 128 then [c]
      else if c < 2048 then [192 + c div 64, 128 + c mod 64]
      else if c < 65536 then [224 + c div 4096, 128 + c div 64 mod 64, 128 + c mod 64]
      else [240 + c div 262144, 128 + c div 4096 mod 64, 128 + c div 64 mod 64, 128 + c mod 64])"

definition utf8 :: "ustr \<Rightarrow> nat list" where
  "utf8 s = concat (map utf8_char s)"

definition is_continuation :: "nat \<Rightarrow> bool" where
  "is_continuation b \<longleftrightarrow> 128 \<le> b \<and> b < 192"

definition is_char_boundary :: "nat list \<Rightarrow> nat \<Rightarrow> bool" where
  "is_char_boundary s i \<longleftrightarrow> i = 0 \<or> i = length s \<or> (i < length s \<and> \<not> is_continuation (s ! i))"

definition str_slice_to :: "nat list \<Rightarrow> nat \<Rightarrow> nat list option" where
  "str_slice_to s n = (if is_char_boundary s n then Some (take n s) else None)"

text \<open>
  \<open>from_utf8_lossy\<close>: a sequence that is cut off or ill-formed becomes one U+FFFD for its longest valid start.
\<close>

definition utf8_width :: "nat \<Rightarrow> nat" where
  "utf8_width b =
     (if b < 128 then 1 else if 194 \<le> b \<and> b < 224 then 2 else if 224 \<le> b \<and> b < 240 then 3
      else if 240 \<le> b \<and> b < 245 then 4 else 0)"

definition second_ok :: "nat \<Rightarrow> nat \<Rightarrow> bool" where
  "second_ok lead b \<longleftrightarrow>
     is_continuation b \<and> (lead = 224 \<longrightarrow> 160 \<le> b) \<and> (lead = 237 \<longrightarrow> b < 160) \<and>
     (lead = 240 \<longrightarrow> 144 \<le> b) \<and> (lead = 244 \<longrightarrow> b < 144)"

fun good_tail :: "nat \<Rightarrow> nat \<Rightarrow> nat list \<Rightarrow> nat list" where
  "good_tail lead 0 r = []"
| "good_tail lead n [] = []"
| "good_tail lead (Suc n) (b # r) = (if second_ok lead b then b # good_tail 0 n r else [])"

definition scalar_value :: "nat \<Rightarrow> nat list \<Rightarrow> nat" where
  "scalar_value lead conts =
     foldl (\<lambda>a b. a * 64 + b mod 64)
       (if length conts = 1 then lead mod 32 else if length conts = 2 then lead mod 16 else lead mod 8) conts"

definition REPLACEMENT :: nat where "REPLACEMENT = 65533"

function from_utf8_lossy :: "nat list \<Rightarrow> ustr" where
  "from_utf8_lossy [] = []"
| "from_utf8_lossy (b # r) =
     (if b < 128 then b # from_utf8_lossy r
      else (let conts = good_tail b (utf8_width b - 1) r
            in if utf8_width b \<noteq> 0 \<and> length conts = utf8_width b - 1
               then scalar_value b conts # from_utf8_lossy (drop (length conts) r)
               else REPLACEMENT # from_utf8_lossy (drop (length conts) r)))"
  by pat_completeness auto
termination by (relation "measure length") auto

text \<open>A HOL string as the text it encodes, and back.\<close>

definition text_of :: "string \<Rightarrow> ustr" where
  "text_of s = from_utf8_lossy (lit s)"

definition string_of :: "ustr \<Rightarrow> string" where
  "string_of t = map char_of (utf8 t)"

text \<open>\<open>str::lines\<close>.\<close>

fun split_lines :: "ustr \<Rightarrow> ustr \<Rightarrow> ustr list" where
  "split_lines cur [] = (if cur = [] then [] else [cur])"
| "split_lines cur (c # s) = (if c = 10 then cur # split_lines [] s else split_lines (cur @ [c]) s)"

definition strip_cr :: "ustr \<Rightarrow> ustr" where
  "strip_cr l = (if l \<noteq> [] \<and> last l = 13 then butlast l else l)"

definition str_lines :: "ustr \<Rightarrow> ustr list" where
  "str_lines s = map strip_cr (split_lines [] s)"

section \<open>Facts\<close>

lemma lossy_ascii: "list_all (\<lambda>b. b < 128) p \<Longrightarrow> from_utf8_lossy (p @ s) = p @ from_utf8_lossy s"
  by (induction p) auto

lemma utf8_append [simp]: "utf8 (s @ t) = utf8 s @ utf8 t"
  by (simp add: utf8_def)

lemma utf8_Nil [simp]: "utf8 [] = []"
  by (simp add: utf8_def)

lemma utf8_ascii: "list_all (\<lambda>b. b < 128) p \<Longrightarrow> utf8 p = p"
  by (induction p) (auto simp: utf8_def utf8_char_def)

definition scalar :: "nat \<Rightarrow> bool" where
  "scalar c \<longleftrightarrow> c < 55296 \<or> 57344 \<le> c \<and> c < 1114112"

lemma base64_digits:
  fixes c :: nat
  shows "c div 64 * 64 + c mod 64 = c" and "(c div 4096 * 64 + c div 64 mod 64) * 64 + c mod 64 = c"
    and "((c div 262144 * 64 + c div 4096 mod 64) * 64 + c div 64 mod 64) * 64 + c mod 64 = c"
proof -
  have a: "c div 64 * 64 + c mod 64 = c" for c :: nat by (rule div_mult_mod_eq)
  have b: "c div 4096 = c div 64 div 64" "c div 262144 = c div 4096 div 64" for c :: nat
    by (simp_all add: div_mult2_eq [symmetric])
  show "c div 64 * 64 + c mod 64 = c" by (rule a)
  show "(c div 4096 * 64 + c div 64 mod 64) * 64 + c mod 64 = c" by (simp only: b a)
  have "c div 262144 * 64 + c div 4096 mod 64 = c div 4096" using a [of "c div 4096"] by (simp only: b)
  then show "((c div 262144 * 64 + c div 4096 mod 64) * 64 + c div 64 mod 64) * 64 + c mod 64 = c"
    by (simp only: b a)
qed

lemma add_mod_multiple:
  fixes x :: nat
  assumes "m dvd k" and "x < m"
  shows "(k + x) mod m = x"
  using assms by (auto elim!: dvdE)

lemma lead_bits:
  fixes x :: nat
  shows "x < 32 \<Longrightarrow> (192 + x) mod 32 = x" and "x < 16 \<Longrightarrow> (224 + x) mod 16 = x"
    and "x < 8 \<Longrightarrow> (240 + x) mod 8 = x" and "(128 + y mod 64) mod 64 = y mod (64 :: nat)"
  by (rule add_mod_multiple; simp)+

lemma lossy_char:
  assumes "scalar c"
  shows "from_utf8_lossy (utf8_char c @ s) = c # from_utf8_lossy s"
proof -
  consider "c < 128" | "128 \<le> c" "c < 2048" | "2048 \<le> c" "c < 65536" | "65536 \<le> c" "c < 1114112"
    using assms unfolding scalar_def by linarith
  then show ?thesis
  proof cases
    case 1
    then show ?thesis by (simp add: utf8_char_def)
  next
    case 2
    define x where "x = c div 64"
    have "2 \<le> x" "x < 32" "\<not> c < 128" "c < 2048" using 2 by (auto simp: x_def)
    then show ?thesis
      using base64_digits(1) [of c] unfolding utf8_char_def x_def [symmetric]
      by (simp add: utf8_width_def second_ok_def is_continuation_def scalar_value_def Let_def lead_bits)
  next
    case 3
    define x y where "x = c div 4096" and "y = c div 64 mod 64"
    have x: "x < 16" using 3 by (auto simp: x_def)
    have q: "c div 64 = x * 64 + y"
      using div_mult_mod_eq [of "c div 64" 64] by (simp add: x_def y_def div_mult2_eq [symmetric])
    have "32 \<le> c div 64" using 3 by auto
    then have "x = 0 \<Longrightarrow> 32 \<le> y" using q by linarith
    moreover have "c div 64 < 864 \<or> 896 \<le> c div 64" using assms 3 by (auto simp: scalar_def)
    then have "x = 13 \<Longrightarrow> y < 32" using q mod_less_divisor [of 64 "c div 64"] y_def by linarith
    moreover have "\<not> c < 128" "\<not> c < 2048" "c < 65536" using 3 by auto
    moreover have "y < 64" by (simp add: y_def)
    ultimately show ?thesis
      using x base64_digits(2) [of c] unfolding utf8_char_def x_def [symmetric] y_def [symmetric]
      by (simp add: utf8_width_def second_ok_def is_continuation_def scalar_value_def Let_def lead_bits
          add_mod_multiple numeral_2_eq_2)
  next
    case 4
    define x y z where "x = c div 262144" and "y = c div 4096 mod 64" and "z = c div 64 mod 64"
    have x: "x < 5" using 4 by (auto simp: x_def)
    have q: "c div 4096 = x * 64 + y"
      using div_mult_mod_eq [of "c div 4096" 64] by (simp add: x_def y_def div_mult2_eq [symmetric])
    have r: "16 \<le> c div 4096" "c div 4096 < 272" using 4 by auto
    then have "x = 0 \<Longrightarrow> 16 \<le> y" using q by linarith
    moreover have "x = 4 \<Longrightarrow> y < 16" using q r by linarith
    moreover have "\<not> c < 128" "\<not> c < 2048" "\<not> c < 65536" using 4 by auto
    moreover have "y < 64" "z < 64" by (simp_all add: y_def z_def)
    ultimately show ?thesis
      using x base64_digits(3) [of c] unfolding utf8_char_def x_def [symmetric] y_def [symmetric] z_def [symmetric]
      by (simp add: utf8_width_def second_ok_def is_continuation_def scalar_value_def Let_def lead_bits
          add_mod_multiple numeral_3_eq_3)
  qed
qed

lemma lossy_utf8: "list_all scalar t \<Longrightarrow> from_utf8_lossy (utf8 t @ s) = t @ from_utf8_lossy s"
  by (induction t) (simp_all add: lossy_char utf8_def)

lemma text_of_string_of:
  assumes "list_all scalar t"
  shows "text_of (string_of t) = t"
proof -
  have "b < 256" if "b \<in> set (utf8 t)" for b
    using that assms by (auto simp: utf8_def utf8_char_def list_all_iff scalar_def split: if_splits)
  then have "lit (string_of t) = utf8 t"
    by (auto simp: string_of_def map_idI)
  then show ?thesis using lossy_utf8 [OF assms, of "[]"] by (simp add: text_of_def)
qed

end
