(* ===== verification/WebText.thy ===== *)
theory WebText
  imports SsrfGuard Utf8 "HOL-Library.Sublist"
begin

text \<open>
  The rest of \<open>crates/haily-tools/src/security.rs\<close> and what \<open>v1/web.rs\<close> makes of an answer: the plain text of a
  fetched page, the denied headers, the checks of paths and shell words, the percent encoding of a query, and
  the escalation of \<open>url_fetch\<close>. A page is the list of its UTF-8 bytes, since the code walks over bytes; a slice
  of a \<open>str\<close> that is not at a character boundary panics, which is \<open>None\<close> here.
\<close>

unbundle bit_operations_syntax

section \<open>Plain text of a page\<close>

definition HTML_MAX_INPUT_BYTES :: nat where "HTML_MAX_INPUT_BYTES = 1024 * 1024"

fun last_boundary :: "nat list \<Rightarrow> nat \<Rightarrow> nat" where
  "last_boundary s 0 = 0"
| "last_boundary s (Suc e) = (if is_char_boundary s (Suc e) then Suc e else last_boundary s e)"

definition cap_input :: "nat list \<Rightarrow> nat list" where
  "cap_input html =
     (if length html > HTML_MAX_INPUT_BYTES then take (last_boundary html HTML_MAX_INPUT_BYTES) html else html)"

record html_state =
  hs_out :: ustr
  hs_in_tag :: bool
  hs_in_script :: bool
  hs_last_was_space :: bool

text \<open>\<open>rest[1..n].eq_ignore_ascii_case(w)\<close>; the slice panics off a character boundary.\<close>

definition slice_is :: "nat list \<Rightarrow> nat \<Rightarrow> string \<Rightarrow> bool option" where
  "slice_is rest n w =
     (if is_char_boundary rest 1 \<and> is_char_boundary rest n
      then Some (eq_ignore_ascii_case (text_slice 1 n rest) (lit w)) else None)"

definition opens_script :: "nat list \<Rightarrow> bool option" where
  "opens_script rest =
     (if length rest > 7
      then do { s \<leftarrow> slice_is rest 7 ''script''; if s then Some True else slice_is rest 6 ''style'' }
      else Some False)"

definition ends_with :: "nat list \<Rightarrow> string \<Rightarrow> bool" where
  "ends_with s w \<longleftrightarrow> suffix (lit w) s"

definition html_byte :: "nat list \<Rightarrow> nat list \<Rightarrow> html_state \<Rightarrow> html_state option" where
  "html_byte behind rest st =
     (let b = hd rest in
      if b = LT then
        do { s \<leftarrow> opens_script rest;
             Some (st\<lparr>hs_in_tag := True, hs_in_script := hs_in_script st \<or> s\<rparr>) }
      else if b = GT then
        (let in_script = hs_in_script st \<and> \<not> (ends_with behind ''</script>'' \<or> ends_with behind ''</style>'');
             st1 = st\<lparr>hs_in_script := in_script, hs_in_tag := False\<rparr>
         in Some (if \<not> in_script then st1\<lparr>hs_out := hs_out st @ [32], hs_last_was_space := True\<rparr> else st1))
      else if hs_in_tag st \<or> hs_in_script st then Some st
      else if b = 10 \<or> b = 13 then
        Some (if \<not> hs_last_was_space st then st\<lparr>hs_out := hs_out st @ [10], hs_last_was_space := True\<rparr> else st)
      else Some (st\<lparr>hs_out := hs_out st @ [b], hs_last_was_space := (b = 32)\<rparr>))"

fun html_loop :: "nat list \<Rightarrow> nat list \<Rightarrow> html_state \<Rightarrow> html_state option" where
  "html_loop done [] st = Some st"
| "html_loop done (b # rest) st =
     do { st' \<leftarrow> html_byte (done @ [b]) (b # rest) st; html_loop (done @ [b]) rest st' }"

fun collapse :: "ustr list \<Rightarrow> u8 \<Rightarrow> ustr" where
  "collapse [] blank_count = []"
| "collapse (line # ls) blank_count =
     (let trimmed = trim line in
      if trimmed = []
      then (if blank_count + 1 \<le> 1 then [10] else []) @ collapse ls (blank_count + 1)
      else trimmed @ [10] @ collapse ls 0)"

definition html_to_text :: "nat list \<Rightarrow> ustr option" where
  "html_to_text page =
     do { st \<leftarrow> html_loop [] (cap_input page)
                 \<lparr>hs_out = [], hs_in_tag = False, hs_in_script = False, hs_last_was_space = False\<rparr>;
          Some (collapse (str_lines (hs_out st)) 0) }"

section \<open>Headers, words and paths\<close>

definition DENIED_HEADERS :: "string list" where
  "DENIED_HEADERS = [''host'', ''content-length'', ''transfer-encoding'', ''connection'']"

definition is_denied_header :: "ustr \<Rightarrow> bool" where
  "is_denied_header header_name \<longleftrightarrow>
     lower header_name \<in> lit ` set DENIED_HEADERS \<or> prefix (lit ''proxy-'') (lower header_name)"

text \<open>The headers of \<open>http_request\<close>: the first denied name is the error; values that are no strings are left out.\<close>

fun collect_headers :: "(ustr \<times> ustr option) list \<Rightarrow> ustr + (ustr \<times> ustr) list" where
  "collect_headers [] = Inr []"
| "collect_headers ((k, v) # obj) =
     (if is_denied_header k then Inl k
      else case collect_headers obj of
             Inl e \<Rightarrow> Inl e
           | Inr hs \<Rightarrow> Inr (case v of Some x \<Rightarrow> (k, x) # hs | None \<Rightarrow> hs))"

definition DANGEROUS :: "string" where
  "DANGEROUS = [CHR '';'', CHR ''&'', CHR ''|'', CHR 0x60, CHR ''$'', CHR ''('', CHR '')'', CHR ''{'', CHR ''}'',
     CHR ''<'', CHR ''>'', CHR ''!'', CHR ''#'', CHR 0x5C]"

definition shell_injection_guard :: "ustr \<Rightarrow> nat + unit" where
  "shell_injection_guard input =
     (case find (\<lambda>c. c \<in> set input) (lit DANGEROUS) of Some c \<Rightarrow> Inl c | None \<Rightarrow> Inr ())"

text \<open>The components of a Unix path, without empty ones and \<open>.\<close>.\<close>

fun split_on :: "nat \<Rightarrow> ustr \<Rightarrow> ustr \<Rightarrow> ustr list" where
  "split_on c cur [] = [cur]"
| "split_on c cur (x # s) = (if x = c then cur # split_on c [] s else split_on c (cur @ [x]) s)"

definition path_components :: "ustr \<Rightarrow> ustr list" where
  "path_components p = filter (\<lambda>c. c \<noteq> [] \<and> c \<noteq> lit ''.'') (split_on SLASH [] p)"

definition is_absolute :: "ustr \<Rightarrow> bool" where
  "is_absolute p = starts_with SLASH p"

definition validate_rel_path :: "ustr \<Rightarrow> bool" where
  "validate_rel_path rel_path \<longleftrightarrow> \<not> (is_absolute rel_path \<or> lit ''..'' \<in> set (path_components rel_path))"

section \<open>Query encoding\<close>

definition unreserved :: "nat \<Rightarrow> bool" where
  "unreserved b \<longleftrightarrow> 65 \<le> b \<and> b \<le> 90 \<or> 97 \<le> b \<and> b \<le> 122 \<or> 48 \<le> b \<and> b \<le> 57 \<or> b \<in> {45, 95, 46, 126}"

definition hex_digit :: "nat \<Rightarrow> nat" where
  "hex_digit d = (if d < 10 then 48 + d else 55 + d)"

definition urlencoding_query :: "nat list \<Rightarrow> ustr" where
  "urlencoding_query s =
     concat (map (\<lambda>b. if unreserved b then [b] else [37, hex_digit (b div 16), hex_digit (b mod 16)]) s)"

section \<open>Escalation of a fetch\<close>

definition BLOCK_CODES :: "string list" where
  "BLOCK_CODES = [''HTTP 403'', ''HTTP 429'', ''HTTP 503'']"

definition CHALLENGE_KEYWORDS :: "string list" where
  "CHALLENGE_KEYWORDS =
     [''checking your browser'', ''enable javascript and cookies'', ''cloudflare'', ''ddos-guard'',
      ''are you a human'', ''verifying you are human'', ''please wait while we verify'', ''robot check'',
      ''security check'']"

definition HUMAN_REQUIRED_KEYWORDS :: "string list" where
  "HUMAN_REQUIRED_KEYWORDS =
     [''captcha'', ''recaptcha'', ''hcaptcha'', ''turnstile'', ''log in to continue'', ''sign in to see'',
      ''please log in'', ''login required'', ''verify your identity'']"

definition contains :: "ustr \<Rightarrow> string \<Rightarrow> bool" where
  "contains s w \<longleftrightarrow> sublist (lit w) s"

datatype Escalation = FetchDone | Browser | AwaitingUser

text \<open>\<open>to_lowercase\<close> over all of Unicode is the argument \<open>low\<close>.\<close>

definition detect_bot_signal :: "(ustr \<Rightarrow> ustr) \<Rightarrow> ustr \<Rightarrow> bool" where
  "detect_bot_signal low s \<longleftrightarrow>
     list_ex (contains s) BLOCK_CODES \<or> list_ex (contains (low s)) CHALLENGE_KEYWORDS"

definition detect_human_required :: "(ustr \<Rightarrow> ustr) \<Rightarrow> ustr \<Rightarrow> bool" where
  "detect_human_required low rendered \<longleftrightarrow> list_ex (contains (low rendered)) HUMAN_REQUIRED_KEYWORDS"

definition after_plain :: "(ustr \<Rightarrow> ustr) \<Rightarrow> ustr \<Rightarrow> Escalation" where
  "after_plain low check = (if detect_bot_signal low check then Browser else FetchDone)"

definition after_browser :: "(ustr \<Rightarrow> ustr) \<Rightarrow> ustr \<Rightarrow> Escalation" where
  "after_browser low rendered = (if detect_human_required low rendered then AwaitingUser else FetchDone)"

text \<open>\<open>plain_fetch\<close> on an answer: whether the content type names HTML, and the text of the body.\<close>

definition plain_text :: "nat \<Rightarrow> bool \<Rightarrow> ustr \<Rightarrow> ustr option" where
  "plain_text max_chars is_html body =
     map_option (take max_chars) (if is_html then html_to_text (utf8 body) else Some body)"

datatype fetch_result = FetchErr ustr | FetchText ustr | FetchAwaiting bool | FetchPanic

text \<open>\<open>escalate_fetch\<close> with and without the browser: \<open>browser\<close> is the page it renders, if there is one.\<close>

fun escalate_fetch :: "(ustr \<Rightarrow> ustr) \<Rightarrow> (ustr + ustr) option \<Rightarrow> fetch_result" where
  "escalate_fetch low None = FetchAwaiting False"
| "escalate_fetch low (Some (Inl e)) = FetchErr e"
| "escalate_fetch low (Some (Inr rendered)) =
     (if after_browser low rendered = AwaitingUser then FetchAwaiting True else FetchText rendered)"

text \<open>\<open>UrlFetchTool::execute\<close>: \<open>fetched\<close> is the error of the plain fetch, or the answer.\<close>

definition url_fetch :: "(ustr \<Rightarrow> ustr) \<Rightarrow> (ustr + ustr) option \<Rightarrow> nat \<Rightarrow>
    ustr + (nat \<times> bool \<times> ustr) \<Rightarrow> fetch_result" where
  "url_fetch low browser max_chars fetched =
     (case fetched of
        Inl e \<Rightarrow> if detect_bot_signal low e then escalate_fetch low browser else FetchErr e
      | Inr (status, is_html, body) \<Rightarrow>
          (case plain_text max_chars is_html body of
             None \<Rightarrow> FetchPanic
           | Some t \<Rightarrow>
               (let check = (if status \<in> {403, 429, 503} then lit ''HTTP '' @ lit (nat_text status) @ [32] @ t else t)
                in case after_plain low check of
                     FetchDone \<Rightarrow> FetchText t
                   | Browser \<Rightarrow> escalate_fetch low browser
                   | AwaitingUser \<Rightarrow> FetchAwaiting False)))"

section \<open>The text of a page\<close>

definition plain :: "ustr \<Rightarrow> bool" where
  "plain s \<longleftrightarrow> LT \<notin> set s \<and> GT \<notin> set s"

lemma html_byte_plain: "html_byte behind (b # rest) st = Some st' \<Longrightarrow> plain (hs_out st) \<Longrightarrow> plain (hs_out st')"
  by (auto simp: html_byte_def plain_def LT_def GT_def Let_def split: if_splits bind_splits)

lemma html_loop_plain: "html_loop d s st = Some st' \<Longrightarrow> plain (hs_out st) \<Longrightarrow> plain (hs_out st')"
  by (induction d s st rule: html_loop.induct) (auto split: bind_splits dest: html_byte_plain)

lemma set_trim: "set (trim s) \<subseteq> set s"
  unfolding trim_def by (auto dest!: set_dropWhileD)

lemma set_split_lines: "l \<in> set (split_lines cur s) \<Longrightarrow> set l \<subseteq> set cur \<union> set s"
  by (induction cur s rule: split_lines.induct) (fastforce split: if_splits)+

lemma set_str_lines: "l \<in> set (str_lines s) \<Longrightarrow> set l \<subseteq> set s"
  by (fastforce simp: str_lines_def strip_cr_def split: if_splits dest: set_split_lines in_set_butlastD)

lemma set_collapse: "set (collapse ls n) \<subseteq> insert 10 (\<Union>l\<in>set ls. set l)"
  by (induction ls n rule: collapse.induct) (use set_trim in \<open>fastforce simp: Let_def split: if_splits\<close>)+

lemma html_to_text_plain: "html_to_text page = Some out \<Longrightarrow> plain out"
proof -
  assume "html_to_text page = Some out"
  then obtain st where loop: "html_loop [] (cap_input page)
      \<lparr>hs_out = [], hs_in_tag = False, hs_in_script = False, hs_last_was_space = False\<rparr> = Some st"
    and out: "out = collapse (str_lines (hs_out st)) 0"
    by (auto simp: html_to_text_def split: bind_splits)
  have "plain (hs_out st)" using html_loop_plain [OF loop] by (simp add: plain_def)
  moreover have "set out \<subseteq> insert 10 (set (hs_out st))"
    unfolding out using set_collapse [of "str_lines (hs_out st)" 0] set_str_lines by fastforce
  ultimately show ?thesis by (auto simp: plain_def LT_def GT_def)
qed

lemma plain_tag_free: "plain s \<Longrightarrow> tag_free s"
  by (force simp: tag_free_grammar plain_def tag_text_def)

lemma ascii_boundary: "list_all (\<lambda>b. b < 128) s \<Longrightarrow> i \<le> length s \<Longrightarrow> is_char_boundary s i"
  by (auto simp: is_char_boundary_def is_continuation_def list_all_length) (metis leD le_neq_implies_less)

lemma html_loop_ascii: "list_all (\<lambda>b. b < 128) s \<Longrightarrow> html_loop d s st \<noteq> None"
proof (induction d s st rule: html_loop.induct)
  case (2 d b rest st)
  have "opens_script (b # rest) \<noteq> None"
    using ascii_boundary [OF 2(2)] by (auto simp: opens_script_def slice_is_def)
  then have "html_byte (d @ [b]) (b # rest) st \<noteq> None"
    by (auto simp: html_byte_def Let_def)
  with 2 show ?case by auto
qed simp

lemma take_ascii: "list_all (\<lambda>b. b < 128) s \<Longrightarrow> list_all (\<lambda>b. b < 128) (cap_input s)"
  by (auto simp: cap_input_def list_all_iff dest: in_set_takeD)


definition sample_page :: ustr where
  "sample_page = lit ''<p>Hi <tool_call> </p>there''"

definition sample_text :: ustr where
  "sample_text = lit ''Hi    there'' @ [10]"

lemma sample_page_text: "plain_text 100 True sample_page = Some sample_text"
  by (simp add: sample_page_def sample_text_def plain_text_def utf8_def utf8_char_def html_to_text_def cap_input_def
      HTML_MAX_INPUT_BYTES_def html_byte_def LT_def GT_def opens_script_def slice_is_def is_char_boundary_def
      is_continuation_def text_slice_def eq_ignore_ascii_case_def to_ascii_lowercase_def
      str_lines_def strip_cr_def trim_def is_whitespace_def)


text \<open>
  The two slices of the search for a script tag are taken seven and six bytes after any opening bracket,
  whether or not a character ends there: a page with a Vietnamese word right after a short tag panics.
\<close>

definition vietnamese_page :: ustr where
  "vietnamese_page = lit ''<p>Ti'' @ [7871] @ lit ''ng</p>''"

lemma html_panics: "html_to_text (utf8 vietnamese_page) = None"
  by (simp add: vietnamese_page_def utf8_def utf8_char_def html_to_text_def cap_input_def HTML_MAX_INPUT_BYTES_def
      html_byte_def LT_def opens_script_def slice_is_def is_char_boundary_def is_continuation_def)

text \<open>Each byte of the page becomes a character of its own, so text beyond ASCII is garbled.\<close>

lemma html_garbles: "html_to_text (utf8 [7871]) = Some [225, 186, 191, 10]"
  by (simp add: utf8_def utf8_char_def html_to_text_def cap_input_def HTML_MAX_INPUT_BYTES_def html_byte_def LT_def
      GT_def str_lines_def strip_cr_def trim_def is_whitespace_def)

section \<open>Headers and paths\<close>

lemma collected_headers_allowed: "collect_headers obj = Inr hs \<Longrightarrow> (k, v) \<in> set hs \<Longrightarrow> \<not> is_denied_header k"
  by (induction obj arbitrary: hs rule: collect_headers.induct) (auto split: if_splits sum.splits option.splits)

lemma denied_any_case: "lower k = lower k' \<Longrightarrow> is_denied_header k = is_denied_header k'"
  by (simp add: is_denied_header_def)

text \<open>Where a path leads from a directory, without regard to links.\<close>

fun walk :: "ustr list \<Rightarrow> ustr list \<Rightarrow> ustr list" where
  "walk dir [] = dir"
| "walk dir (c # cs) = walk (if c = lit ''..'' then butlast dir else dir @ [c]) cs"

lemma walk_down: "lit ''..'' \<notin> set cs \<Longrightarrow> walk dir cs = dir @ cs"
  by (induction cs arbitrary: dir) auto

lemma valid_path_stays_inside:
  "validate_rel_path p \<Longrightarrow> \<not> is_absolute p \<and> prefix root (walk root (path_components p))"
  by (simp add: validate_rel_path_def walk_down)

section \<open>Query encoding\<close>

definition hex_value :: "nat \<Rightarrow> nat" where
  "hex_value c = (if c < 58 then c - 48 else c - 55)"

fun pct_decode :: "ustr \<Rightarrow> nat list" where
  "pct_decode (c # s) =
     (if c = 37 then (case s of a # b # r \<Rightarrow> (hex_value a * 16 + hex_value b) # pct_decode r | _ \<Rightarrow> [])
      else c # pct_decode s)"
| "pct_decode [] = []"

lemma hex_roundtrip: "d < 16 \<Longrightarrow> hex_value (hex_digit d) = d"
  by (simp add: hex_value_def hex_digit_def)

lemma query_roundtrip: "(\<forall>b\<in>set s. b < 256) \<Longrightarrow> pct_decode (urlencoding_query s) = s"
proof (induction s)
  case (Cons b s)
  have enc: "urlencoding_query (b # s) =
      (if unreserved b then [b] else [37, hex_digit (b div 16), hex_digit (b mod 16)]) @ urlencoding_query s"
    by (simp add: urlencoding_query_def)
  from Cons show ?case unfolding enc by (auto simp: hex_roundtrip unreserved_def)
qed (simp add: urlencoding_query_def)

lemma hex_unreserved: "d < 16 \<Longrightarrow> unreserved (hex_digit d)"
  by (cases "d < 10") (simp_all add: unreserved_def hex_digit_def)

lemma query_characters: "(\<forall>b\<in>set s. b < 256) \<Longrightarrow> c \<in> set (urlencoding_query s) \<Longrightarrow> unreserved c \<or> c = 37"
  by (auto simp: urlencoding_query_def hex_unreserved div_less_iff_less_mult split: if_splits)

end
