(* ===== verification/ConnectorData.thy ===== *)
theory ConnectorData
  imports RunEvents Json
begin

text \<open>
  What a connector does to data before it is recorded or compared: the redaction of credentials
  (\<open>crates/haily-tools/src/connector/redact.rs\<close>) and the comparison of a record that was read back with what was
  sent (\<open>connector/readback_diff.rs\<close>). The stripping of tool tags in \<open>redact.rs\<close> is the same text as the one of
  \<open>run_event.rs\<close> and is modelled there. Rounding a decimal to the nearest double is the argument \<open>rnd\<close>.
\<close>

section \<open>Redaction\<close>

definition lower_text :: "string \<Rightarrow> string" where
  "lower_text s = map (\<lambda>c. char_of (to_ascii_lowercase (of_char c))) s"

definition SECRET_KEYS :: "string list" where
  "SECRET_KEYS = [''api_key'', ''apikey'', ''password'', ''passwd'', ''key'', ''secret'', ''token'',
     ''authorization'', ''cookie'', ''set-cookie'']"

definition is_secret_key :: "string \<Rightarrow> bool" where
  "is_secret_key key = list_ex (\<lambda>s. lower_text key = s) SECRET_KEYS"

definition marker :: "string \<Rightarrow> string" where
  "marker cred_ref = ''<redacted:'' @ cred_ref @ ''>''"

fun redact_secrets :: "string \<Rightarrow> json \<Rightarrow> json" where
  "redact_secrets cred_ref (JObj flds) =
     JObj (map (\<lambda>(k, v). (k, if is_secret_key k then JStr (marker cred_ref) else redact_secrets cred_ref v)) flds)"
| "redact_secrets cred_ref (JArr vs) = JArr (map (redact_secrets cred_ref) vs)"
| "redact_secrets cred_ref v = v"

function replace_all :: "string \<Rightarrow> string \<Rightarrow> string \<Rightarrow> string" where
  "replace_all needle by_text [] = []"
| "replace_all needle by_text (c # s) =
     (if needle \<noteq> [] \<and> prefix needle (c # s)
      then by_text @ replace_all needle by_text (drop (length needle) (c # s))
      else c # replace_all needle by_text s)"
  by pat_completeness auto
termination by (relation "measure (\<lambda>(n, b, s). length s)") auto

definition SECRET_MARK :: string where "SECRET_MARK = ''<redacted-secret>''"

definition redact_secret_value :: "string \<Rightarrow> string option \<Rightarrow> string" where
  "redact_secret_value txt secret =
     (case secret of Some s \<Rightarrow> (if s \<noteq> [] then replace_all s SECRET_MARK txt else txt) | None \<Rightarrow> txt)"

definition sanitize_third_party_body :: "string \<Rightarrow> string option \<Rightarrow> string" where
  "sanitize_third_party_body txt secret = strip_text (redact_secret_value txt secret)"

section \<open>Numbers in texts\<close>

definition digit :: "char \<Rightarrow> bool" where
  "digit c \<longleftrightarrow> 48 \<le> (of_char c :: nat) \<and> (of_char c :: nat) \<le> 57"

definition decimal :: "string \<Rightarrow> int" where
  "decimal s = foldl (\<lambda>n c. n * 10 + (of_char c - 48)) 0 s"

definition split_sign :: "string \<Rightarrow> int \<times> string" where
  "split_sign s = (case s of c # r \<Rightarrow> (if c = CHR ''-'' then (-1, r) else if c = CHR ''+'' then (1, r) else (1, s)) | [] \<Rightarrow> (1, []))"

text \<open>\<open>str::parse::<i64>\<close>.\<close>

definition parse_i64 :: "string \<Rightarrow> int option" where
  "parse_i64 s =
     (let (sg, ds) = split_sign s; n = sg * decimal ds
      in if ds \<noteq> [] \<and> list_all digit ds \<and> - (2 ^ 63) \<le> n \<and> n < 2 ^ 63 then Some n else None)"

text \<open>\<open>str::parse::<f64>\<close>: an infinity or a NaN by name, or a decimal with optional fraction and exponent.\<close>

definition parse_exponent :: "string \<Rightarrow> int option" where
  "parse_exponent s =
     (case s of
        [] \<Rightarrow> Some 0
      | c # r \<Rightarrow>
          if c = CHR ''e'' \<or> c = CHR ''E''
          then (let (sg, ds) = split_sign r in if ds \<noteq> [] \<and> list_all digit ds then Some (sg * decimal ds) else None)
          else None)"

definition parse_f64 :: "(int \<Rightarrow> int \<Rightarrow> f64) \<Rightarrow> string \<Rightarrow> f64 option" where
  "parse_f64 rnd s =
     (let (sg, body) = split_sign s
      in if lower_text body \<in> {''inf'', ''infinity''} then Some (Inf (sg < 0))
         else if lower_text body = ''nan'' then Some NaN
         else
           (let whole = takeWhile digit body; r1 = dropWhile digit body;
                (frac, r2) = (case r1 of
                    c # r \<Rightarrow> (if c = CHR ''.'' then (takeWhile digit r, dropWhile digit r) else ([], r1))
                  | [] \<Rightarrow> ([], []))
            in if whole @ frac = [] then None
               else map_option (\<lambda>e. rnd (sg * decimal (whole @ frac)) (e - int (length frac))) (parse_exponent r2)))"

fun feq :: "f64 \<Rightarrow> f64 \<Rightarrow> bool" where
  "feq NaN y = False"
| "feq x NaN = False"
| "feq x y = (x = y)"

fun as_f64 :: "(int \<Rightarrow> int \<Rightarrow> f64) \<Rightarrow> json \<Rightarrow> f64 option" where
  "as_f64 rnd (JNum n) = Some (rnd n 0)"
| "as_f64 rnd (JFloat x) = Some x"
| "as_f64 rnd _ = None"

definition as_number :: "(int \<Rightarrow> int \<Rightarrow> f64) \<Rightarrow> json \<Rightarrow> f64 option" where
  "as_number rnd v = (case as_f64 rnd v of Some x \<Rightarrow> Some x | None \<Rightarrow> Option.bind (as_str v) (parse_f64 rnd))"

section \<open>Comparing what was sent with what is read\<close>

definition is_unset :: "json \<Rightarrow> bool" where
  "is_unset v \<longleftrightarrow> v = JNull \<or> v = JBool False \<or> as_str v = Some ''''"

fun many2one_id :: "json \<Rightarrow> int option" where
  "many2one_id (JArr [x, JStr _]) = as_i64 x"
| "many2one_id _ = None"

definition scalar_id :: "json \<Rightarrow> int option" where
  "scalar_id v = (case as_i64 v of Some n \<Rightarrow> Some n | None \<Rightarrow> Option.bind (as_str v) parse_i64)"

fun all_some :: "'a option list \<Rightarrow> 'a list option" where
  "all_some [] = Some []"
| "all_some (x # xs) = (case x of None \<Rightarrow> None | Some a \<Rightarrow> map_option ((#) a) (all_some xs))"

definition id_list :: "json \<Rightarrow> int list option" where
  "id_list v = Option.bind (as_array v) (\<lambda>arr. all_some (map as_i64 arr))"

definition command_target_ids :: "json \<Rightarrow> int list option" where
  "command_target_ids sent =
     (case as_array sent of
        None \<Rightarrow> None
      | Some arr \<Rightarrow>
          (case id_list sent of
             Some ids \<Rightarrow> Some ids
           | None \<Rightarrow>
               (case arr of
                  [JArr [code, _, ids]] \<Rightarrow> if as_i64 code = Some 6 then id_list ids else None
                | _ \<Rightarrow> None)))"

definition values_equivalent :: "(int \<Rightarrow> int \<Rightarrow> f64) \<Rightarrow> json \<Rightarrow> json \<Rightarrow> bool" where
  "values_equivalent rnd sent read =
     (if is_unset sent \<and> is_unset read then True
      else case (many2one_id read, scalar_id sent) of
        (Some read_id, Some sent_id) \<Rightarrow> read_id = sent_id
      | _ \<Rightarrow>
          (case id_list read of
             Some read_ids \<Rightarrow>
               (case command_target_ids sent of Some sent_ids \<Rightarrow> set read_ids = set sent_ids | None \<Rightarrow> True)
           | None \<Rightarrow>
               (case (as_number rnd sent, as_number rnd read) of
                  (Some a, Some b) \<Rightarrow> feq a b
                | _ \<Rightarrow> sent = read)))"

definition field_matches :: "(int \<Rightarrow> int \<Rightarrow> f64) \<Rightarrow> json \<Rightarrow> json option \<Rightarrow> bool" where
  "field_matches rnd sent read =
     (case read of None \<Rightarrow> is_unset sent | Some v \<Rightarrow> values_equivalent rnd sent v)"

definition request_fields_match :: "(int \<Rightarrow> int \<Rightarrow> f64) \<Rightarrow> json \<Rightarrow> json \<Rightarrow> bool" where
  "request_fields_match rnd expected body =
     (case as_object expected of
        None \<Rightarrow> True
      | Some flds \<Rightarrow>
          list_all (\<lambda>(field, sent).
            (case as_str sent of Some s \<Rightarrow> prefix ''<redacted:'' s | None \<Rightarrow> False) \<or>
            field_matches rnd sent (jget body field)) flds)"

section \<open>What redaction hides\<close>

text \<open>Two values that differ at most in what is stored under secret keys.\<close>

fun agree :: "json \<Rightarrow> json \<Rightarrow> bool" where
  "agree (JObj flds) (JObj flds') \<longleftrightarrow>
     map fst flds = map fst flds' \<and>
     list_all2 (\<lambda>(k, v) (k', v'). is_secret_key k \<or> agree v v') flds flds'"
| "agree (JArr vs) (JArr vs') \<longleftrightarrow> list_all2 agree vs vs'"
| "agree v v' \<longleftrightarrow> v = v'"

lemma agree_refl: "agree v v"
proof (induction v)
  case (JArr vs)
  then show ?case by (simp add: list_all2_same)
next
  case (JObj flds)
  then have "is_secret_key k \<or> agree v v" if "(k, v) \<in> set flds" for k v
    using that by (metis prod_set_simps(2) singletonI snd_conv snds.intros)
  then show ?case by (auto simp: list_all2_same)
qed simp_all

lemma redact_agree: "agree v w \<Longrightarrow> redact_secrets c v = redact_secrets c w"
proof (induction v w rule: agree.induct)
  case (1 flds flds')
  then have keys: "map fst flds = map fst flds'" by simp
  then have len: "length flds = length flds'" by (metis length_map)
  show ?case
    unfolding redact_secrets.simps json.inject
  proof (rule nth_equalityI)
    fix i assume i: "i < length (map (\<lambda>(k, v). (k, if is_secret_key k then JStr (marker c) else redact_secrets c v)) flds)"
    obtain k v k' v' where f: "flds ! i = (k, v)" "flds' ! i = (k', v')" by (metis surj_pair)
    have "k = k'" using keys f i len by (metis fst_conv length_map nth_map)
    moreover have "is_secret_key k \<or> agree v v'"
      using 1(2) f i len by (auto simp: list_all2_conv_all_nth)
    moreover have "(k, v) \<in> set flds" "(k', v') \<in> set flds'" using f i len by (metis length_map nth_mem)+
    ultimately show "map (\<lambda>(k, v). (k, if is_secret_key k then JStr (marker c) else redact_secrets c v)) flds ! i =
        map (\<lambda>(k, v). (k, if is_secret_key k then JStr (marker c) else redact_secrets c v)) flds' ! i"
      using f i len 1(1) by auto
  qed (simp add: len)
next
  case (2 vs vs')
  then show ?case by (auto simp: list_all2_conv_all_nth intro!: nth_equalityI)
qed auto

lemma agree_redact: "agree v (redact_secrets c v)"
proof (induction v)
  case (JArr vs)
  then show ?case by (simp add: list_all2_conv_all_nth)
next
  case (JObj flds)
  then have "is_secret_key k \<or> agree v (redact_secrets c v)" if "(k, v) \<in> set flds" for k v
    using that by (metis prod_set_simps(2) singletonI snd_conv snds.intros)
  then show ?case by (fastforce simp: list_all2_conv_all_nth split: prod.splits dest: nth_mem)
qed simp_all

text \<open>
  Property C28: what is stored under a secret key does not influence what is journaled. Parameters that
  differ at most below keys for credentials, at any depth, have the same redacted form, and redaction changes
  nothing else.
\<close>

theorem redaction_hides_secrets:
  "(agree params params' \<longrightarrow> redact_secrets cred_ref params = redact_secrets cred_ref params') \<and>
   agree params (redact_secrets cred_ref params)"
  by (simp add: redact_agree agree_redact)

definition sample_params :: "string \<Rightarrow> json" where
  "sample_params secret =
     JObj [(''name'', JStr ''An''), (''auth'', JArr [JObj [(''API_Key'', JStr secret)]]), (''token'', JStr secret)]"

lemma sample_keys: "is_secret_key ''API_Key''" "is_secret_key ''token''"
  by code_simp+

theorem redaction_hides_secrets_witness:
  "redact_secrets ''c'' (sample_params ''hunter2'') = redact_secrets ''c'' (sample_params ''other'') \<and>
   sample_params ''hunter2'' \<noteq> sample_params ''other''"
proof -
  have "agree (sample_params ''hunter2'') (sample_params ''other'')"
    using sample_keys by (simp add: sample_params_def)
  then show ?thesis
    using redaction_hides_secrets [of "sample_params ''hunter2''" "sample_params ''other''" "''c''"]
    by (simp add: sample_params_def)
qed

section \<open>Scrubbing the resolved secret\<close>

lemma prefix_through_marks:
  "hd m \<notin> set p \<Longrightarrow> m \<noteq> [] \<Longrightarrow> prefix p (replace_all n m t) \<Longrightarrow> prefix p t"
proof (induction n m t arbitrary: p rule: replace_all.induct)
  case (2 n m c s)
  show ?case
  proof (cases "n \<noteq> [] \<and> prefix n (c # s)")
    case True
    with 2(5) have "prefix p (m @ replace_all n m (drop (length n) (c # s)))" by simp
    with 2(3,4) have "p = []" by (cases p; cases m) auto
    then show ?thesis by simp
  next
    case False
    with 2 show ?thesis by (cases p) auto
  qed
qed simp

text \<open>
  A secret without angle brackets that is not part of the mark occurs nowhere in the scrubbed text.
\<close>

lemma secret_scrubbed:
  assumes "s \<noteq> []" and "CHR ''<'' \<notin> set s" and "CHR ''>'' \<notin> set s" and "\<not> sublist s SECRET_MARK"
  shows "\<not> sublist s (redact_secret_value t (Some s))"
proof -
  have "\<not> sublist s (replace_all s SECRET_MARK t)"
  proof (induction t rule: length_induct)
    case (1 t)
    show ?case
    proof (cases t)
      case (Cons c r)
      show ?thesis
      proof (cases "prefix s t")
        case True
        let ?rest = "replace_all s SECRET_MARK (drop (length s) t)"
        have "\<not> sublist s ?rest" using 1 assms(1) Cons by simp
        moreover have "\<not> (\<exists>x y. s = x @ y \<and> suffix x SECRET_MARK \<and> prefix y ?rest)"
        proof (intro notI, elim exE conjE)
          fix x y assume s: "s = x @ y" and x: "suffix x SECRET_MARK" and y: "prefix y ?rest"
          from x have "x = [] \<or> last x = CHR ''>''" by (auto simp: suffix_def SECRET_MARK_def) (metis last.simps last_append list.distinct(1))
          then show False
            using assms(3) s y \<open>\<not> sublist s ?rest\<close> last_in_set [of x] by (cases "x = []") auto
        qed
        ultimately show ?thesis using True assms(1,4) Cons by (simp add: sublist_append)
      next
        case False
        have "\<not> prefix s (replace_all s SECRET_MARK t)"
          using prefix_through_marks [of SECRET_MARK s s t] assms(2) False by (auto simp: SECRET_MARK_def)
        moreover have "\<not> sublist s (replace_all s SECRET_MARK r)" using 1 Cons by simp
        ultimately show ?thesis using False Cons by (simp add: sublist_Cons_right)
      qed
    qed (use assms(1) in simp)
  qed
  then show ?thesis using assms(1) by (simp add: redact_secret_value_def)
qed

text \<open>
  The scrub runs before the tags are stripped, so a tag inside the secret hides the secret from the scrub and
  its removal joins the halves.
\<close>

lemma secret_reassembles:
  "sanitize_third_party_body ''key=hun<tool_call>ter2'' (Some ''hunter2'') = ''key=hunter2''"
proof -
  have "redact_secret_value ''key=hun<tool_call>ter2'' (Some ''hunter2'') = ''key=hun<tool_call>ter2''"
    by (simp add: redact_secret_value_def)
  moreover have "strip_text ''key=hun<tool_call>ter2'' = ''key=hunter2''"
    by code_simp
  ultimately show ?thesis by (simp only: sanitize_third_party_body_def)
qed

section \<open>What a read-back accepts\<close>

text \<open>The forms in which the server may show a value that it stored as sent.\<close>

inductive represents :: "json \<Rightarrow> json \<Rightarrow> bool" where
  same: "represents v v"
| unset: "is_unset v \<Longrightarrow> is_unset w \<Longrightarrow> represents v w"
| many2one: "scalar_id v = Some i \<Longrightarrow> as_i64 x = Some i \<Longrightarrow> represents v (JArr [x, JStr name])"
| id_set: "command_target_ids v = Some ids \<Longrightarrow> id_list w = Some read_ids \<Longrightarrow> set ids = set read_ids \<Longrightarrow> represents v w"

lemma id_list_command: "id_list v = Some ids \<Longrightarrow> command_target_ids v = Some ids"
  by (auto simp: command_target_ids_def id_list_def split: option.splits bind_splits)

lemma id_list_not_many2one: "id_list w = Some ids \<Longrightarrow> many2one_id w = None"
  by (cases w rule: many2one_id.cases) (auto simp: id_list_def split: option.splits)

lemma many2one_not_unset: "many2one_id w = Some i \<Longrightarrow> \<not> is_unset w \<and> scalar_id w = None"
  by (cases w rule: many2one_id.cases) (auto simp: is_unset_def scalar_id_def)

lemma feq_refl: "x \<noteq> NaN \<Longrightarrow> feq x x"
  by (cases x) auto

lemma equivalent_refl: "as_number rnd v \<noteq> Some NaN \<Longrightarrow> values_equivalent rnd v v"
  by (auto simp: values_equivalent_def feq_refl dest: id_list_command many2one_not_unset split: option.splits)

lemma equivalent_represents:
  "represents v w \<Longrightarrow> as_number rnd v \<noteq> Some NaN \<Longrightarrow> values_equivalent rnd v w"
proof (induction rule: represents.induct)
  case (same v)
  then show ?case by (rule equivalent_refl)
next
  case (unset v w)
  then show ?case by (simp add: values_equivalent_def)
next
  case (many2one v i x name)
  then show ?case by (simp add: values_equivalent_def)
next
  case (id_set v ids w read_ids)
  then show ?case by (auto simp: values_equivalent_def id_list_not_many2one)
qed

lemma equivalent_texts:
  "values_equivalent rnd (JStr a) (JStr b) \<longleftrightarrow>
     (case (parse_f64 rnd a, parse_f64 rnd b) of (Some x, Some y) \<Rightarrow> feq x y | _ \<Rightarrow> a = b)"
  if "\<not> (a = [] \<and> b = [])"
  using that by (auto simp: values_equivalent_def is_unset_def id_list_def as_number_def split: option.splits)

text \<open>
  The read-back check accepts every record the server stored as sent, in whichever form it
  shows it (unset values, a reference with its display name, a set of ids in any order), as long as no value
  sent is a NaN, and it reports every text that was stored differently, unless both texts are numbers.
\<close>

lemma readback_accepts_faithful:
  "((\<forall>(field, sent) \<in> set flds. as_number rnd sent \<noteq> Some NaN \<and>
       (case jget body field of Some v \<Rightarrow> represents sent v | None \<Rightarrow> is_unset sent)) \<longrightarrow>
      request_fields_match rnd (JObj flds) body) \<and>
   (request_fields_match rnd (JObj flds) body \<longrightarrow>
      (\<forall>field a b. (field, JStr a) \<in> set flds \<and> \<not> prefix ''<redacted:'' a \<and> jget body field = Some (JStr b) \<and>
         (parse_f64 rnd a = None \<or> parse_f64 rnd b = None) \<longrightarrow> a = b))"
proof (intro conjI impI allI)
  assume ok: "\<forall>(field, sent) \<in> set flds. as_number rnd sent \<noteq> Some NaN \<and>
       (case jget body field of Some v \<Rightarrow> represents sent v | None \<Rightarrow> is_unset sent)"
  have "field_matches rnd sent (jget body field)" if "(field, sent) \<in> set flds" for field sent
    using ok that by (auto simp: field_matches_def equivalent_represents split: option.splits)
  then show "request_fields_match rnd (JObj flds) body" by (auto simp: request_fields_match_def list_all_iff)
next
  fix field a b
  assume m: "request_fields_match rnd (JObj flds) body"
    and f: "(field, JStr a) \<in> set flds \<and> \<not> prefix ''<redacted:'' a \<and> jget body field = Some (JStr b) \<and>
         (parse_f64 rnd a = None \<or> parse_f64 rnd b = None)"
  show "a = b"
  proof (cases "a = [] \<and> b = []")
    case False
    have "values_equivalent rnd (JStr a) (JStr b)"
      using m f by (fastforce simp: request_fields_match_def list_all_iff field_matches_def)
    with f show ?thesis unfolding equivalent_texts [OF False] by (auto split: option.splits)
  qed simp
qed

definition sample_read :: json where
  "sample_read = JObj [(''name'', JStr ''An''), (''country'', JArr [JNum 88, JStr ''Vietnam'']), (''note'', JBool False)]"

definition sample_sent :: "(string \<times> json) list" where
  "sample_sent = [(''name'', JStr ''An''), (''country'', JNum 88), (''note'', JStr [])]"

lemma parse_An: "parse_f64 Fin ''An'' = None"
  by code_simp

lemma readback_accepts_faithful_witness:
  "request_fields_match Fin (JObj sample_sent) sample_read"
proof -
  have "represents (JNum 88) (JArr [JNum 88, JStr ''Vietnam''])" by (rule many2one [where i = 88]) (simp_all add: scalar_id_def)
  moreover have "represents (JStr ''An'') (JStr ''An'')" by (rule same)
  moreover have "represents (JStr []) (JBool False)" by (rule unset) (simp_all add: is_unset_def)
  moreover have "parse_f64 Fin [] = None" by code_simp
  moreover have "as_number Fin (JNum 88) \<noteq> Some NaN" "as_number Fin (JStr ''An'') \<noteq> Some NaN"
    using parse_An by (simp_all add: as_number_def)
  ultimately show ?thesis
    using readback_accepts_faithful [of sample_sent Fin sample_read]
    by (simp add: sample_sent_def sample_read_def as_number_def)
qed

text \<open>
  A text that spells a NaN or an infinity is read as a number: a contact named Nan never matches what was sent.
  And numeric texts are compared as numbers: a telephone number that lost its leading zero counts as stored.
\<close>

lemma nan_name_mismatch: "\<not> values_equivalent Fin (JStr ''Nan'') (JStr ''Nan'')"
  by code_simp

lemma lost_zero_matches: "values_equivalent Fin (JStr ''0901'') (JStr ''901'')"
  by code_simp

end
