(* ===== verification/ConnectorManifest.thy ===== *)
theory ConnectorManifest
  imports ConnectorData ToolDispatch "HOL-Library.Sublist" "HOL-Library.Multiset" "HOL-Library.List_Lexorder" "HOL-Library.Char_ord"
begin

text \<open>
  The manifest a human approves for a connector and the comparison of two versions of it
  (\<open>crates/haily-tools/src/connector/manifest\<close>). A text that renders a structured field is represented by the
  field itself. The property says exactly which changes a re-approval shows and which it does not.
\<close>

section \<open>Schema\<close>

record OpSpec =
  os_name :: string
  os_model :: "string option"
  os_method :: "string option"
  os_risk_tier :: "string option"
  os_compensability :: "string option"
  os_compensation :: "json option"
  os_correlation_field :: "string option"

definition op_risk_tier :: "OpSpec \<Rightarrow> RiskTier" where
  "op_risk_tier op =
     (case os_risk_tier op of
        None \<Rightarrow> IrreversibleWrite
      | Some t \<Rightarrow>
          if t = ''Read'' then Read else if t = ''ReversibleWrite'' then ReversibleWrite
          else if t = ''IrreversibleWrite'' then IrreversibleWrite else if t = ''Blocked'' then Blocked
          else IrreversibleWrite)"

definition compensability_str :: "OpSpec \<Rightarrow> string" where
  "compensability_str op = (case os_compensability op of Some c \<Rightarrow> c | None \<Rightarrow> ''final'')"

definition op_is_create :: "OpSpec \<Rightarrow> bool" where
  "op_is_create op \<longleftrightarrow>
     (case os_compensation op of
        Some plan \<Rightarrow> Option.bind (jget plan ''op'') as_str = Some ''unlink'' | None \<Rightarrow> False) \<or>
     sublist ''create'' (os_name op)"

record AuthSpec =
  au_scheme :: string
  au_cred_ref :: string
  au_header_name :: "string option"
  au_param_name :: "string option"

datatype ResolvedAuthScheme = Bearer | Header string | QueryParam string

datatype manifest_error = UnknownScheme string | MissingName string | ParseFailed

definition auth_resolve :: "AuthSpec \<Rightarrow> manifest_error + ResolvedAuthScheme" where
  "auth_resolve a =
     (if au_scheme a = ''bearer'' then Inr Bearer
      else if au_scheme a = ''header'' then
        (case au_header_name a of Some n \<Rightarrow> Inr (Header n) | None \<Rightarrow> Inl (MissingName ''header_name''))
      else if au_scheme a = ''query-param'' then
        (case au_param_name a of Some n \<Rightarrow> Inr (QueryParam n) | None \<Rightarrow> Inl (MissingName ''param_name''))
      else Inl (UnknownScheme (au_scheme a)))"

record MethodShape =
  ms_method :: string
  ms_arg_template :: json

record FaultRule =
  fr_match_field :: string
  fr_match_value :: string
  fr_normalized :: string

record ReadbackSpec =
  rb_locate_by :: "string option"
  rb_active_test :: "bool option"
  rb_unwrap_first :: bool

record ModelRequiredFields =
  mr_model :: string
  mr_required_fields :: "string list"

record ProtocolSpec =
  pt_endpoint_suffix :: "string option"
  pt_envelope :: "json option"
  pt_methods :: "MethodShape list"
  pt_fault_rules :: "FaultRule list"
  pt_readback :: "ReadbackSpec option"
  pt_context :: "json option"
  pt_prevalidate :: "ModelRequiredFields list"

definition protocol_default :: ProtocolSpec where
  "protocol_default =
     \<lparr>pt_endpoint_suffix = None, pt_envelope = None, pt_methods = [], pt_fault_rules = [], pt_readback = None,
      pt_context = None, pt_prevalidate = []\<rparr>"

record Manifest =
  mf_connector_name :: string
  mf_version :: string
  mf_base_url :: string
  mf_allowed_ip_cidrs :: "string list"
  mf_ops :: "OpSpec list"
  mf_auth :: "AuthSpec option"
  mf_protocol :: "ProtocolSpec option"

text \<open>\<open>parse\<close> after the deserialisation, which yields a manifest or fails.\<close>

definition parse_manifest :: "Manifest option \<Rightarrow> manifest_error + Manifest" where
  "parse_manifest m =
     (case m of
        None \<Rightarrow> Inl ParseFailed
      | Some manifest \<Rightarrow>
          (case mf_auth manifest of
             None \<Rightarrow> Inr manifest
           | Some auth \<Rightarrow> (case auth_resolve auth of Inl e \<Rightarrow> Inl e | Inr _ \<Rightarrow> Inr manifest)))"

section \<open>Comparing two versions\<close>

record OpDiff =
  od_op_name :: string
  od_risk_tier :: "(string \<times> string) option"
  od_compensability :: "(string \<times> string) option"

record ManifestDiff =
  df_added_ops :: "string list"
  df_removed_ops :: "string list"
  df_changed_ops :: "OpDiff list"
  df_auth_scheme :: "(string \<times> string) option"
  df_auth_cred_ref :: "(string \<times> string) option"
  df_auth_header_name :: "(string \<times> string) option"
  df_auth_param_name :: "(string \<times> string) option"
  df_endpoint_suffix :: "(string \<times> string) option"
  df_envelope :: "(json option \<times> json option) option"
  df_methods :: "(MethodShape list \<times> MethodShape list) option"
  df_fault_rules :: "(FaultRule list \<times> FaultRule list) option"
  df_readback :: "(ReadbackSpec option \<times> ReadbackSpec option) option"
  df_context :: "(json option \<times> json option) option"
  df_prevalidate :: "(ModelRequiredFields list \<times> ModelRequiredFields list) option"
  df_base_url :: "(string \<times> string) option"
  df_allowed_ip_cidrs :: "(string list \<times> string list) option"

definition diff_is_empty :: "ManifestDiff \<Rightarrow> bool" where
  "diff_is_empty d \<longleftrightarrow>
     df_added_ops d = [] \<and> df_removed_ops d = [] \<and> df_changed_ops d = [] \<and>
     df_auth_scheme d = None \<and> df_auth_cred_ref d = None \<and> df_auth_header_name d = None \<and> df_auth_param_name d = None \<and>
     df_endpoint_suffix d = None \<and> df_envelope d = None \<and> df_methods d = None \<and> df_fault_rules d = None \<and>
     df_readback d = None \<and> df_context d = None \<and> df_prevalidate d = None \<and>
     df_base_url d = None \<and> df_allowed_ip_cidrs d = None"

definition diff_field :: "string option \<Rightarrow> string option \<Rightarrow> (string \<times> string) option" where
  "diff_field old new =
     (if old = new then None
      else (let label = (\<lambda>v. strip_text (case v of Some s \<Rightarrow> s | None \<Rightarrow> ''(none)'')) in Some (label old, label new)))"

definition diff_field_str :: "string \<Rightarrow> string \<Rightarrow> (string \<times> string) option" where
  "diff_field_str old new = (if old = new then None else Some (strip_text old, strip_text new))"

definition diff_serialized :: "'a \<Rightarrow> 'a \<Rightarrow> ('a \<times> 'a) option" where
  "diff_serialized old new = (if old = new then None else Some (old, new))"

definition diff_methods :: "MethodShape list \<Rightarrow> MethodShape list \<Rightarrow> (MethodShape list \<times> MethodShape list) option" where
  "diff_methods old new =
     (if old = new then None
      else (let render = map (\<lambda>m. m\<lparr>ms_method := strip_text (ms_method m)\<rparr>) in Some (render old, render new)))"

definition diff_cidrs :: "string list \<Rightarrow> string list \<Rightarrow> (string list \<times> string list) option" where
  "diff_cidrs old new =
     (let old_sorted = sort (map strip_text old); new_sorted = sort (map strip_text new)
      in if old_sorted = new_sorted then None else Some (old_sorted, new_sorted))"

definition auth_fields :: "AuthSpec option \<Rightarrow> string option \<times> string option \<times> string option \<times> string option" where
  "auth_fields auth =
     (case auth of
        Some a \<Rightarrow> (Some (au_scheme a), Some (au_cred_ref a), au_header_name a, au_param_name a)
      | None \<Rightarrow> (None, None, None, None))"

definition op_named :: "OpSpec list \<Rightarrow> string \<Rightarrow> OpSpec option" where
  "op_named ops name = find (\<lambda>o'. os_name o' = name) ops"

definition op_diff :: "OpSpec \<Rightarrow> OpSpec \<Rightarrow> OpDiff option" where
  "op_diff old_op new_op =
     (let risk_tier = diff_field (os_risk_tier old_op) (os_risk_tier new_op);
          compensability = diff_field (os_compensability old_op) (os_compensability new_op)
      in if risk_tier \<noteq> None \<or> compensability \<noteq> None
         then Some \<lparr>od_op_name = strip_text (os_name new_op), od_risk_tier = risk_tier,
                    od_compensability = compensability\<rparr>
         else None)"

definition or_default :: "ProtocolSpec option \<Rightarrow> ProtocolSpec" where
  "or_default p = (case p of Some s \<Rightarrow> s | None \<Rightarrow> protocol_default)"

definition manifest_diff :: "Manifest \<Rightarrow> Manifest \<Rightarrow> ManifestDiff" where
  "manifest_diff old new =
     (let (os, oc, oh, opn) = auth_fields (mf_auth old);
          (ns, nc, nh, np) = auth_fields (mf_auth new);
          po = or_default (mf_protocol old); pn = or_default (mf_protocol new);
          auth = (mf_auth old \<noteq> None \<or> mf_auth new \<noteq> None)
      in \<lparr>df_added_ops =
            map (\<lambda>n. strip_text (os_name n)) (filter (\<lambda>n. op_named (mf_ops old) (os_name n) = None) (mf_ops new)),
          df_removed_ops =
            map (\<lambda>r. strip_text (os_name r)) (filter (\<lambda>r. op_named (mf_ops new) (os_name r) = None) (mf_ops old)),
          df_changed_ops =
            List.map_filter (\<lambda>n. Option.bind (op_named (mf_ops old) (os_name n)) (\<lambda>r. op_diff r n)) (mf_ops new),
          df_auth_scheme = diff_field os ns, df_auth_cred_ref = diff_field oc nc,
          df_auth_header_name = diff_field oh nh, df_auth_param_name = diff_field opn np,
          df_endpoint_suffix = diff_field (pt_endpoint_suffix po) (pt_endpoint_suffix pn),
          df_envelope = diff_serialized (pt_envelope po) (pt_envelope pn),
          df_methods = diff_methods (pt_methods po) (pt_methods pn),
          df_fault_rules = diff_serialized (pt_fault_rules po) (pt_fault_rules pn),
          df_readback = diff_serialized (pt_readback po) (pt_readback pn),
          df_context = diff_serialized (pt_context po) (pt_context pn),
          df_prevalidate = diff_serialized (pt_prevalidate po) (pt_prevalidate pn),
          df_base_url = (if auth then diff_field_str (mf_base_url old) (mf_base_url new) else None),
          df_allowed_ip_cidrs =
            (if auth then diff_cidrs (mf_allowed_ip_cidrs old) (mf_allowed_ip_cidrs new) else None)\<rparr>)"

definition diff_default :: ManifestDiff where
  "diff_default =
     \<lparr>df_added_ops = [], df_removed_ops = [], df_changed_ops = [], df_auth_scheme = None, df_auth_cred_ref = None,
      df_auth_header_name = None, df_auth_param_name = None, df_endpoint_suffix = None, df_envelope = None,
      df_methods = None, df_fault_rules = None, df_readback = None, df_context = None, df_prevalidate = None,
      df_base_url = None, df_allowed_ip_cidrs = None\<rparr>"

datatype VersionCheck = NeverApproved | UpToDate | Drifted string string ManifestDiff

definition check_version :: "string option \<Rightarrow> Manifest option \<Rightarrow> Manifest \<Rightarrow> VersionCheck" where
  "check_version approved_version approved live =
     (case approved_version of
        None \<Rightarrow> NeverApproved
      | Some v \<Rightarrow>
          if v = mf_version live then UpToDate
          else Drifted v (mf_version live)
                 (case approved of Some old \<Rightarrow> manifest_diff old live | None \<Rightarrow> diff_default))"

section \<open>What a comparison shows\<close>

lemma diff_field_None [simp]: "diff_field old new = None \<longleftrightarrow> old = new"
  by (simp add: diff_field_def Let_def)

lemma diff_field_str_None [simp]: "diff_field_str old new = None \<longleftrightarrow> old = new"
  by (simp add: diff_field_str_def)

lemma diff_serialized_None [simp]: "diff_serialized old new = None \<longleftrightarrow> old = new"
  by (simp add: diff_serialized_def)

lemma diff_methods_None [simp]: "diff_methods old new = None \<longleftrightarrow> old = new"
  by (simp add: diff_methods_def Let_def)

lemma sort_eq_iff: "sort xs = sort ys \<longleftrightarrow> mset xs = mset ys"
proof
  assume "sort xs = sort ys"
  then have "mset (sort xs) = mset (sort ys)" by (simp only:)
  then show "mset xs = mset ys" by (simp only: mset_sort)
next
  assume "mset xs = mset ys"
  then show "sort xs = sort ys" by (intro properties_for_sort) (simp_all only: mset_sort sorted_sort)
qed

lemma diff_cidrs_None: "diff_cidrs old new = None \<longleftrightarrow> mset (map strip_text old) = mset (map strip_text new)"
  by (simp add: diff_cidrs_def Let_def sort_eq_iff)

lemma op_diff_None [simp]:
  "op_diff o1 o2 = None \<longleftrightarrow> os_risk_tier o1 = os_risk_tier o2 \<and> os_compensability o1 = os_compensability o2"
  by (simp add: op_diff_def Let_def del: not_None_eq)

lemma op_named_None: "op_named ops n = None \<longleftrightarrow> n \<notin> os_name ` set ops"
  by (auto simp: op_named_def find_None_iff)

lemma auth_fields_eq: "auth_fields a = auth_fields b \<longleftrightarrow> a = b"
  by (auto simp: auth_fields_def split: option.splits)

lemma map_filter_Nil: "List.map_filter f xs = [] \<longleftrightarrow> (\<forall>x\<in>set xs. f x = None)"
  by (auto simp: List.map_filter_def filter_empty_conv)

lemma no_new_ops:
  "filter (\<lambda>n. op_named olds (os_name n) = None) news = [] \<longleftrightarrow> os_name ` set news \<subseteq> os_name ` set olds"
  by (auto simp: filter_empty_conv op_named_None)

lemma manifest_diff_empty_iff:
  "diff_is_empty (manifest_diff old new) \<longleftrightarrow>
     os_name ` set (mf_ops old) = os_name ` set (mf_ops new) \<and>
     (\<forall>n\<in>set (mf_ops new). \<exists>r. op_named (mf_ops old) (os_name n) = Some r \<and>
        os_risk_tier r = os_risk_tier n \<and> os_compensability r = os_compensability n) \<and>
     mf_auth old = mf_auth new \<and>
     or_default (mf_protocol old) = or_default (mf_protocol new) \<and>
     (mf_auth old \<noteq> None \<longrightarrow> mf_base_url old = mf_base_url new \<and>
        mset (map strip_text (mf_allowed_ip_cidrs old)) = mset (map strip_text (mf_allowed_ip_cidrs new)))"
proof -
  obtain os oc oh opn where ao: "auth_fields (mf_auth old) = (os, oc, oh, opn)" by (metis prod_cases4)
  obtain ns nc nh np where an: "auth_fields (mf_auth new) = (ns, nc, nh, np)" by (metis prod_cases4)
  have auth: "os = ns \<and> oc = nc \<and> oh = nh \<and> opn = np \<longleftrightarrow> mf_auth old = mf_auth new"
    using auth_fields_eq [of "mf_auth old" "mf_auth new"] ao an by auto
  have changed: "(\<forall>n\<in>set (mf_ops new). Option.bind (op_named (mf_ops old) (os_name n)) (\<lambda>r. op_diff r n) = None) \<and>
      os_name ` set (mf_ops new) \<subseteq> os_name ` set (mf_ops old) \<longleftrightarrow>
      (\<forall>n\<in>set (mf_ops new). \<exists>r. op_named (mf_ops old) (os_name n) = Some r \<and>
        os_risk_tier r = os_risk_tier n \<and> os_compensability r = os_compensability n)"
  proof -
    have "Option.bind (op_named (mf_ops old) (os_name n)) (\<lambda>r. op_diff r n) = None \<and> os_name n \<in> os_name ` set (mf_ops old) \<longleftrightarrow>
        (\<exists>r. op_named (mf_ops old) (os_name n) = Some r \<and>
          os_risk_tier r = os_risk_tier n \<and> os_compensability r = os_compensability n)" for n
      using op_named_None [of "mf_ops old" "os_name n"] by (cases "op_named (mf_ops old) (os_name n)") auto
    then show ?thesis by blast
  qed
  have protocol: "or_default (mf_protocol old) = or_default (mf_protocol new) \<longleftrightarrow>
      (let po = or_default (mf_protocol old); pn = or_default (mf_protocol new) in
       pt_endpoint_suffix po = pt_endpoint_suffix pn \<and> pt_envelope po = pt_envelope pn \<and> pt_methods po = pt_methods pn \<and>
       pt_fault_rules po = pt_fault_rules pn \<and> pt_readback po = pt_readback pn \<and> pt_context po = pt_context pn \<and>
       pt_prevalidate po = pt_prevalidate pn)"
    by (auto simp: Let_def)
  show ?thesis
    unfolding manifest_diff_def Let_def ao an diff_is_empty_def prod.case
    using auth changed protocol
    by (auto simp: no_new_ops map_filter_Nil diff_cidrs_None Let_def)
qed

lemma method_change_unseen:
  "diff_is_empty (manifest_diff (m\<lparr>mf_ops := [op]\<rparr>) (m\<lparr>mf_ops := [op\<lparr>os_method := mt, os_model := md, os_compensation := cp\<rparr>]\<rparr>))"
  by (simp add: manifest_diff_empty_iff op_named_def)

text \<open>
  A re-approval shows every change of a gated field. The comparison of two versions is empty
  exactly when they have the same op names, every op has the tier and the compensability of the first op of
  its name in the old version, auth and protocol are the same, and, once a credential is involved on either
  side, the base URL and the multiset of pinned networks too. The model, method and compensation template of
  an op are outside the comparison.
\<close>

lemma manifest_diff_complete:
  "diff_is_empty (manifest_diff old new) \<longleftrightarrow>
     os_name ` set (mf_ops old) = os_name ` set (mf_ops new) \<and>
     (\<forall>n\<in>set (mf_ops new). \<exists>r. op_named (mf_ops old) (os_name n) = Some r \<and>
        os_risk_tier r = os_risk_tier n \<and> os_compensability r = os_compensability n) \<and>
     mf_auth old = mf_auth new \<and>
     or_default (mf_protocol old) = or_default (mf_protocol new) \<and>
     (mf_auth old \<noteq> None \<longrightarrow> mf_base_url old = mf_base_url new \<and>
        mset (map strip_text (mf_allowed_ip_cidrs old)) = mset (map strip_text (mf_allowed_ip_cidrs new)))"
  by (rule manifest_diff_empty_iff)

definition sample_manifest :: Manifest where
  "sample_manifest =
     \<lparr>mf_connector_name = ''odoo'', mf_version = ''1'', mf_base_url = ''https://erp.example'', mf_allowed_ip_cidrs = [],
      mf_ops = [\<lparr>os_name = ''read'', os_model = None, os_method = None, os_risk_tier = Some ''Read'',
                 os_compensability = None, os_compensation = None, os_correlation_field = None\<rparr>],
      mf_auth = None, mf_protocol = None\<rparr>"

lemma manifest_diff_complete_witness:
  "diff_is_empty (manifest_diff sample_manifest (sample_manifest\<lparr>mf_version := ''2''\<rparr>)) \<and>
   \<not> diff_is_empty (manifest_diff sample_manifest
       (sample_manifest\<lparr>mf_ops := map (\<lambda>op. op\<lparr>os_compensability := Some ''saga''\<rparr>) (mf_ops sample_manifest)\<rparr>))"
  unfolding manifest_diff_complete by (simp add: sample_manifest_def op_named_def)

end
