(* ===== verification/ConnectorHttp.thy ===== *)
theory ConnectorHttp
  imports ConnectorProtocol SsrfGuard
begin

text \<open>
  The HTTP executor of connectors (\<open>HttpExecutor\<close> of \<open>crates/haily-tools/src/connector/http_connector_tool.rs\<close>):
  its endpoint, the resolution and the use of the credential, the requests of a redirect chain, the body a
  protocol declares, and the calls and reads built on them. Each operation yields its result and the requests
  it sent, hop by hop. URLs, JSON texts, DNS and servers are the argument \<open>env\<close>; the credential getter is a
  function of the number of its call, since the code reads the credential afresh each time.
\<close>

section \<open>The executor\<close>

record HttpRequest =
  hr_method :: string
  hr_target :: ustr
  hr_headers :: "(string \<times> string) list"
  hr_query :: "(string \<times> string) list"
  hr_body :: "string option"

record http_env =
  he_net :: "HttpRequest net"
  he_query_pairs :: "ustr \<Rightarrow> (string \<times> string) list"
  he_with_query :: "ustr \<Rightarrow> (string \<times> string) list option \<Rightarrow> ustr"
  he_text :: "Response \<Rightarrow> string option"
  he_from_str :: "string \<Rightarrow> json option"
  he_show :: "json \<Rightarrow> string"

type_synonym CredentialGetter = "nat \<Rightarrow> string \<Rightarrow> string option option"

record HttpExecutor =
  ex_manifest :: Manifest
  ex_credential_getter :: "CredentialGetter option"
  ex_connection :: "ConnectionOverlay option"
  ex_allow_loopback :: bool

datatype conn_error =
    KillEngaged string | BadScheme manifest_error | NoGetter string | GetterFailed string | NotAvailable string
  | BaseUrlInvalid string | BaseUrlNoHost string | Transport ssrf_error | BodyRead
  | Protocol proto_error | ReadBackFault string

definition production :: "Manifest \<Rightarrow> HttpExecutor" where
  "production manifest =
     \<lparr>ex_manifest = manifest, ex_credential_getter = None, ex_connection = None, ex_allow_loopback = False\<rparr>"

definition endpoint :: "HttpExecutor \<Rightarrow> string" where
  "endpoint ex =
     (case ex_connection ex of
        Some overlay \<Rightarrow> effective_base_url overlay (mf_base_url (ex_manifest ex))
      | None \<Rightarrow> mf_base_url (ex_manifest ex))"

definition trim_end_char :: "'a \<Rightarrow> 'a list \<Rightarrow> 'a list" where
  "trim_end_char c s = rev (dropWhile (\<lambda>x. x = c) (rev s))"

definition protocol_endpoint :: "HttpExecutor \<Rightarrow> ProtocolSpec \<Rightarrow> string" where
  "protocol_endpoint ex proto =
     (case pt_endpoint_suffix proto of
        Some sfx \<Rightarrow> trim_end_char (CHR ''/'') (endpoint ex) @ sfx
      | None \<Rightarrow> endpoint ex)"

section \<open>Credentials\<close>

definition resolve_auth :: "HttpExecutor \<Rightarrow> nat \<Rightarrow> conn_error + (ResolvedAuthScheme \<times> string) option" where
  "resolve_auth ex k =
     (case mf_auth (ex_manifest ex) of
        None \<Rightarrow> Inr None
      | Some auth \<Rightarrow>
          (case auth_resolve auth of
             Inl e \<Rightarrow> Inl (BadScheme e)
           | Inr scheme \<Rightarrow>
               (let cred_ref = (case ex_connection ex of
                                  None \<Rightarrow> au_cred_ref auth
                                | Some overlay \<Rightarrow> effective_cred_ref overlay (au_cred_ref auth))
                in case ex_credential_getter ex of
                     None \<Rightarrow> Inl (NoGetter cred_ref)
                   | Some getter \<Rightarrow>
                       (case getter k cred_ref of
                          None \<Rightarrow> Inl (GetterFailed cred_ref)
                        | Some None \<Rightarrow> Inl (NotAvailable cred_ref)
                        | Some (Some secret) \<Rightarrow>
                            if secret = [] then Inl (NotAvailable cred_ref) else Inr (Some (scheme, secret))))))"

definition resolved_secret :: "HttpExecutor \<Rightarrow> nat \<Rightarrow> string option" where
  "resolved_secret ex k =
     (case resolve_auth ex k of Inr (Some (scheme, secret)) \<Rightarrow> Some secret | _ \<Rightarrow> None)"

definition credential_preflight :: "HttpExecutor \<Rightarrow> nat \<Rightarrow> bool option" where
  "credential_preflight ex k =
     (case mf_auth (ex_manifest ex) of
        None \<Rightarrow> None
      | Some _ \<Rightarrow> Some (case resolve_auth ex k of Inr _ \<Rightarrow> True | Inl _ \<Rightarrow> False))"

section \<open>Hosts\<close>

definition normalize_host :: "ustr \<Rightarrow> ustr" where
  "normalize_host host = lower (trim_end_char 46 host)"

definition base_host :: "http_env \<Rightarrow> HttpExecutor \<Rightarrow> conn_error + ustr" where
  "base_host env ex =
     (case nt_url_parse (he_net env) (text_of (endpoint ex)) of
        None \<Rightarrow> Inl (BaseUrlInvalid (endpoint ex))
      | Some url \<Rightarrow>
          (case u_host_str url of
             None \<Rightarrow> Inl (BaseUrlNoHost (endpoint ex)) | Some h \<Rightarrow> Inr (normalize_host h)))"

definition hop_host_matches :: "http_env \<Rightarrow> ustr \<Rightarrow> ustr \<Rightarrow> bool" where
  "hop_host_matches env hop_url base \<longleftrightarrow>
     (case Option.bind (nt_url_parse (he_net env) hop_url) u_host_str of
        None \<Rightarrow> False | Some h \<Rightarrow> normalize_host h = base)"

definition strip_query_param :: "http_env \<Rightarrow> ustr \<Rightarrow> string \<Rightarrow> ustr" where
  "strip_query_param env url param_name =
     (case nt_url_parse (he_net env) url of
        None \<Rightarrow> url
      | Some _ \<Rightarrow>
          (let remaining = filter (\<lambda>(k, v). k \<noteq> param_name) (he_query_pairs env url)
           in he_with_query env url (if remaining = [] then None else Some remaining)))"

definition hop_target_url :: "http_env \<Rightarrow> ustr \<Rightarrow> (ResolvedAuthScheme \<times> string) option \<Rightarrow> ustr \<Rightarrow> ustr" where
  "hop_target_url env hop_url auth base =
     (case auth of
        Some (QueryParam name, _) \<Rightarrow>
          if hop_host_matches env hop_url base then strip_query_param env hop_url name else hop_url
      | _ \<Rightarrow> hop_url)"

section \<open>Requests\<close>

fun apply_auth :: "HttpRequest \<Rightarrow> ResolvedAuthScheme \<Rightarrow> string \<Rightarrow> HttpRequest" where
  "apply_auth r Bearer secret = r\<lparr>hr_headers := hr_headers r @ [(''authorization'', ''Bearer '' @ secret)]\<rparr>"
| "apply_auth r (Header name) secret = r\<lparr>hr_headers := hr_headers r @ [(name, secret)]\<rparr>"
| "apply_auth r (QueryParam name) secret = r\<lparr>hr_query := hr_query r @ [(name, secret)]\<rparr>"

text \<open>The closures \<open>build_request\<close> of \<open>send_post\<close> and \<open>send_get\<close>.\<close>

definition post_request :: "http_env \<Rightarrow> (ResolvedAuthScheme \<times> string) option \<Rightarrow> ustr \<Rightarrow> string \<Rightarrow> string \<Rightarrow> ustr
    \<Rightarrow> HttpRequest" where
  "post_request env auth base body_with_secret body_without_secret url =
     (let is_home = hop_host_matches env url base;
          builder = \<lparr>hr_method = ''POST'', hr_target = hop_target_url env url auth base,
                     hr_headers = [(''content-type'', ''application/json'')], hr_query = [],
                     hr_body = Some (if is_home then body_with_secret else body_without_secret)\<rparr>
      in case auth of
           Some (scheme, secret) \<Rightarrow> if is_home then apply_auth builder scheme secret else builder
         | None \<Rightarrow> builder)"

definition get_request :: "http_env \<Rightarrow> (ResolvedAuthScheme \<times> string) option \<Rightarrow> ustr \<Rightarrow> (string \<times> string) list \<Rightarrow> ustr
    \<Rightarrow> HttpRequest" where
  "get_request env auth base query url =
     (let builder = \<lparr>hr_method = ''GET'', hr_target = hop_target_url env url auth base, hr_headers = [],
                     hr_query = query, hr_body = None\<rparr>
      in case auth of
           Some (scheme, secret) \<Rightarrow>
             if hop_host_matches env url base then apply_auth builder scheme secret else builder
         | None \<Rightarrow> builder)"

type_synonym 'a sent = "(conn_error + 'a) \<times> HttpRequest hop_request list"

definition response_text :: "http_env \<Rightarrow> (ssrf_error + Response) \<times> HttpRequest hop_request list \<Rightarrow> (nat \<times> string) sent" where
  "response_text env outcome =
     (case outcome of
        (Inl e, sent) \<Rightarrow> (Inl (Transport e), sent)
      | (Inr resp, sent) \<Rightarrow>
          (case he_text env resp of
             None \<Rightarrow> (Inl BodyRead, sent) | Some t \<Rightarrow> (Inr (rs_status resp, t), sent)))"

definition allowed_cidrs :: "HttpExecutor \<Rightarrow> ustr list" where
  "allowed_cidrs ex = map text_of (mf_allowed_ip_cidrs (ex_manifest ex))"

definition send_post :: "http_env \<Rightarrow> HttpExecutor \<Rightarrow> nat \<Rightarrow> string \<Rightarrow> string \<Rightarrow> string \<Rightarrow> (nat \<times> string) sent" where
  "send_post env ex k url body_with_secret body_without_secret =
     (case resolve_auth ex k of
        Inl e \<Rightarrow> (Inl e, [])
      | Inr auth \<Rightarrow>
          (case base_host env ex of
             Inl e \<Rightarrow> (Inl e, [])
           | Inr base \<Rightarrow>
               response_text env
                 (follow_redirects_with_guard_allowance_loopback (he_net env) (text_of url) (allowed_cidrs ex)
                    (ex_allow_loopback ex) (post_request env auth base body_with_secret body_without_secret))))"

definition send_get :: "http_env \<Rightarrow> HttpExecutor \<Rightarrow> nat \<Rightarrow> string \<Rightarrow> (string \<times> string) list \<Rightarrow> (nat \<times> string) sent" where
  "send_get env ex k url query =
     (case resolve_auth ex k of
        Inl e \<Rightarrow> (Inl e, [])
      | Inr auth \<Rightarrow>
          (case base_host env ex of
             Inl e \<Rightarrow> (Inl e, [])
           | Inr base \<Rightarrow>
               response_text env
                 (follow_redirects_with_guard_allowance_loopback (he_net env) (text_of url) (allowed_cidrs ex)
                    (ex_allow_loopback ex) (get_request env auth base query))))"

section \<open>Bodies of a protocol\<close>

definition build_envelope :: "http_env \<Rightarrow> HttpExecutor \<Rightarrow> ProtocolSpec \<Rightarrow> string \<Rightarrow> string \<Rightarrow> json \<Rightarrow> json
    \<Rightarrow> string option \<Rightarrow> proto_error + string" where
  "build_envelope env ex proto model method args kwargs secret =
     (case pt_envelope proto of
        None \<Rightarrow> Inl NoEnvelope
      | Some envelope \<Rightarrow>
          (let ctx = [(''model'', JStr model), (''method'', JStr method), (''args'', args), (''kwargs'', kwargs)]
                 @ (case ex_connection ex of
                      None \<Rightarrow> []
                    | Some overlay \<Rightarrow>
                        (case ov_db overlay of Some db \<Rightarrow> [(''db'', JStr db)] | None \<Rightarrow> []) @
                        (case ov_uid overlay of Some uid \<Rightarrow> [(''uid'', JNum uid)] | None \<Rightarrow> []))
                 @ [(''key'', JStr (case secret of Some s \<Rightarrow> s | None \<Rightarrow> []))]
           in map_sum id (he_show env) (substitute ctx envelope)))"

text \<open>The two bodies of a request under a protocol, with the credential and without it, and their sending.\<close>

definition send_envelope :: "http_env \<Rightarrow> HttpExecutor \<Rightarrow> ProtocolSpec \<Rightarrow> string \<Rightarrow> string \<Rightarrow> json \<Rightarrow> json
    \<Rightarrow> (nat \<times> string) sent" where
  "send_envelope env ex proto model method args kwargs =
     (case resolve_auth ex 0 of
        Inl e \<Rightarrow> (Inl e, [])
      | Inr secret \<Rightarrow>
          (case build_envelope env ex proto model method args kwargs (map_option snd secret) of
             Inl e \<Rightarrow> (Inl (Protocol e), [])
           | Inr body_with \<Rightarrow>
               (case build_envelope env ex proto model method args kwargs None of
                  Inl e \<Rightarrow> (Inl (Protocol e), [])
                | Inr body_without \<Rightarrow> send_post env ex 1 (protocol_endpoint ex proto) body_with body_without)))"

definition parsed_or_null :: "http_env \<Rightarrow> string \<Rightarrow> json" where
  "parsed_or_null env t = (case he_from_str env t of Some v \<Rightarrow> v | None \<Rightarrow> JNull)"

definition get_or_null :: "json \<Rightarrow> string \<Rightarrow> json" where
  "get_or_null v key = (case jget v key of Some x \<Rightarrow> x | None \<Rightarrow> JNull)"

definition outcome_from_parsed :: "http_env \<Rightarrow> ProtocolSpec \<Rightarrow> nat \<Rightarrow> string \<Rightarrow> json \<Rightarrow> ExecOutcome" where
  "outcome_from_parsed env proto status t body =
     (case extract_fault (he_show env) body of
        Some fault \<Rightarrow>
          Fault (strip_text (of_fault_string fault))
            (Some (classify_by_rules (pt_fault_rules proto) fault (Some status))) (of_name fault)
      | None \<Rightarrow>
          if 400 \<le> status
          then Fault (strip_text t)
                 (Some (classify_by_rules (pt_fault_rules proto)
                    \<lparr>of_code = Some (nat_text status), of_name = None, of_fault_string = t\<rparr> (Some status))) None
          else ExecOk (extract_first_id (he_show env) (get_or_null body ''result'')) (get_or_null body ''result''))"

section \<open>Calls\<close>

definition request_ids :: "json \<Rightarrow> json" where
  "request_ids params =
     (case jget params ''ids'' of
        Some ids \<Rightarrow> ids
      | None \<Rightarrow> (case jget params ''id'' of Some i \<Rightarrow> JArr [i] | None \<Rightarrow> JNull))"

definition create_values :: "Manifest \<Rightarrow> string \<Rightarrow> string \<Rightarrow> json \<Rightarrow> json" where
  "create_values manifest model correlation_ref vals =
     (case correlation_field_for manifest model of
        None \<Rightarrow> vals
      | Some field \<Rightarrow>
          (case vals of JObj flds \<Rightarrow> JObj (obj_or_insert field (JStr correlation_ref) flds) | v \<Rightarrow> v))"

definition string_field :: "json \<Rightarrow> string \<Rightarrow> string option" where
  "string_field v key = Option.bind (jget v key) as_str"

text \<open>What \<open>call_protocol\<close> prepares before it touches the credential: the model, the method and the arguments.\<close>

definition protocol_args :: "HttpExecutor \<Rightarrow> ProtocolSpec \<Rightarrow> string \<Rightarrow> json \<Rightarrow> proto_error + string \<times> string \<times> json" where
  "protocol_args ex proto op params =
     (case resolve_op_model_method (ex_manifest ex) op params of
        Inl e \<Rightarrow> Inl e
      | Inr (model, method) \<Rightarrow>
          (let correlation_ref = (case string_field params ''correlation_ref'' of Some r \<Rightarrow> r | None \<Rightarrow> '''');
               vals = get_or_null params ''values''
           in case (if method = ''create'' then prevalidate (pt_prevalidate proto) model vals else Inr ()) of
                Inl e \<Rightarrow> Inl e
              | Inr _ \<Rightarrow>
                  (let vals' = (if method = ''create'' then create_values (ex_manifest ex) model correlation_ref vals else vals);
                       ctx = [(''values'', vals'), (''ids'', request_ids params), (''correlation_ref'', JStr correlation_ref)];
                       fallback = (case jget params ''args'' of Some a \<Rightarrow> a | None \<Rightarrow> JArr [])
                   in map_sum id (\<lambda>args. (model, method, args)) (shape_args (pt_methods proto) method ctx fallback))))"

definition call_protocol :: "http_env \<Rightarrow> HttpExecutor \<Rightarrow> ProtocolSpec \<Rightarrow> string \<Rightarrow> json \<Rightarrow> ExecOutcome sent" where
  "call_protocol env ex proto op params =
     (case protocol_args ex proto op params of
        Inl e \<Rightarrow> (Inl (Protocol e), [])
      | Inr (model, method, args) \<Rightarrow>
          (let kwargs = JObj [(''context'', case pt_context proto of Some c \<Rightarrow> c | None \<Rightarrow> JObj [])]
           in case send_envelope env ex proto model method args kwargs of
                (Inl e, sent) \<Rightarrow> (Inl e, sent)
              | (Inr (status, t), sent) \<Rightarrow>
                  (Inr (outcome_from_parsed env proto status t (parsed_or_null env t)), sent)))"

definition call :: "http_env \<Rightarrow> HttpExecutor \<Rightarrow> bool \<Rightarrow> string \<Rightarrow> json \<Rightarrow> ExecOutcome sent" where
  "call env ex kill op params =
     (if kill then (Inl (KillEngaged op), [])
      else
        (case mf_protocol (ex_manifest ex) of
           Some proto \<Rightarrow> call_protocol env ex proto op params
         | None \<Rightarrow>
             (let body = he_show env (JObj [(''op'', JStr op), (''params'', params)])
              in case send_post env ex 0 (endpoint ex) body body of
                   (Inl e, sent) \<Rightarrow> (Inl e, sent)
                 | (Inr (status, t), sent) \<Rightarrow>
                     if 400 \<le> status then (Inr (Fault (strip_text t) (Some (nat_text status)) None), sent)
                     else
                       (let parsed = parsed_or_null env t
                        in (Inr (ExecOk (Option.bind (jget parsed ''id'') id_text) parsed), sent)))))"

section \<open>Reading back\<close>

definition read_back_model :: "Manifest \<Rightarrow> string \<Rightarrow> string option \<Rightarrow> proto_error + string" where
  "read_back_model manifest op model_hint =
     (case resolve_op_model_method manifest op JNull of
        Inr (model, _) \<Rightarrow> Inr model
      | Inl _ \<Rightarrow>
          (case model_hint of
             Some m \<Rightarrow> Inr m
           | None \<Rightarrow> (case first_some os_model (mf_ops manifest) of Some m \<Rightarrow> Inr m | None \<Rightarrow> Inl (NoModelHint op))))"

definition read_back_protocol :: "http_env \<Rightarrow> HttpExecutor \<Rightarrow> ProtocolSpec \<Rightarrow> string \<Rightarrow> string \<Rightarrow> string option
    \<Rightarrow> string option \<Rightarrow> json sent" where
  "read_back_protocol env ex proto op correlation_ref model_hint id_hint =
     (case read_back_model (ex_manifest ex) op model_hint of
        Inl e \<Rightarrow> (Inl (Protocol e), [])
      | Inr model \<Rightarrow>
          (let domain = build_domain id_hint (correlation_field_for (ex_manifest ex) model) correlation_ref;
               kwargs = build_kwargs (pt_context proto) (pt_readback proto)
           in case send_envelope env ex proto model ''search_read'' domain kwargs of
                (Inl e, sent) \<Rightarrow> (Inl e, sent)
              | (Inr (status, t), sent) \<Rightarrow>
                  (let parsed = parsed_or_null env t
                   in case extract_fault (he_show env) parsed of
                        Some fault \<Rightarrow> (Inl (ReadBackFault (strip_text (of_fault_string fault))), sent)
                      | None \<Rightarrow> (Inr (unwrap_first (get_or_null parsed ''result'') (pt_readback proto)), sent))))"

definition read_back :: "http_env \<Rightarrow> HttpExecutor \<Rightarrow> string \<Rightarrow> string \<Rightarrow> string option \<Rightarrow> string option \<Rightarrow> json sent" where
  "read_back env ex op correlation_ref model_hint id_hint =
     (case mf_protocol (ex_manifest ex) of
        Some proto \<Rightarrow> read_back_protocol env ex proto op correlation_ref model_hint id_hint
      | None \<Rightarrow>
          (case send_get env ex 0 (endpoint ex) [(''op'', op), (''correlation_ref'', correlation_ref)] of
             (Inl e, sent) \<Rightarrow> (Inl e, sent)
           | (Inr (status, t), sent) \<Rightarrow> (Inr (parsed_or_null env t), sent)))"

section \<open>What a request carries\<close>

text \<open>A URL whose host is not the connector's own.\<close>

definition foreign :: "http_env \<Rightarrow> HttpExecutor \<Rightarrow> ustr \<Rightarrow> bool" where
  "foreign env ex url \<longleftrightarrow>
     (case base_host env ex of Inl _ \<Rightarrow> True | Inr base \<Rightarrow> \<not> hop_host_matches env url base)"

definition plain_post :: "ustr \<Rightarrow> string \<Rightarrow> HttpRequest" where
  "plain_post url body =
     \<lparr>hr_method = ''POST'', hr_target = url, hr_headers = [(''content-type'', ''application/json'')], hr_query = [],
      hr_body = Some body\<rparr>"

definition plain_get :: "ustr \<Rightarrow> (string \<times> string) list \<Rightarrow> HttpRequest" where
  "plain_get url query =
     \<lparr>hr_method = ''GET'', hr_target = url, hr_headers = [], hr_query = query, hr_body = None\<rparr>"

lemma foreign_post:
  "\<not> hop_host_matches env url base \<Longrightarrow> post_request env auth base body_with body_without url = plain_post url body_without"
  by (auto simp: post_request_def plain_post_def hop_target_url_def Let_def
      split: option.splits prod.splits ResolvedAuthScheme.splits)

lemma foreign_get: "\<not> hop_host_matches env url base \<Longrightarrow> get_request env auth base query url = plain_get url query"
  by (auto simp: get_request_def plain_get_def hop_target_url_def Let_def
      split: option.splits prod.splits ResolvedAuthScheme.splits)

lemma hops_built:
  "follow_hops guard net build_request hops url = (r, sent) \<Longrightarrow> (u, h, a, q) \<in> set sent \<Longrightarrow> q = build_request u"
  by (induction hops arbitrary: url r sent)
    (auto simp: Let_def split: option.splits if_splits prod.splits sum.splits)

lemma hops_bounded:
  "follow_hops guard net build_request hops url = (r, sent) \<Longrightarrow> length sent \<le> length hops"
  by (induction hops arbitrary: url r sent)
    (auto simp: Let_def split: option.splits if_splits prod.splits sum.splits)

lemma response_text_sent [simp]: "snd (response_text env outcome) = snd outcome"
  by (auto simp: response_text_def split: prod.splits sum.splits option.splits)

lemmas send_defs = send_post_def send_get_def follow_redirects_with_guard_allowance_loopback_def

lemma send_post_sent:
  assumes "(u, h, a, q) \<in> set (snd (send_post env ex k url body_with body_without))"
  obtains auth base where "resolve_auth ex k = Inr auth" "base_host env ex = Inr base"
    "q = post_request env auth base body_with body_without u"
  using assms unfolding send_defs
  by (auto split: sum.splits) (metis hops_built prod.collapse)

lemma send_get_sent:
  assumes "(u, h, a, q) \<in> set (snd (send_get env ex k url query))"
  obtains auth base where "resolve_auth ex k = Inr auth" "base_host env ex = Inr base"
    "q = get_request env auth base query u"
  using assms unfolding send_defs
  by (auto split: sum.splits) (metis hops_built prod.collapse)

lemma six_hops:
  "length (snd (follow_redirects_with_guard_allowance_loopback net start cidrs allow_loopback build)) \<le> 6"
  using hops_bounded [OF prod.collapse [symmetric]]
  by (force simp: follow_redirects_with_guard_allowance_loopback_def MAX_REDIRECT_HOPS_def intro: le_trans)

lemma send_bounded:
  "length (snd (send_post env ex k url body_with body_without)) \<le> 6"
  "length (snd (send_get env ex k url query)) \<le> 6"
  by (simp_all add: send_post_def send_get_def six_hops split: sum.splits)

text \<open>Replacing the credential getter changes nothing but the outcome of \<open>resolve_auth\<close>.\<close>

lemma getter_irrelevant [simp]:
  "base_host env (ex\<lparr>ex_credential_getter := g\<rparr>) = base_host env ex"
  "foreign env (ex\<lparr>ex_credential_getter := g\<rparr>) = foreign env ex"
  "build_envelope env (ex\<lparr>ex_credential_getter := g\<rparr>) = build_envelope env ex"
  "protocol_args (ex\<lparr>ex_credential_getter := g\<rparr>) = protocol_args ex"
proof -
  have e: "ex_manifest (ex\<lparr>ex_credential_getter := g\<rparr>) = ex_manifest ex"
    "ex_connection (ex\<lparr>ex_credential_getter := g\<rparr>) = ex_connection ex" by simp_all
  show "base_host env (ex\<lparr>ex_credential_getter := g\<rparr>) = base_host env ex"
    "foreign env (ex\<lparr>ex_credential_getter := g\<rparr>) = foreign env ex"
    "build_envelope env (ex\<lparr>ex_credential_getter := g\<rparr>) = build_envelope env ex"
    "protocol_args (ex\<lparr>ex_credential_getter := g\<rparr>) = protocol_args ex"
    unfolding fun_eq_iff base_host_def foreign_def endpoint_def build_envelope_def protocol_args_def e by blast+
qed

lemma network_irrelevant [simp]:
  "base_host (env\<lparr>he_net := (he_net env)\<lparr>nt_lookup := l, nt_send := s\<rparr>\<rparr>) = base_host env"
  "foreign (env\<lparr>he_net := (he_net env)\<lparr>nt_lookup := l, nt_send := s\<rparr>\<rparr>) = foreign env"
  "build_envelope (env\<lparr>he_net := (he_net env)\<lparr>nt_lookup := l, nt_send := s\<rparr>\<rparr>) = build_envelope env"
proof -
  let ?env = "env\<lparr>he_net := (he_net env)\<lparr>nt_lookup := l, nt_send := s\<rparr>\<rparr>"
  have e: "nt_url_parse (he_net ?env) = nt_url_parse (he_net env)" "he_show ?env = he_show env" by simp_all
  show "base_host ?env = base_host env" "foreign ?env = foreign env" "build_envelope ?env = build_envelope env"
    unfolding fun_eq_iff base_host_def foreign_def hop_host_matches_def build_envelope_def e by blast+
qed

section \<open>The request without a credential\<close>

definition envelope_body :: "http_env \<Rightarrow> HttpExecutor \<Rightarrow> ProtocolSpec \<Rightarrow> string \<Rightarrow> string \<Rightarrow> json \<Rightarrow> json \<Rightarrow> string" where
  "envelope_body env ex proto model method args kwargs =
     (case build_envelope env ex proto model method args kwargs None of Inr b \<Rightarrow> b | Inl _ \<Rightarrow> '''')"

definition secretless_call_body :: "http_env \<Rightarrow> HttpExecutor \<Rightarrow> string \<Rightarrow> json \<Rightarrow> string" where
  "secretless_call_body env ex op params =
     (case mf_protocol (ex_manifest ex) of
        None \<Rightarrow> he_show env (JObj [(''op'', JStr op), (''params'', params)])
      | Some proto \<Rightarrow>
          (case protocol_args ex proto op params of
             Inl _ \<Rightarrow> ''''
           | Inr (model, method, args) \<Rightarrow>
               envelope_body env ex proto model method args
                 (JObj [(''context'', case pt_context proto of Some c \<Rightarrow> c | None \<Rightarrow> JObj [])])))"

definition secretless_read :: "http_env \<Rightarrow> HttpExecutor \<Rightarrow> string \<Rightarrow> string \<Rightarrow> string option \<Rightarrow> string option \<Rightarrow> ustr
    \<Rightarrow> HttpRequest" where
  "secretless_read env ex op correlation_ref model_hint id_hint url =
     (case mf_protocol (ex_manifest ex) of
        None \<Rightarrow> plain_get url [(''op'', op), (''correlation_ref'', correlation_ref)]
      | Some proto \<Rightarrow>
          (case read_back_model (ex_manifest ex) op model_hint of
             Inl _ \<Rightarrow> plain_post url ''''
           | Inr model \<Rightarrow>
               plain_post url
                 (envelope_body env ex proto model ''search_read''
                    (build_domain id_hint (correlation_field_for (ex_manifest ex) model) correlation_ref)
                    (build_kwargs (pt_context proto) (pt_readback proto)))))"

lemma send_envelope_sent:
  assumes "(u, h, a, q) \<in> set (snd (send_envelope env ex proto model meth args kwargs))"
  obtains auth base body_with where "resolve_auth ex 1 = Inr auth" "base_host env ex = Inr base"
    "q = post_request env auth base body_with (envelope_body env ex proto model meth args kwargs) u"
  using assms unfolding send_envelope_def envelope_body_def
  by (auto split: sum.splits elim!: send_post_sent)

lemma call_protocol_snd:
  "snd (call_protocol env ex proto op params) =
     (case protocol_args ex proto op params of
        Inl _ \<Rightarrow> []
      | Inr (model, meth, args) \<Rightarrow>
          snd (send_envelope env ex proto model meth args
                 (JObj [(''context'', case pt_context proto of Some c \<Rightarrow> c | None \<Rightarrow> JObj [])])))"
  by (simp add: call_protocol_def Let_def split: sum.split prod.split)

lemma call_protocol_sent:
  assumes "x \<in> set (snd (call_protocol env ex proto op params))"
  obtains model meth args where "protocol_args ex proto op params = Inr (model, meth, args)"
    "x \<in> set (snd (send_envelope env ex proto model meth args
            (JObj [(''context'', case pt_context proto of Some c \<Rightarrow> c | None \<Rightarrow> JObj [])])))"
  using assms by (cases "protocol_args ex proto op params") (auto simp: call_protocol_snd)

lemma foreign_base: "base_host env ex = Inr base \<Longrightarrow> foreign env ex u \<longleftrightarrow> \<not> hop_host_matches env u base"
  by (simp add: foreign_def)

lemma generic_call_sent:
  "mf_protocol (ex_manifest ex) = None \<Longrightarrow> snd (call env ex kill op params) =
     (if kill then []
      else let body = he_show env (JObj [(''op'', JStr op), (''params'', params)])
           in snd (send_post env ex 0 (endpoint ex) body body))"
  by (simp add: call_def Let_def split: prod.split sum.split)

lemma foreign_call:
  assumes "(u, h, a, q) \<in> set (snd (call env ex kill op params))" and "foreign env ex u"
  shows "q = plain_post u (secretless_call_body env ex op params)"
proof (cases "mf_protocol (ex_manifest ex)")
  case None
  let ?body = "he_show env (JObj [(''op'', JStr op), (''params'', params)])"
  have "(u, h, a, q) \<in> set (snd (send_post env ex 0 (endpoint ex) ?body ?body))"
    using assms(1) None by (simp add: generic_call_sent Let_def split: if_splits)
  then show ?thesis
    using assms(2) None by (auto simp: secretless_call_body_def foreign_base foreign_post elim!: send_post_sent)
next
  case (Some proto)
  then have "(u, h, a, q) \<in> set (snd (call_protocol env ex proto op params))"
    using assms(1) by (auto simp: call_def split: if_splits)
  then show ?thesis
    using assms(2) Some
    by (auto simp: secretless_call_body_def foreign_base foreign_post elim!: call_protocol_sent send_envelope_sent)
qed

lemma foreign_read:
  assumes "(u, h, a, q) \<in> set (snd (read_back env ex op cref model_hint id_hint))" and "foreign env ex u"
  shows "q = secretless_read env ex op cref model_hint id_hint u"
proof (cases "mf_protocol (ex_manifest ex)")
  case None
  have "(u, h, a, q) \<in> set (snd (send_get env ex 0 (endpoint ex) [(''op'', op), (''correlation_ref'', cref)]))"
    using assms(1) None by (auto simp: read_back_def split: prod.splits sum.splits)
  then show ?thesis
    using assms(2) None by (auto simp: secretless_read_def foreign_base foreign_get elim!: send_get_sent)
next
  case (Some proto)
  then have "(u, h, a, q) \<in> set (snd (read_back_protocol env ex proto op cref model_hint id_hint))"
    using assms(1) by (simp add: read_back_def)
  then obtain model where "read_back_model (ex_manifest ex) op model_hint = Inr model"
    and "(u, h, a, q) \<in> set (snd (send_envelope env ex proto model ''search_read''
           (build_domain id_hint (correlation_field_for (ex_manifest ex) model) cref)
           (build_kwargs (pt_context proto) (pt_readback proto))))"
    by (auto simp: read_back_protocol_def Let_def split: sum.splits prod.splits option.splits)
  then show ?thesis
    using assms(2) Some by (auto simp: secretless_read_def foreign_base foreign_post elim!: send_envelope_sent)
qed

lemma secretless_independent:
  "secretless_call_body (env\<lparr>he_net := (he_net env)\<lparr>nt_lookup := l, nt_send := s\<rparr>\<rparr>) (ex\<lparr>ex_credential_getter := g\<rparr>) =
     secretless_call_body env ex"
  "secretless_read (env\<lparr>he_net := (he_net env)\<lparr>nt_lookup := l, nt_send := s\<rparr>\<rparr>) (ex\<lparr>ex_credential_getter := g\<rparr>) =
     secretless_read env ex"
proof -
  let ?env = "env\<lparr>he_net := (he_net env)\<lparr>nt_lookup := l, nt_send := s\<rparr>\<rparr>" and ?ex = "ex\<lparr>ex_credential_getter := g\<rparr>"
  have e: "ex_manifest ?ex = ex_manifest ex" "he_show ?env = he_show env" by simp_all
  show "secretless_call_body ?env ?ex = secretless_call_body env ex" "secretless_read ?env ?ex = secretless_read env ex"
    unfolding fun_eq_iff secretless_call_body_def secretless_read_def envelope_body_def getter_irrelevant
      network_irrelevant e by blast+
qed

fun carries :: "(ResolvedAuthScheme \<times> string) option \<Rightarrow> HttpRequest \<Rightarrow> bool" where
  "carries None q \<longleftrightarrow> True"
| "carries (Some (Bearer, secret)) q \<longleftrightarrow> (''authorization'', ''Bearer '' @ secret) \<in> set (hr_headers q)"
| "carries (Some (Header name, secret)) q \<longleftrightarrow> (name, secret) \<in> set (hr_headers q)"
| "carries (Some (QueryParam name, secret)) q \<longleftrightarrow> (name, secret) \<in> set (hr_query q)"

lemma home_post:
  "hop_host_matches env url base \<Longrightarrow> carries auth (post_request env auth base body_with body_without url)"
  by (cases auth; cases "fst (the auth)") (auto simp: post_request_def Let_def)

lemma home_call:
  assumes "(u, h, a, q) \<in> set (snd (call env ex kill op params))" and "\<not> foreign env ex u"
  shows "\<exists>k auth. resolve_auth ex k = Inr auth \<and> carries auth q"
proof -
  have post: "\<exists>k auth. resolve_auth ex k = Inr auth \<and> carries auth q"
    if "(u, h, a, q) \<in> set (snd (send_post env ex k url body_with body_without))" for k url body_with body_without
    using that assms(2) by (elim send_post_sent) (metis foreign_base home_post)
  have envelope: "\<exists>k auth. resolve_auth ex k = Inr auth \<and> carries auth q"
    if "(u, h, a, q) \<in> set (snd (send_envelope env ex proto model meth args kwargs))"
    for proto model meth args kwargs
    using that assms(2) by (elim send_envelope_sent) (metis foreign_base home_post)
  show ?thesis
  proof (cases "mf_protocol (ex_manifest ex)")
    case None
    then show ?thesis
      using assms(1) by (intro post) (simp add: generic_call_sent Let_def split: if_splits)
  next
    case (Some proto)
    then show ?thesis
      using assms(1) envelope by (auto simp: call_def split: if_splits elim!: call_protocol_sent)
  qed
qed

lemma no_credential_no_request:
  assumes "\<forall>k. isl (resolve_auth ex k)"
  shows "isl (fst (call env ex kill op params)) \<and> snd (call env ex kill op params) = []"
    and "isl (fst (read_back env ex op cref model_hint id_hint)) \<and> snd (read_back env ex op cref model_hint id_hint) = []"
proof -
  obtain e where e: "resolve_auth ex k = Inl (e k)" for k using assms unfolding isl_def by metis
  have "send_post env ex k url bw bwo = (Inl (e k), [])" "send_get env ex k url query = (Inl (e k), [])"
    "send_envelope env ex proto model meth args kwargs = (Inl (e 0), [])"
    for k url bw bwo query proto model meth args kwargs
    by (simp_all add: send_post_def send_get_def send_envelope_def e)
  then show "isl (fst (call env ex kill op params)) \<and> snd (call env ex kill op params) = []"
    and "isl (fst (read_back env ex op cref model_hint id_hint)) \<and> snd (read_back env ex op cref model_hint id_hint) = []"
    by (simp_all add: call_def call_protocol_def read_back_def read_back_protocol_def Let_def split: option.split sum.split)
qed

lemma call_bounded: "length (snd (call env ex kill op params)) \<le> 6"
proof -
  have "length (snd (send_envelope env ex proto model meth args kwargs)) \<le> 6" for proto model meth args kwargs
    by (simp add: send_envelope_def send_bounded split: sum.split)
  moreover have "length (snd (send_post env ex k url bw bwo)) \<le> 6" for k url bw bwo by (rule send_bounded)
  ultimately have "length (snd (call_protocol env ex proto op params)) \<le> 6" for proto
    by (simp add: call_protocol_snd split: sum.split prod.split)
  then show ?thesis
    by (cases "mf_protocol (ex_manifest ex)") (simp_all add: generic_call_sent Let_def send_bounded, simp add: call_def)
qed

section \<open>A redirected call\<close>

definition sample_exec :: "string \<Rightarrow> HttpExecutor" where
  "sample_exec secret =
     \<lparr>ex_manifest =
        \<lparr>mf_connector_name = ''c'', mf_version = ''1'', mf_base_url = ''erp'', mf_allowed_ip_cidrs = [],
         mf_ops = [\<lparr>os_name = ''w'', os_model = Some ''m'', os_method = Some ''write'', os_risk_tier = None,
                    os_compensability = None, os_compensation = None, os_correlation_field = None\<rparr>],
         mf_auth = Some \<lparr>au_scheme = ''bearer'', au_cred_ref = ''k'', au_header_name = None, au_param_name = None\<rparr>,
         mf_protocol = Some (protocol_default\<lparr>pt_envelope := Some (JObj [(''k'', JStr ''{{key}}'')])\<rparr>)\<rparr>,
      ex_credential_getter = Some (\<lambda>k r. Some (Some secret)), ex_connection = None, ex_allow_loopback = False\<rparr>"

definition sample_http :: http_env where
  "sample_http =
     \<lparr>he_net =
        \<lparr>nt_url_parse = (\<lambda>u. Some \<lparr>u_scheme = lit ''http'', u_host_str = Some u, u_port_or_known_default = Some 80\<rparr>),
         nt_join = (\<lambda>u l. Some l), nt_parse_ip = (\<lambda>h. None),
         nt_lookup = (\<lambda>n a. Some [if a = lit ''erp:80'' then V4 93 184 216 34 else V4 8 8 8 8]),
         nt_send = (\<lambda>n u a q. Some (if n = 0 then \<lparr>rs_status = 302, rs_location = Some sample_evil, rs_body = []\<rparr>
                                    else \<lparr>rs_status = 200, rs_location = None, rs_body = []\<rparr>))\<rparr>,
      he_query_pairs = (\<lambda>u. []), he_with_query = (\<lambda>u q. u), he_text = (\<lambda>r. Some ''''), he_from_str = (\<lambda>s. None),
      he_show = (\<lambda>v. case v of JObj ((k, JStr s) # _) \<Rightarrow> s | _ \<Rightarrow> '''')\<rparr>"

lemma sample_redirected_call:
  "snd (call sample_http (sample_exec ''s3'') False ''w'' (JObj [])) =
     [(sample_erp, sample_erp, (V4 93 184 216 34, 80),
        \<lparr>hr_method = ''POST'', hr_target = sample_erp,
         hr_headers = [(''content-type'', ''application/json''), (''authorization'', ''Bearer s3'')], hr_query = [],
         hr_body = Some ''s3''\<rparr>),
      (sample_evil, sample_evil, (V4 8 8 8 8, 80), plain_post sample_evil '''')]"
  by code_simp

section \<open>Guarantees\<close>

text \<open>
  Property C14: a connector's credential goes to the connector's own host only. Take two executors that differ
  in nothing but where they get the credential, on networks that answer DNS queries and requests
  differently. Whenever both send a request to the same URL of another host, during a call or during a
  read-back and at whatever hop of a redirect chain, the two requests are the same in every byte: no header,
  query parameter or part of the body depends on the credential. The request is for the URL as it is and has
  at most the content type as a header.
\<close>

theorem connector_credentials_confined:
  assumes "foreign env ex u"
    and "env' = env\<lparr>he_net := (he_net env)\<lparr>nt_lookup := l, nt_send := s\<rparr>\<rparr>"
    and "ex' = ex\<lparr>ex_credential_getter := g\<rparr>"
    and "(u, h, a, q) \<in> set (snd (call env ex kill op params)) \<and>
         (u, h', a', q') \<in> set (snd (call env' ex' kill' op params)) \<or>
         (u, h, a, q) \<in> set (snd (read_back env ex op cref model_hint id_hint)) \<and>
         (u, h', a', q') \<in> set (snd (read_back env' ex' op cref model_hint id_hint))"
  shows "q = q' \<and> hr_target q = u \<and> set (hr_headers q) \<subseteq> {(''content-type'', ''application/json'')}"
  using assms(4)
proof
  have f: "foreign env' ex' u" using assms(1-3) by simp
  {
    assume c: "(u, h, a, q) \<in> set (snd (call env ex kill op params)) \<and>
        (u, h', a', q') \<in> set (snd (call env' ex' kill' op params))"
    from foreign_call [OF c [THEN conjunct1] assms(1)] foreign_call [OF c [THEN conjunct2] f]
    show ?thesis by (simp add: assms(2,3) secretless_independent plain_post_def)
  next
    assume c: "(u, h, a, q) \<in> set (snd (read_back env ex op cref model_hint id_hint)) \<and>
        (u, h', a', q') \<in> set (snd (read_back env' ex' op cref model_hint id_hint))"
    from foreign_read [OF c [THEN conjunct1] assms(1)] foreign_read [OF c [THEN conjunct2] f]
    show ?thesis
      by (auto simp: assms(2,3) secretless_independent secretless_read_def plain_post_def plain_get_def
          split: option.splits sum.splits)
  }
qed

theorem connector_credentials_confined_witness:
  "(sample_evil, sample_evil, (V4 8 8 8 8, 80), plain_post sample_evil '''')
     \<in> set (snd (call sample_http (sample_exec ''s3'') False ''w'' (JObj []))) \<and>
   hr_target (plain_post sample_evil '''') = sample_evil"
proof -
  have env: "sample_http = sample_http\<lparr>he_net := (he_net sample_http)\<lparr>nt_lookup := nt_lookup (he_net sample_http),
      nt_send := nt_send (he_net sample_http)\<rparr>\<rparr>" by simp
  have ex: "sample_exec ''s3'' = (sample_exec ''s3'')\<lparr>ex_credential_getter := ex_credential_getter (sample_exec ''s3'')\<rparr>"
    by simp
  have f: "foreign sample_http (sample_exec ''s3'') sample_evil" by code_simp
  have m: "(sample_evil, sample_evil, (V4 8 8 8 8, 80), plain_post sample_evil '''')
      \<in> set (snd (call sample_http (sample_exec ''s3'') False ''w'' (JObj [])))"
    by (simp add: sample_redirected_call)
  from connector_credentials_confined [OF f env ex disjI1 [OF conjI [OF m m]]] m show ?thesis by simp
qed

text \<open>The manifest declares a credential, and it cannot be had: an unknown scheme, no source, or a source without the secret.\<close>

definition credential_missing :: "HttpExecutor \<Rightarrow> bool" where
  "credential_missing ex \<longleftrightarrow>
     (case mf_auth (ex_manifest ex) of
        None \<Rightarrow> False
      | Some auth \<Rightarrow>
          isl (auth_resolve auth) \<or>
          (case ex_credential_getter ex of
             None \<Rightarrow> True
           | Some getter \<Rightarrow> \<forall>k cred_ref. getter k cred_ref \<in> {None, Some None, Some (Some [])}))"

lemma credential_missing_fails:
  assumes "credential_missing ex"
  shows "isl (resolve_auth ex k)"
proof -
  obtain auth where auth: "mf_auth (ex_manifest ex) = Some auth"
    using assms by (auto simp: credential_missing_def split: option.splits)
  let ?c = "case ex_connection ex of None \<Rightarrow> au_cred_ref auth | Some overlay \<Rightarrow> effective_cred_ref overlay (au_cred_ref auth)"
  show ?thesis
  proof (cases "isl (auth_resolve auth) \<or> ex_credential_getter ex = None")
    case True
    then show ?thesis by (auto simp: resolve_auth_def Let_def auth isl_def split: sum.split)
  next
    case False
    then obtain getter scheme where g: "ex_credential_getter ex = Some getter" "auth_resolve auth = Inr scheme"
      by (auto simp: isl_def) (meson sum.exhaust_sel)
    then have "getter k ?c \<in> {None, Some None, Some (Some [])}"
      using assms by (simp add: credential_missing_def auth)
    then show ?thesis by (elim insertE emptyE) (simp_all add: resolve_auth_def Let_def auth g)
  qed
qed

lemma declared_credential_used: "resolve_auth ex k = Inr auth \<Longrightarrow> mf_auth (ex_manifest ex) \<noteq> None \<Longrightarrow> auth \<noteq> None"
  by (auto simp: resolve_auth_def Let_def split: option.splits sum.splits if_splits)

text \<open>
  Property C34: a connector's call fails closed. With the kill switch on it sends nothing and reports so. When
  the manifest declares a credential that cannot be had, it fails without a request, and so does a read-back.
  Otherwise it makes at most six requests, and every one to the connector's own host carries the credential
  in the form the manifest declares.
\<close>

theorem connector_call_fails_closed:
  "case call env ex kill op params of
     (r, sent) \<Rightarrow>
       (kill \<longrightarrow> r = Inl (KillEngaged op) \<and> sent = []) \<and>
       (credential_missing ex \<longrightarrow>
          isl r \<and> sent = [] \<and> snd (read_back env ex op cref model_hint id_hint) = []) \<and>
       length sent \<le> 6 \<and>
       (\<forall>(u, h, a, q) \<in> set sent.
          foreign env ex u \<or>
          (\<exists>k auth. resolve_auth ex k = Inr auth \<and> carries auth q \<and> (mf_auth (ex_manifest ex) \<noteq> None \<longrightarrow> auth \<noteq> None)))"
proof (cases "call env ex kill op params")
  case (Pair r sent)
  have "kill \<longrightarrow> r = Inl (KillEngaged op) \<and> sent = []" using Pair by (auto simp: call_def)
  moreover have "\<forall>(u, h, a, q) \<in> set sent.
      foreign env ex u \<or>
      (\<exists>k auth. resolve_auth ex k = Inr auth \<and> carries auth q \<and> (mf_auth (ex_manifest ex) \<noteq> None \<longrightarrow> auth \<noteq> None))"
    using declared_credential_used home_call [where env = env and ex = ex and kill = kill and op = op and params = params] Pair by fastforce
  ultimately show ?thesis
    using no_credential_no_request(1) [where ex = ex and env = env and kill = kill and op = op and params = params]
      no_credential_no_request(2) [where ex = ex and env = env and op = op and cref = cref and model_hint = model_hint
        and id_hint = id_hint]
      call_bounded [of env ex kill op params]
    by (simp add: Pair credential_missing_fails)
qed

theorem connector_call_fails_closed_witness:
  "snd (call sample_http (sample_exec ''s3'') True ''w'' (JObj [])) = [] \<and>
   snd (call sample_http (sample_exec '''') False ''w'' (JObj [])) = []"
proof -
  have "credential_missing (sample_exec '''')" by (simp add: credential_missing_def sample_exec_def auth_resolve_def)
  then show ?thesis
    using connector_call_fails_closed [where env = sample_http and ex = "sample_exec ''s3''" and kill = True
        and op = "''w''" and params = "JObj []"]
      connector_call_fails_closed [where env = sample_http and ex = "sample_exec ''''" and kill = False
        and op = "''w''" and params = "JObj []"]
    by (simp add: case_prod_unfold)
qed

end
