(* ===== verification/ConnectorWrite.thy ===== *)
theory ConnectorWrite
  imports ConnectorHttp
begin

text \<open>
  A connector's journaled write (\<open>HttpConnectorTool\<close> of
  \<open>crates/haily-tools/src/connector/http_connector_tool.rs\<close>): the plan that would undo it, the outbox row, the
  second look at the kill switch, the call and its verification. The connector (\<open>executor.rs\<close>) is a record of
  its operations, which answer by the number of the question; \<open>None\<close> is a transport error. Next to its result an
  execution yields the database and the operations of the connector it used, each call with the database it
  was made on.
\<close>

section \<open>Connectors\<close>

record ConnectorExecutor =
  ce_call :: "string \<Rightarrow> json \<Rightarrow> ExecOutcome option"
  ce_read_back :: "nat \<Rightarrow> string \<Rightarrow> string \<Rightarrow> string option \<Rightarrow> string option \<Rightarrow> json option"
  ce_resolved_secret :: "nat \<Rightarrow> string option"

text \<open>Texts of JSON values, and the rounding of decimal numbers to doubles.\<close>

record text_env =
  te_show :: "json \<Rightarrow> string"
  te_column :: "string \<Rightarrow> json_text"
  te_round :: "int \<Rightarrow> int \<Rightarrow> f64"

record HttpConnectorTool =
  ct_op :: OpSpec
  ct_cred_ref :: string
  ct_manifest_hash :: string

record tool_context =
  tc_session_id :: string
  tc_turn_id :: string
  tc_new_id :: string
  tc_now :: string
  tc_retention_expires_at :: string
  tc_new_uuid :: string

datatype conn_event =
    ReadState string string "string option"
  | WriteCall string json Db

section \<open>The plan of an undo\<close>

definition params_target_id :: "json \<Rightarrow> string option" where
  "params_target_id params =
     (case Option.bind (jget params ''ids'') as_array of
        Some (first # _) \<Rightarrow> id_text first
      | _ \<Rightarrow> Option.bind (jget params ''id'') id_text)"

fun sanitize_restored_value :: "string option \<Rightarrow> json \<Rightarrow> json" where
  "sanitize_restored_value secret (JStr s) = JStr (sanitize_third_party_body s secret)"
| "sanitize_restored_value secret (JArr vs) = JArr (map (sanitize_restored_value secret) vs)"
| "sanitize_restored_value secret (JObj flds) = JObj (map (\<lambda>(k, v). (k, sanitize_restored_value secret v)) flds)"
| "sanitize_restored_value secret v = v"

definition restore_values :: "json \<Rightarrow> json option \<Rightarrow> string option \<Rightarrow> json option" where
  "restore_values params pre_state secret =
     (case pre_state of
        None \<Rightarrow> None
      | Some pre \<Rightarrow>
          (case Option.bind (jget params ''values'') as_object of
             None \<Rightarrow> None
           | Some written \<Rightarrow>
               (let vals = List.map_filter
                      (\<lambda>(key, _). map_option (\<lambda>prev. (key, sanitize_restored_value secret prev)) (jget pre key)) written
                in if vals = [] then None else Some (JObj vals))))"

definition add_target :: "json \<Rightarrow> string option \<Rightarrow> (string \<times> json) list \<Rightarrow> (string \<times> json) list" where
  "add_target params returned_id flds =
     (case returned_id of
        Some i \<Rightarrow> obj_or_insert ''id'' (case parse_i64 i of Some n \<Rightarrow> JNum n | None \<Rightarrow> JStr i) flds
      | None \<Rightarrow>
          if map_of flds ''ids'' = None \<and> map_of flds ''id'' = None
          then (case jget params ''ids'' of
                  Some ids \<Rightarrow> obj_insert ''ids'' ids flds
                | None \<Rightarrow> (case jget params ''id'' of Some i \<Rightarrow> obj_insert ''id'' i flds | None \<Rightarrow> flds))
          else flds)"

definition add_values :: "json \<Rightarrow> json option \<Rightarrow> string option \<Rightarrow> (string \<times> json) list \<Rightarrow> (string \<times> json) list" where
  "add_values params pre_state secret flds =
     (if Option.bind (map_of flds ''op'') as_str = Some ''write'' \<and> map_of flds ''values'' = None
      then (case restore_values params pre_state secret of
              Some vals \<Rightarrow> obj_insert ''values'' vals flds | None \<Rightarrow> flds)
      else flds)"

definition compensation_plan :: "OpSpec \<Rightarrow> json \<Rightarrow> json option \<Rightarrow> string option \<Rightarrow> string option \<Rightarrow> json option" where
  "compensation_plan op params pre_state returned_id secret =
     map_option (\<lambda>flds. JObj (add_values params pre_state secret (add_target params returned_id flds)))
       (Option.bind (os_compensation op) as_object)"

section \<open>The write\<close>

definition summarize_body :: "text_env \<Rightarrow> json \<Rightarrow> string option \<Rightarrow> string" where
  "summarize_body te body secret = strip_text (take 512 (redact_secret_value (te_show te body) secret))"

definition connector_fields_match :: "text_env \<Rightarrow> json \<Rightarrow> json \<Rightarrow> bool" where
  "connector_fields_match te params body =
     request_fields_match (te_round te) (case jget params ''values'' of Some v \<Rightarrow> v | None \<Rightarrow> params) body"

fun risk_tier_str :: "RiskTier \<Rightarrow> string" where
  "risk_tier_str Read = ''Read''"
| "risk_tier_str ReversibleWrite = ''ReversibleWrite''"
| "risk_tier_str IrreversibleWrite = ''IrreversibleWrite''"
| "risk_tier_str Blocked = ''Blocked''"

text \<open>The parameters of the write with the reference by which the record can be found again.\<close>

definition write_params :: "string \<Rightarrow> json \<Rightarrow> json \<times> string" where
  "write_params new_uuid args =
     (let params = (case jget args ''params'' of Some p \<Rightarrow> p | None \<Rightarrow> args)
      in case Option.bind (jget params ''correlation_ref'') as_str of
           Some r \<Rightarrow> (params, r)
         | None \<Rightarrow>
             (case params of
                JObj flds \<Rightarrow> JObj (obj_insert ''correlation_ref'' (JStr new_uuid) flds) | v \<Rightarrow> v, new_uuid))"

text \<open>The state before the write: the body read, its text for the journal and its version.\<close>

definition pre_write_state :: "text_env \<Rightarrow> ConnectorExecutor \<Rightarrow> OpSpec \<Rightarrow> json \<Rightarrow> string
    \<Rightarrow> (json option \<times> json_text option \<times> string option) \<times> conn_event list" where
  "pre_write_state te ce op params correlation_ref =
     (if op_is_create op then ((None, None, None), [])
      else
        (let ev = [ReadState (os_name op) correlation_ref (params_target_id params)]
         in case ce_read_back ce 0 (os_name op) correlation_ref None (params_target_id params) of
              None \<Rightarrow> ((None, None, None), ev)
            | Some body \<Rightarrow>
                ((Some body,
                  Some (te_column te (sanitize_third_party_body (te_show te body) (ce_resolved_secret ce 0))),
                  Option.bind (jget body ''write_date'') as_str), ev)))"

definition outbox_action :: "text_env \<Rightarrow> HttpConnectorTool \<Rightarrow> tool_context \<Rightarrow> json \<Rightarrow> string \<Rightarrow> json_text option
    \<Rightarrow> string option \<Rightarrow> json option \<Rightarrow> NewAction" where
  "outbox_action te tool ctx params correlation_ref pre_state version plan =
     \<lparr>na_session_id = tc_session_id ctx, na_tool_name = os_name (ct_op tool),
      na_tool_tier = risk_tier_str (op_risk_tier (ct_op tool)), na_compensability = compensability_str (ct_op tool),
      na_idempotency_key = os_name (ct_op tool) @ '':'' @ correlation_ref, na_correlation_ref = correlation_ref,
      na_request_params = te_show te (redact_secrets (ct_cred_ref tool) params), na_pre_state = pre_state,
      na_pre_state_version = version, na_compensation_plan = map_option Text_of plan,
      na_turn_id = Some (tc_turn_id ctx), na_retention_expires_at = tc_retention_expires_at ctx,
      na_manifest_hash = Some (ct_manifest_hash tool)\<rparr>"

text \<open>Reading the record after the write: the status, the summary and the version to journal.\<close>

definition verify_write :: "text_env \<Rightarrow> ConnectorExecutor \<Rightarrow> OpSpec \<Rightarrow> json \<Rightarrow> string \<Rightarrow> string option
    \<Rightarrow> string \<times> string option \<times> string option" where
  "verify_write te ce op params correlation_ref post_id =
     (case ce_read_back ce 1 (os_name op) correlation_ref None post_id of
        None \<Rightarrow> (''unverified'', None, None)
      | Some body \<Rightarrow>
          (if connector_fields_match te params body then ''match'' else ''mismatch'',
           Some (summarize_body te body (ce_resolved_secret ce 2)),
           if op_is_create op then None else Option.bind (jget body ''write_date'') as_str))"

datatype write_error = JournalFailed db_error | KillBlocked | TransportError | Faulted string "string option"

text \<open>What follows the call: the fault, or the id in a create's plan, and the verification.\<close>

definition after_call :: "text_env \<Rightarrow> HttpConnectorTool \<Rightarrow> ConnectorExecutor \<Rightarrow> json \<Rightarrow> string \<Rightarrow> string \<Rightarrow> Db
    \<Rightarrow> ExecOutcome \<Rightarrow> (write_error + string \<times> string option) \<times> Db \<times> conn_event list" where
  "after_call te tool ce params correlation_ref row_id db outcome =
     (case outcome of
        Fault fault_string code name \<Rightarrow>
          (let summary = sanitize_third_party_body fault_string (ce_resolved_secret ce 2)
           in (Inl (Faulted summary code), set_readback row_id ''mismatch'' (Some summary) db, []))
      | ExecOk returned_id body \<Rightarrow>
          (let db1 = (if op_is_create (ct_op tool) \<and> returned_id \<noteq> None
                      then (case compensation_plan (ct_op tool) params None returned_id None of
                              Some plan \<Rightarrow> update_compensation_plan row_id (Text_of plan) db | None \<Rightarrow> db)
                      else db);
               post_id = (case returned_id of Some i \<Rightarrow> Some i | None \<Rightarrow> params_target_id params);
               (status, summary, version) = verify_write te ce (ct_op tool) params correlation_ref post_id;
               db2 = set_readback row_id status summary db1;
               db3 = (case version of Some v \<Rightarrow> set_post_state_version row_id v db2 | None \<Rightarrow> db2)
           in (Inr (status, returned_id), db3, [ReadState (os_name (ct_op tool)) correlation_ref post_id])))"

definition connector_execute :: "text_env \<Rightarrow> HttpConnectorTool \<Rightarrow> ConnectorExecutor \<Rightarrow> bool \<Rightarrow> tool_context \<Rightarrow> Db \<Rightarrow> json
    \<Rightarrow> (write_error + string \<times> string option) \<times> Db \<times> conn_event list" where
  "connector_execute te tool ce kill ctx db args =
     (let op = ct_op tool;
          (params, correlation_ref) = write_params (tc_new_uuid ctx) args;
          ((body, pre_state, version), evs) = pre_write_state te ce op params correlation_ref;
          plan = compensation_plan op params body None (ce_resolved_secret ce 1)
      in case insert_via db (tc_new_id ctx) (tc_now ctx)
                (outbox_action te tool ctx params correlation_ref pre_state version plan) None None of
           Inl e \<Rightarrow> (Inl (JournalFailed e), db, evs)
         | Inr (r, db1) \<Rightarrow>
             if kill then (Inl KillBlocked, set_readback (j_id r) ''skipped'' None db1, evs)
             else
               (let evs' = evs @ [WriteCall (os_name op) params db1]
                in case ce_call ce (os_name op) params of
                     None \<Rightarrow> (Inl TransportError, db1, evs')
                   | Some outcome \<Rightarrow>
                       (let (res, db2, evs2) = after_call te tool ce params correlation_ref (j_id r) db1 outcome
                        in (res, db2, evs' @ evs2))))"

section \<open>The journal of a write\<close>

fun is_write_call :: "conn_event \<Rightarrow> bool" where
  "is_write_call (WriteCall _ _ _) \<longleftrightarrow> True"
| "is_write_call (ReadState _ _ _) \<longleftrightarrow> False"

lemma insert_via_row:
  assumes "insert_via db i now a workspace_id run_id = Inr (r, db1)"
  shows "j_id r = i" "get_by_id db1 i = Some r" "k \<noteq> i \<Longrightarrow> get_by_id db1 k = get_by_id db k"
    "j_readback_status r = ''pending''" "j_post_state r = None" "j_correlation_ref r = na_correlation_ref a"
    "j_session_id r = na_session_id a" "j_request_params r = na_request_params a"
    "j_compensation_plan r = na_compensation_plan a" "j_pre_state r = na_pre_state a" "j_turn_id r = na_turn_id a"
    "j_undo_status r = ''not_requested''" "j_post_state_version r = None"
proof -
  have fresh: "find (\<lambda>r. j_id r = i) (db_journal db) = None"
    using assms by (auto simp: insert_via_def find_None_iff split: if_splits)
  have app: "find P (xs @ [y]) = (case find P xs of Some x \<Rightarrow> Some x | None \<Rightarrow> if P y then Some y else None)"
    for P :: "JournalRow \<Rightarrow> bool" and xs y by (induction xs) auto
  show "j_id r = i" "get_by_id db1 i = Some r" "k \<noteq> i \<Longrightarrow> get_by_id db1 k = get_by_id db k"
    "j_readback_status r = ''pending''" "j_post_state r = None" "j_correlation_ref r = na_correlation_ref a"
    "j_session_id r = na_session_id a" "j_request_params r = na_request_params a"
    "j_compensation_plan r = na_compensation_plan a" "j_pre_state r = na_pre_state a" "j_turn_id r = na_turn_id a"
    "j_undo_status r = ''not_requested''" "j_post_state_version r = None"
    using assms fresh by (auto simp: insert_via_def get_by_id_def app Let_def split: if_splits option.split)
qed

lemma pre_write_reads: "snd (pre_write_state te ce op params cref) = (if op_is_create op then []
    else [ReadState (os_name op) cref (params_target_id params)])"
  by (simp add: pre_write_state_def Let_def split: option.split)

lemma after_call_reads: "x \<in> set (snd (snd (after_call te tool ce params cref i db outcome))) \<Longrightarrow> \<not> is_write_call x"
  by (auto simp: after_call_def Let_def split: ExecOutcome.splits prod.splits)

text \<open>What the journal says of the row after the write.\<close>

definition row_status :: "Db \<Rightarrow> string \<Rightarrow> string option" where
  "row_status db i = map_option j_readback_status (get_by_id db i)"

lemma row_status_simps [simp]:
  "row_status (set_readback i st po db) k =
     (if k = i then map_option (\<lambda>_. st) (get_by_id db i) else row_status db k)"
  "row_status (set_post_state_version i v db) k = row_status db k"
  "row_status (update_compensation_plan i p db) k = row_status db k"
  by (auto simp: row_status_def set_readback_def set_post_state_version_def update_compensation_plan_def
      get_by_id_update option.map_comp comp_def)

lemma after_call_row:
  assumes "after_call te tool ce params cref i db outcome = (res, db', evs)" and "get_by_id db i = Some r"
  shows "row_status db' i = Some (case res of Inr (status, _) \<Rightarrow> status | Inl _ \<Rightarrow> ''mismatch'')"
    and "k \<noteq> i \<Longrightarrow> get_by_id db' k = get_by_id db k"
    and "\<exists>r'. get_by_id db' i = Some r' \<and> j_id r' = j_id r \<and> j_request_params r' = j_request_params r \<and> j_pre_state r' = j_pre_state r"
    and "\<exists>e. res = Inl e \<Longrightarrow> \<exists>s code. res = Inl (Faulted s code)"
  using assms
  by (auto simp: after_call_def Let_def get_by_id_update set_readback_def set_post_state_version_def
      update_compensation_plan_def row_status_def split: ExecOutcome.splits prod.splits if_splits option.splits)

text \<open>
  The row of a write as its call finds it: pending, with the redacted parameters, the reference and the plan;
  the other rows as they were.
\<close>

definition outbox_row :: "text_env \<Rightarrow> HttpConnectorTool \<Rightarrow> ConnectorExecutor \<Rightarrow> tool_context \<Rightarrow> Db \<Rightarrow> json \<Rightarrow> Db \<Rightarrow> bool" where
  "outbox_row te tool ce ctx db args db1 \<longleftrightarrow>
     (let (params, cref) = write_params (tc_new_uuid ctx) args;
          body = fst (fst (pre_write_state te ce (ct_op tool) params cref))
      in (case get_by_id db1 (tc_new_id ctx) of
            None \<Rightarrow> False
          | Some r \<Rightarrow>
              j_id r = tc_new_id ctx \<and> j_readback_status r = ''pending'' \<and> j_session_id r = tc_session_id ctx \<and>
              j_correlation_ref r = cref \<and>
              j_request_params r = te_show te (redact_secrets (ct_cred_ref tool) params) \<and>
              j_compensation_plan r =
                map_option Text_of (compensation_plan (ct_op tool) params body None (ce_resolved_secret ce 1))) \<and>
         (\<forall>k. k \<noteq> tc_new_id ctx \<longrightarrow> get_by_id db1 k = get_by_id db k))"

lemma connector_execute_cases:
  assumes "connector_execute te tool ce kill ctx db args = (res, db', evs)"
  obtains
    (journal) e where "res = Inl (JournalFailed e)" "db' = db" "\<forall>x\<in>set evs. \<not> is_write_call x"
  | (stopped) db1 where "kill" "res = Inl KillBlocked" "db' = set_readback (tc_new_id ctx) ''skipped'' None db1"
      "outbox_row te tool ce ctx db args db1" "\<forall>x\<in>set evs. \<not> is_write_call x"
  | (lost) db1 evs1 where "\<not> kill" "res = Inl TransportError" "db' = db1" "outbox_row te tool ce ctx db args db1"
      "evs = evs1 @ [WriteCall (os_name (ct_op tool)) (fst (write_params (tc_new_uuid ctx) args)) db1]"
      "\<forall>x\<in>set evs1. \<not> is_write_call x"
  | (answered) db1 evs1 evs2 outcome params cref where "\<not> kill" "outbox_row te tool ce ctx db args db1"
      "write_params (tc_new_uuid ctx) args = (params, cref)"
      "after_call te tool ce params cref (tc_new_id ctx) db1 outcome = (res, db', evs2)"
      "evs = evs1 @ WriteCall (os_name (ct_op tool)) (fst (write_params (tc_new_uuid ctx) args)) db1 # evs2"
      "\<forall>x\<in>set (evs1 @ evs2). \<not> is_write_call x"
proof -
  obtain params cref where wp: "write_params (tc_new_uuid ctx) args = (params, cref)" by fastforce
  obtain body pre_state version evs1
    where pre: "pre_write_state te ce (ct_op tool) params cref = ((body, pre_state, version), evs1)"
    by (metis prod.exhaust)
  have none: "\<forall>x\<in>set evs1. \<not> is_write_call x"
    using pre_write_reads [of te ce "ct_op tool" params cref] pre by (auto split: if_splits)
  define a where "a = outbox_action te tool ctx params cref pre_state version
      (compensation_plan (ct_op tool) params body None (ce_resolved_secret ce 1))"
  note run = assms [unfolded connector_execute_def Let_def wp prod.case pre, folded a_def]
  show thesis
  proof (cases "insert_via db (tc_new_id ctx) (tc_now ctx) a None None")
    case (Inl e)
    then show thesis using run none by (intro journal) auto
  next
    case (Inr x)
    then obtain r db1 where ins: "insert_via db (tc_new_id ctx) (tc_now ctx) a None None = Inr (r, db1)" by (cases x) auto
    have row: "outbox_row te tool ce ctx db args db1"
      using insert_via_row [OF ins] by (simp add: outbox_row_def wp pre a_def outbox_action_def)
    note run = run [unfolded ins, simplified, unfolded insert_via_row(1) [OF ins]]
    show thesis
    proof (cases "kill \<or> ce_call ce (os_name (ct_op tool)) params = None")
      case True
      then show thesis using run row none wp stopped lost by (cases kill) auto
    next
      case False
      then obtain outcome where "ce_call ce (os_name (ct_op tool)) params = Some outcome" by auto
      moreover obtain res2 db2 evs2 where after: "after_call te tool ce params cref (tc_new_id ctx) db1 outcome = (res2, db2, evs2)"
        by (metis prod.exhaust)
      moreover have "\<forall>x\<in>set evs2. \<not> is_write_call x"
        using after_call_reads [of _ te tool ce params cref "tc_new_id ctx" db1 outcome] after by auto
      ultimately show thesis using False run row none wp by (intro answered) (auto simp del: ex_simps)
    qed
  qed
qed

text \<open>
  Property C13: no connector write without its journal row. Whatever the connector answers, a write calls it at
  most once and not at all once the kill switch is on. When the call is made, the row of this write is in the
  database already, pending, with the parameters redacted, the reference the record can be found by, and the
  plan that undoes the write. At the end the row says what the result says: skipped when the switch stopped
  the write, a mismatch for a fault of the server, else the outcome of the read-back; it stays pending when
  the answer was lost. No other row is touched.
\<close>

theorem connector_write_outbox:
  "case connector_execute te tool ce kill ctx db args of
     (res, db', evs) \<Rightarrow>
       length (filter is_write_call evs) \<le> (if kill then 0 else 1) \<and>
       (\<forall>name ps db1. WriteCall name ps db1 \<in> set evs \<longrightarrow>
          name = os_name (ct_op tool) \<and> ps = fst (write_params (tc_new_uuid ctx) args) \<and>
          outbox_row te tool ce ctx db args db1) \<and>
       (\<forall>k. k \<noteq> tc_new_id ctx \<longrightarrow> get_by_id db' k = get_by_id db k) \<and>
       row_status db' (tc_new_id ctx) =
         (case res of
            Inl (JournalFailed e) \<Rightarrow> row_status db (tc_new_id ctx)
          | Inl KillBlocked \<Rightarrow> Some ''skipped''
          | Inl TransportError \<Rightarrow> Some ''pending''
          | Inl (Faulted s code) \<Rightarrow> Some ''mismatch''
          | Inr (status, returned_id) \<Rightarrow> Some status)"
proof (cases "connector_execute te tool ce kill ctx db args")
  case (fields res db' evs)
  have none: "filter is_write_call es = []" "WriteCall name ps d \<notin> set es" if "\<forall>x\<in>set es. \<not> is_write_call x" for es name ps d
    using that by (auto simp: filter_empty_conv)
  have row: "\<exists>r. get_by_id db1 (tc_new_id ctx) = Some r \<and> j_readback_status r = ''pending''"
    "k \<noteq> tc_new_id ctx \<Longrightarrow> get_by_id db1 k = get_by_id db k" if "outbox_row te tool ce ctx db args db1" for db1 k
    using that by (auto simp: outbox_row_def split: option.splits prod.splits)
  show ?thesis using fields
  proof (cases rule: connector_execute_cases)
    case (stopped db1)
    obtain r where "get_by_id db1 (tc_new_id ctx) = Some r" using row(1) stopped(4) by blast
    then show ?thesis
      using fields stopped none row by (simp add: row_status_def set_readback_def get_by_id_update)
  next
    case (answered db1 evs1 evs2 outcome params cref)
    obtain r where r: "get_by_id db1 (tc_new_id ctx) = Some r" using row(1) answered(2) by blast
    note ends = after_call_row [OF answered(4) r]
    have "row_status db' (tc_new_id ctx) =
         (case res of
            Inl (JournalFailed e) \<Rightarrow> row_status db (tc_new_id ctx)
          | Inl KillBlocked \<Rightarrow> Some ''skipped''
          | Inl TransportError \<Rightarrow> Some ''pending''
          | Inl (Faulted s code) \<Rightarrow> Some ''mismatch''
          | Inr (status, returned_id) \<Rightarrow> Some status)"
      using ends(1,4) by (cases res) auto
    then show ?thesis using fields answered none ends(2) row(2) by auto
  qed (use fields none row in \<open>auto simp: row_status_def\<close>)
qed

section \<open>What the plan restores\<close>

lemma restore_values_lookup:
  assumes "restore_values params (Some body) secret = Some vals"
    and "Option.bind (jget params ''values'') as_object = Some written"
  shows "jget vals f =
    (if f \<in> fst ` set written then map_option (sanitize_restored_value secret) (jget body f) else None)"
proof -
  let ?pick = "\<lambda>(key, _). map_option (\<lambda>prev. (key, sanitize_restored_value secret prev)) (jget body key)"
  have "map_of (List.map_filter ?pick ws) f =
      (if f \<in> fst ` set ws then map_option (sanitize_restored_value secret) (jget body f) else None)"
    for ws :: "(string \<times> json) list"
    by (induction ws) (auto simp: List.map_filter_simps split: option.splits)
  moreover have "vals = JObj (List.map_filter ?pick written)"
    using assms by (auto simp: restore_values_def Let_def split: if_splits)
  ultimately show ?thesis by simp
qed

lemma restore_values_exists:
  assumes "Option.bind (jget params ''values'') as_object = Some written"
    and "f \<in> fst ` set written" and "jget body f \<noteq> None"
  shows "restore_values params (Some body) secret \<noteq> None"
proof -
  obtain v where "(f, v) \<in> set written" using assms(2) by auto
  moreover obtain prev where "jget body f = Some prev" using assms(3) by auto
  ultimately have "(f, sanitize_restored_value secret prev) \<in> set (List.map_filter
      (\<lambda>(key, _). map_option (\<lambda>prev. (key, sanitize_restored_value secret prev)) (jget body key)) written)"
    by (force simp: List.map_filter_def)
  then show ?thesis using assms(1) by (auto simp: restore_values_def Let_def)
qed

lemma plan_target_id_cong:
  "jget p ''ids'' = jget q ''ids'' \<Longrightarrow> jget p ''id'' = jget q ''id'' \<Longrightarrow> plan_target_id p = plan_target_id q"
  unfolding plan_target_id_def by (simp only:)

lemma add_target_id:
  assumes "map_of flds ''ids'' = None" and "map_of flds ''id'' = None"
    and "jget params ''ids'' = None \<or> jget params ''ids'' = Some (JArr (x # xs))"
  shows "plan_target_id (JObj (add_target params None flds)) = params_target_id params"
  using assms by (auto simp: add_target_def plan_target_id_def params_target_id_def split: option.splits)

lemma add_target_other: "k \<noteq> ''id'' \<Longrightarrow> k \<noteq> ''ids'' \<Longrightarrow> map_of (add_target params returned_id flds) k = map_of flds k"
  by (auto simp: add_target_def map_of_obj_or_insert split: option.splits)


section \<open>A write to a sample record\<close>

definition sample_update :: OpSpec where
  "sample_update =
     \<lparr>os_name = ''rename'', os_model = Some ''m'', os_method = Some ''write'', os_risk_tier = None,
      os_compensability = None, os_compensation = Some (JObj [(''op'', JStr ''write'')]), os_correlation_field = None\<rparr>"

definition sample_rename :: json where
  "sample_rename = JObj [(''ids'', JArr [JNum 7]), (''values'', JObj [(''name'', JStr ''b'')])]"

definition sample_record :: "string \<Rightarrow> (string \<times> json) list" where
  "sample_record name = [(''name'', JStr name), (''write_date'', JStr ''t'')]"

definition sample_connector :: ConnectorExecutor where
  "sample_connector =
     \<lparr>ce_call = (\<lambda>op params. Some (ExecOk None JNull)),
      ce_read_back = (\<lambda>n op cref model i. Some (JObj (sample_record (if n = 0 then ''a'' else ''b'')))),
      ce_resolved_secret = (\<lambda>n. None)\<rparr>"

definition sample_texts :: text_env where
  "sample_texts = \<lparr>te_show = (\<lambda>v. ''{}''), te_column = Other_text, te_round = (\<lambda>m e. Fin m e)\<rparr>"

definition sample_tool :: HttpConnectorTool where
  "sample_tool = \<lparr>ct_op = sample_update, ct_cred_ref = ''k'', ct_manifest_hash = ''h''\<rparr>"

definition sample_context :: tool_context where
  "sample_context =
     \<lparr>tc_session_id = ''s'', tc_turn_id = ''t'', tc_new_id = ''j'', tc_now = ''now'', tc_retention_expires_at = ''later'',
      tc_new_uuid = ''u''\<rparr>"

definition sample_empty_db :: Db where
  "sample_empty_db = \<lparr>db_rows = (\<lambda>_ _. None), db_exceptions = {||}, db_journal = []\<rparr>"

lemma sample_write_result:
  "fst (connector_execute sample_texts sample_tool sample_connector False sample_context sample_empty_db sample_rename) =
     Inr (''match'', None)"
proof -
  have wp: "write_params ''u'' sample_rename =
      (JObj [(''ids'', JArr [JNum 7]), (''values'', JObj [(''name'', JStr ''b'')]), (''correlation_ref'', JStr ''u'')], ''u'')"
    by code_simp
  have fields: "connector_fields_match sample_texts
      (JObj [(''ids'', JArr [JNum 7]), (''values'', JObj [(''name'', JStr ''b'')]), (''correlation_ref'', JStr ''u'')])
      (JObj (sample_record ''b''))"
    by code_simp
  have upd: "\<not> op_is_create sample_update" by code_simp
  show ?thesis
    by (simp add: connector_execute_def Let_def sample_tool_def sample_context_def wp pre_write_state_def upd
        sample_connector_def insert_via_def outbox_action_def sample_empty_db_def after_call_def verify_write_def fields)
qed

theorem connector_write_outbox_witness:
  "row_status (fst (snd (connector_execute sample_texts sample_tool sample_connector False sample_context
       sample_empty_db sample_rename))) ''j'' = Some ''match'' \<and>
   length (filter is_write_call (snd (snd (connector_execute sample_texts sample_tool sample_connector True sample_context
       sample_empty_db sample_rename)))) = 0"
  using connector_write_outbox [where te = sample_texts and tool = sample_tool and ce = sample_connector and kill = False
      and ctx = sample_context and db = sample_empty_db and args = sample_rename]
    connector_write_outbox [where te = sample_texts and tool = sample_tool and ce = sample_connector and kill = True
      and ctx = sample_context and db = sample_empty_db and args = sample_rename]
  by (simp add: case_prod_unfold sample_write_result) (simp add: sample_context_def)


text \<open>
  Parameters without \<open>values\<close> are compared with the record whole, the reference included, so the write counts as
  a mismatch unless the record has a field of that name.
\<close>

lemma flat_params_mismatch:
  assumes "jget params ''values'' = None" and "jget params ''correlation_ref'' = Some (JStr c)" and "c \<noteq> []"
    and "\<not> prefix ''<redacted:'' c" and "jget body ''correlation_ref'' = None"
  shows "\<not> connector_fields_match te params body"
proof -
  obtain flds where p: "params = JObj flds" using assms(2) by (cases params) auto
  have "(''correlation_ref'', JStr c) \<in> set flds" using assms(2) by (auto simp: p dest: map_of_SomeD)
  then show ?thesis
    using assms by (force simp: p connector_fields_match_def request_fields_match_def list_all_iff field_matches_def is_unset_def)
qed

end
