(* ===== verification/Reconcile.thy ===== *)
theory Reconcile
  imports ConnectorWrite LocalUndo
begin

text \<open>
  The sweep that classifies the journal rows a crash or a lost answer left pending
  (\<open>crates/haily-tools/src/journal_undo/reconcile.rs\<close>), and the statements of \<open>queries/journal.rs\<close> it rests on.
  The connectors answer reads by the number of the executor; \<open>None\<close> is a failed read. The sweep yields the
  database, its count and the reads it made with their answers.
\<close>

section \<open>Statements\<close>

definition list_incomplete :: "string \<Rightarrow> Db \<Rightarrow> JournalRow list" where
  "list_incomplete cutoff db =
     filter (\<lambda>r. j_readback_status r = ''pending'' \<and> j_created_at r \<le> cutoff) (db_journal db)"

definition list_by_session :: "string \<Rightarrow> Db \<Rightarrow> JournalRow list" where
  "list_by_session session_id db = rev (filter (\<lambda>r. j_session_id r = session_id) (db_journal db))"

definition list_by_workspace :: "string \<Rightarrow> Db \<Rightarrow> JournalRow list" where
  "list_by_workspace workspace_id db = rev (filter (\<lambda>r. j_workspace_id r = Some workspace_id) (db_journal db))"

definition purge_expired :: "string \<Rightarrow> Db \<Rightarrow> nat \<times> Db" where
  "purge_expired now db =
     (length (filter (\<lambda>r. j_retention_expires_at r \<le> now) (db_journal db)),
      db\<lparr>db_journal := filter (\<lambda>r. \<not> j_retention_expires_at r \<le> now) (db_journal db)\<rparr>)"

section \<open>One row\<close>

definition RECONCILE_GRACE_SECS :: int where "RECONCILE_GRACE_SECS = 30"

record sweep_env =
  se_read_back :: "nat \<Rightarrow> string \<Rightarrow> string \<Rightarrow> string option \<Rightarrow> json option"
  se_resolved_secret :: "nat \<Rightarrow> string option"
  se_texts :: text_env
  se_from_str :: "string \<Rightarrow> json option"

definition record_absent :: "json \<Rightarrow> bool" where
  "record_absent body \<longleftrightarrow> body = JNull \<or> body = JBool False \<or> body = JArr []"

definition request_fields_present :: "sweep_env \<Rightarrow> string \<Rightarrow> json \<Rightarrow> bool" where
  "request_fields_present env request_params body =
     (case se_from_str env request_params of
        None \<Rightarrow> True
      | Some req \<Rightarrow> connector_fields_match (se_texts env) req body)"

definition row_id_hint :: "JournalRow \<Rightarrow> string option" where
  "row_id_hint r = Option.bind (Option.bind (j_compensation_plan r) parse_json) plan_target_id"

definition classify_one :: "sweep_env \<Rightarrow> nat \<Rightarrow> JournalRow \<Rightarrow> string \<times> json option" where
  "classify_one env executor r =
     (case se_read_back env executor (j_tool_name r) (j_correlation_ref r) (row_id_hint r) of
        None \<Rightarrow> (''unverified'', None)
      | Some body \<Rightarrow>
          (if record_absent body then ''unknown''
           else if request_fields_present env (j_request_params r) body then ''match'' else ''mismatch'', Some body))"

definition classify_local :: "Db \<Rightarrow> JournalRow \<Rightarrow> string" where
  "classify_local db r =
     (case local_table_for (j_tool_name r) of
        None \<Rightarrow> ''unknown''
      | Some t \<Rightarrow> if row_exists db t (j_correlation_ref r) then ''match'' else ''unknown'')"

section \<open>The sweep\<close>

text \<open>The status and the body of a row, and whether and with which result an executor was asked.\<close>

definition classify_row :: "sweep_env \<Rightarrow> ConnectorResolver \<Rightarrow> Db \<Rightarrow> nat set \<Rightarrow> JournalRow
    \<Rightarrow> (string \<times> json option) \<times> (nat \<times> bool) option" where
  "classify_row env resolver db unreachable r =
     (if is_local_row r then ((classify_local db r, None), None)
      else
        (case cr_executors resolver (j_tool_name r) of
           None \<Rightarrow> ((''unverified'', None), None)
         | Some executor \<Rightarrow>
             if \<not> hash_matches resolver (j_tool_name r) (j_manifest_hash r) then ((''unverified'', None), None)
             else if executor \<in> unreachable then ((''unverified'', None), None)
             else (let result = classify_one env executor r
                   in (result, Some (executor, fst result \<noteq> ''unverified'')))))"

record sweep =
  sw_db :: Db
  sw_classified :: nat
  sw_unreachable :: "nat set"
  sw_reads :: "(nat \<times> bool) list"

definition sweep_row :: "sweep_env \<Rightarrow> ConnectorResolver \<Rightarrow> sweep \<Rightarrow> JournalRow \<Rightarrow> sweep" where
  "sweep_row env resolver sw r =
     (let ((status, body), asked) = classify_row env resolver (sw_db sw) (sw_unreachable sw) r;
          secret = (case asked of Some (executor, True) \<Rightarrow> se_resolved_secret env executor | _ \<Rightarrow> None);
          summary = map_option (\<lambda>v. summarize_body (se_texts env) v secret) body
      in \<lparr>sw_db = set_readback (j_id r) status summary (sw_db sw),
          sw_classified = Suc (sw_classified sw),
          sw_unreachable = (case asked of Some (executor, False) \<Rightarrow> insert executor (sw_unreachable sw) | _ \<Rightarrow> sw_unreachable sw),
          sw_reads = sw_reads sw @ (case asked of Some a \<Rightarrow> [a] | None \<Rightarrow> [])\<rparr>)"

definition reconcile_incomplete :: "sweep_env \<Rightarrow> ConnectorResolver \<Rightarrow> string \<Rightarrow> Db \<Rightarrow> sweep" where
  "reconcile_incomplete env resolver cutoff db =
     foldl (sweep_row env resolver) \<lparr>sw_db = db, sw_classified = 0, sw_unreachable = {}, sw_reads = []\<rparr>
       (list_incomplete cutoff db)"

section \<open>What a sweep does\<close>

lemma classify_row_status: "fst (fst (classify_row env resolver db unreachable r)) \<in> {''match'', ''mismatch'', ''unverified'', ''unknown''}"
  by (auto simp: classify_row_def classify_one_def classify_local_def Let_def split: option.splits)

lemma classify_row_reachable:
  "snd (classify_row env resolver db unreachable r) = Some (executor, ok) \<Longrightarrow> executor \<notin> unreachable"
  by (auto simp: classify_row_def Let_def split: option.splits if_splits)

text \<open>Everything of a row but the read-back result.\<close>

definition other_columns :: "JournalRow \<Rightarrow> JournalRow" where
  "other_columns r = r\<lparr>j_readback_status := '''', j_post_state := None\<rparr>"

lemma sweep_row_db:
  "\<exists>status summary. status \<in> {''match'', ''mismatch'', ''unverified'', ''unknown''} \<and>
     sw_db (sweep_row env resolver sw r) = set_readback (j_id r) status summary (sw_db sw)"
proof -
  obtain status body asked where c: "classify_row env resolver (sw_db sw) (sw_unreachable sw) r = ((status, body), asked)"
    by (metis prod.exhaust)
  then have "status \<in> {''match'', ''mismatch'', ''unverified'', ''unknown''}"
    using classify_row_status [of env resolver "sw_db sw" "sw_unreachable sw" r] by simp
  moreover have "\<exists>summary. sw_db (sweep_row env resolver sw r) = set_readback (j_id r) status summary (sw_db sw)"
    by (simp add: sweep_row_def c Let_def) blast
  ultimately show ?thesis by blast
qed

lemma set_readback_rows:
  "map other_columns (db_journal (set_readback i status summary db)) = map other_columns (db_journal db)"
  "db_rows (set_readback i status summary db) = db_rows db"
  "db_exceptions (set_readback i status summary db) = db_exceptions db"
  by (auto simp: set_readback_def update_journal_def other_columns_def)

text \<open>One failed read per executor: the unreachable ones are those with a failed read, and none is asked again.\<close>

definition asked_once :: "sweep \<Rightarrow> bool" where
  "asked_once sw \<longleftrightarrow>
     sw_unreachable sw = {e. (e, False) \<in> set (sw_reads sw)} \<and>
     (\<forall>e. length (filter (\<lambda>a. a = (e, False)) (sw_reads sw)) \<le> 1)"

lemma sweep_row_asked:
  assumes "asked_once sw"
  shows "asked_once (sweep_row env resolver sw r)"
proof -
  obtain status body asked where c: "classify_row env resolver (sw_db sw) (sw_unreachable sw) r = ((status, body), asked)"
    by (metis prod.exhaust)
  have e: "asked = Some (e, ok) \<Longrightarrow> e \<notin> sw_unreachable sw" for e ok
    using classify_row_reachable [of env resolver "sw_db sw" "sw_unreachable sw" r e ok] c by simp
  have none: "filter (\<lambda>a. a = (e, False)) (sw_reads sw) = []" if "e \<notin> sw_unreachable sw" for e
    using that assms by (auto simp: asked_once_def filter_empty_conv)
  have eqs: "sw_unreachable (sweep_row env resolver sw r) =
      (case asked of Some (executor, False) \<Rightarrow> insert executor (sw_unreachable sw) | _ \<Rightarrow> sw_unreachable sw)"
    "sw_reads (sweep_row env resolver sw r) = sw_reads sw @ (case asked of Some a \<Rightarrow> [a] | None \<Rightarrow> [])"
    by (simp_all add: sweep_row_def c Let_def)
  show ?thesis
  proof (cases asked)
    case None
    then show ?thesis using assms by (simp add: asked_once_def eqs)
  next
    case (Some a)
    obtain x ok where a: "a = (x, ok)" by fastforce
    then have "filter (\<lambda>a. a = (x, False)) (sw_reads sw) = []" using e none Some by blast
    then show ?thesis
      using assms Some a by (cases ok) (auto simp: asked_once_def eqs)
  qed
qed

lemma same_ids:
  assumes "map other_columns (db_journal db') = map other_columns (db_journal db)"
  shows "get_by_id db' k = None \<longleftrightarrow> get_by_id db k = None"
proof -
  have "map j_id (db_journal d) = map j_id (map other_columns (db_journal d))" for d by (simp add: other_columns_def)
  then have "map j_id (db_journal db') = map j_id (db_journal db)" using assms by metis
  then have "k \<in> j_id ` set (db_journal db') \<longleftrightarrow> k \<in> j_id ` set (db_journal db)" by (metis set_map)
  then show ?thesis by (auto simp: get_by_id_def find_None_iff)
qed

lemma row_status_known: "row_status db k = None \<longleftrightarrow> get_by_id db k = None"
  by (simp add: row_status_def)

text \<open>The statuses a classification may give.\<close>

definition settled :: "string set" where
  "settled = {''match'', ''mismatch'', ''unverified'', ''unknown''}"

lemma sweep_fold:
  "(asked_once sw \<longrightarrow> asked_once (foldl (sweep_row env resolver) sw rows)) \<and>
   sw_classified (foldl (sweep_row env resolver) sw rows) = sw_classified sw + length rows \<and>
   map other_columns (db_journal (sw_db (foldl (sweep_row env resolver) sw rows))) = map other_columns (db_journal (sw_db sw)) \<and>
   db_rows (sw_db (foldl (sweep_row env resolver) sw rows)) = db_rows (sw_db sw) \<and>
   (\<forall>k. k \<notin> j_id ` set rows \<longrightarrow> get_by_id (sw_db (foldl (sweep_row env resolver) sw rows)) k = get_by_id (sw_db sw) k) \<and>
   (\<forall>k \<in> j_id ` set rows. get_by_id (sw_db sw) k \<noteq> None \<longrightarrow>
      row_status (sw_db (foldl (sweep_row env resolver) sw rows)) k \<in> Some ` settled)"
proof (induction rows rule: rev_induct)
  case (snoc r rows)
  let ?sw = "foldl (sweep_row env resolver) sw rows"
  obtain status summary where st: "status \<in> settled"
    and db: "sw_db (sweep_row env resolver ?sw r) = set_readback (j_id r) status summary (sw_db ?sw)"
    using sweep_row_db [of env resolver ?sw r] unfolding settled_def by blast
  have count: "sw_classified (sweep_row env resolver ?sw r) = Suc (sw_classified ?sw)"
    by (simp add: sweep_row_def Let_def split: prod.split)
  have known: "get_by_id (sw_db ?sw) k = None \<longleftrightarrow> get_by_id (sw_db sw) k = None" for k
    using snoc.IH by (intro same_ids) blast
  have other: "get_by_id (set_readback (j_id r) status summary (sw_db ?sw)) k = get_by_id (sw_db ?sw) k" if "k \<noteq> j_id r" for k
    using that by (simp add: set_readback_def get_by_id_update)
  have here: "row_status (set_readback (j_id r) status summary (sw_db ?sw)) (j_id r) \<in> Some ` settled"
    if k: "get_by_id (sw_db sw) (j_id r) \<noteq> None"
  proof -
    obtain q where "get_by_id (sw_db ?sw) (j_id r) = Some q" using k known [of "j_id r"] by auto
    then show ?thesis using st by simp
  qed
  have "row_status (set_readback (j_id r) status summary (sw_db ?sw)) k \<in> Some ` settled"
    if "k \<in> j_id ` set rows" "get_by_id (sw_db sw) k \<noteq> None" for k
  proof (cases "k = j_id r")
    case False
    have "row_status (sw_db ?sw) k \<in> Some ` settled" using snoc.IH that by blast
    then show ?thesis using False by simp
  qed (use that here in simp)
  then show ?case
    using snoc.IH here other by (simp add: db count set_readback_rows sweep_row_asked)
qed simp


section \<open>A lost answer\<close>

text \<open>
  The write whose answer is lost leaves its row pending; the sweep asks once, gets no answer, and marks the
  row unverified.
\<close>

definition sample_lost :: Db where
  "sample_lost =
     fst (snd (connector_execute sample_texts sample_tool (sample_connector\<lparr>ce_call := \<lambda>op params. None\<rparr>) False
       sample_context sample_empty_db sample_rename))"

definition sample_sweep_env :: sweep_env where
  "sample_sweep_env =
     \<lparr>se_read_back = (\<lambda>e op cref i. None), se_resolved_secret = (\<lambda>e. None), se_texts = sample_texts, se_from_str = (\<lambda>s. None)\<rparr>"

lemma sample_lost_row: "map (\<lambda>r. (j_id r, j_readback_status r)) (list_incomplete ''now'' sample_lost) = [(''j'', ''pending'')]"
proof -
  have wp: "write_params ''u'' sample_rename =
      (JObj [(''ids'', JArr [JNum 7]), (''values'', JObj [(''name'', JStr ''b'')]), (''correlation_ref'', JStr ''u'')], ''u'')"
    by code_simp
  have upd: "\<not> op_is_create sample_update" by code_simp
  show ?thesis
    by (simp add: sample_lost_def connector_execute_def Let_def sample_tool_def sample_context_def wp pre_write_state_def upd
        sample_connector_def insert_via_def outbox_action_def sample_empty_db_def list_incomplete_def)
qed


end
