(* ===== verification/VerifierOutput.thy ===== *)
theory VerifierOutput
  imports Utf8 Json "HOL-Library.Sublist"
begin

text \<open>
  The decisive part of a failed verifier (\<open>crates/haily-core/src/pipeline/verifier_output.rs\<close>) and the
  detection of a repository's stack (\<open>crates/haily-tools/src/coding/stack_detect.rs\<close>). Arguments are: which
  files exist, the JSON parser, and which characters beyond ASCII the formatter prints as they are.
\<close>

section \<open>Stacks and dialects\<close>

datatype Stack = StRust | StTypeScript | StPython | StGo | StJava

fun standard_name :: "Stack \<Rightarrow> string" where
  "standard_name StRust = ''lang-rust''"
| "standard_name StTypeScript = ''lang-typescript''"
| "standard_name StPython = ''lang-python''"
| "standard_name StGo = ''lang-go''"
| "standard_name StJava = ''lang-java''"

fun lsp_language :: "Stack \<Rightarrow> string" where
  "lsp_language StRust = ''rust''"
| "lsp_language StTypeScript = ''typescript''"
| "lsp_language StPython = ''python''"
| "lsp_language StGo = ''go''"
| "lsp_language StJava = ''java''"

definition detect_stacks :: "(string \<Rightarrow> bool) \<Rightarrow> Stack list" where
  "detect_stacks is_file =
     (if is_file ''Cargo.toml'' then [StRust] else []) @
     (if is_file ''package.json'' \<or> is_file ''tsconfig.json'' then [StTypeScript] else []) @
     (if is_file ''pyproject.toml'' \<or> is_file ''setup.py'' \<or> is_file ''requirements.txt'' then [StPython] else []) @
     (if is_file ''go.mod'' then [StGo] else []) @
     (if is_file ''pom.xml'' \<or> is_file ''build.gradle'' \<or> is_file ''build.gradle.kts'' then [StJava] else [])"

definition detect_standard_names_in :: "(string \<Rightarrow> bool) \<Rightarrow> string list" where
  "detect_standard_names_in is_file = map standard_name (detect_stacks is_file)"

datatype VerifierLang = LRust | LTypeScript | LPython | LGo | LGeneric

fun from_stack :: "Stack \<Rightarrow> VerifierLang" where
  "from_stack StRust = LRust"
| "from_stack StTypeScript = LTypeScript"
| "from_stack StPython = LPython"
| "from_stack StGo = LGo"
| "from_stack StJava = LGeneric"

definition detect_lang :: "(string \<Rightarrow> bool) \<Rightarrow> VerifierLang" where
  "detect_lang is_file =
     (case detect_stacks is_file of
        stack # _ \<Rightarrow> from_stack stack
      | [] \<Rightarrow> if is_file ''go.mod'' then LGo else LGeneric)"

fun lang_label :: "VerifierLang \<Rightarrow> string" where
  "lang_label LRust = ''rust''"
| "lang_label LTypeScript = ''typescript''"
| "lang_label LPython = ''python''"
| "lang_label LGo = ''go''"
| "lang_label LGeneric = ''generic''"

section \<open>Extracting items\<close>

definition MAX_DECISIVE :: nat where "MAX_DECISIVE = 5"
definition MAX_ITEM_CHARS :: nat where "MAX_ITEM_CHARS = 240"

type_synonym from_str = "ustr \<Rightarrow> json option"

definition get_str :: "json \<Rightarrow> string \<Rightarrow> string option" where
  "get_str v key = Option.bind (jget v key) as_str"

text \<open>\<open>v["message"]\<close> is \<open>Null\<close> when there is no such key.\<close>

definition jindex :: "json \<Rightarrow> string \<Rightarrow> json" where
  "jindex v key = (case jget v key of Some w \<Rightarrow> w | None \<Rightarrow> JNull)"

definition rust_item :: "from_str \<Rightarrow> ustr \<Rightarrow> ustr option" where
  "rust_item from_str raw =
     (let line = trim raw in
      if line = [] then None
      else do {
        v \<leftarrow> from_str line;
        if get_str v ''reason'' \<noteq> Some ''compiler-message'' then None
        else (let msg = jindex v ''message'' in
              if get_str msg ''level'' \<noteq> Some ''error'' then None
              else map_option text_of
                     (case get_str msg ''rendered'' of Some t \<Rightarrow> Some t | None \<Rightarrow> get_str msg ''message''))
      })"

definition rust_items :: "from_str \<Rightarrow> ustr \<Rightarrow> ustr list" where
  "rust_items from_str stdout = take MAX_DECISIVE (List.map_filter (rust_item from_str) (str_lines stdout))"

definition has_text :: "string \<Rightarrow> ustr \<Rightarrow> bool" where
  "has_text w l \<longleftrightarrow> sublist (lit w) l"

definition scan_lines :: "ustr list \<Rightarrow> (ustr \<Rightarrow> bool) \<Rightarrow> ustr list" where
  "scan_lines sources p =
     take MAX_DECISIVE (filter (\<lambda>l. l \<noteq> [] \<and> p l) (map trim (concat (map str_lines sources))))"

definition failed_name :: "json \<Rightarrow> ustr option" where
  "failed_name a =
     (if get_str a ''status'' = Some ''failed''
      then Some (case Option.bind (case jget a ''fullName'' of Some n \<Rightarrow> Some n | None \<Rightarrow> jget a ''title'') as_str of
                   Some n \<Rightarrow> text_of n | None \<Rightarrow> lit ''<unnamed test>'')
      else None)"

definition vitest_items :: "json \<Rightarrow> ustr list" where
  "vitest_items v =
     (case Option.bind (jget v ''testResults'') as_array of
        None \<Rightarrow> []
      | Some files \<Rightarrow>
          take MAX_DECISIVE
            (concat (map (\<lambda>f. case Option.bind (jget f ''assertionResults'') as_array of
                               None \<Rightarrow> [] | Some asserts \<Rightarrow> List.map_filter failed_name asserts) files)))"

definition typescript_items :: "from_str \<Rightarrow> ustr \<Rightarrow> ustr \<Rightarrow> ustr list" where
  "typescript_items from_str stdout stderr =
     (let out = (case from_str (trim stdout) of Some v \<Rightarrow> vitest_items v | None \<Rightarrow> [])
      in if out \<noteq> [] then out else scan_lines [stdout, stderr] (has_text ''error TS''))"

definition as_u64 :: "json \<Rightarrow> nat option" where
  "as_u64 j = (case j of JNum n \<Rightarrow> if 0 \<le> n \<and> n < 2 ^ 64 then Some (nat n) else None | _ \<Rightarrow> None)"

definition ruff_item :: "json \<Rightarrow> ustr" where
  "ruff_item d =
     (let or_else = (\<lambda>key e. case get_str d key of Some t \<Rightarrow> text_of t | None \<Rightarrow> lit e);
          file = or_else ''filename'' ''<unknown>'';
          loc = (case Option.bind (Option.bind (jget d ''location'') (\<lambda>l. jget l ''row'')) as_u64 of
                   Some r \<Rightarrow> file @ lit '':'' @ lit (nat_text r) | None \<Rightarrow> file)
      in trim (or_else ''code'' '''' @ lit '' '' @ or_else ''message'' '''' @ lit '' ('' @ loc @ lit '')''))"

definition python_items :: "from_str \<Rightarrow> ustr \<Rightarrow> ustr \<Rightarrow> ustr list" where
  "python_items from_str stdout stderr =
     (let out = (case from_str (trim stdout) of Some (JArr diags) \<Rightarrow> take MAX_DECISIVE (map ruff_item diags) | _ \<Rightarrow> [])
      in if out \<noteq> [] then out else scan_lines [stdout, stderr] (\<lambda>l. take 7 l = lit ''FAILED ''))"

definition go_item :: "from_str \<Rightarrow> ustr \<Rightarrow> ustr option" where
  "go_item from_str line =
     do { v \<leftarrow> from_str (trim line);
          if get_str v ''Action'' \<noteq> Some ''fail'' then None else map_option text_of (get_str v ''Test'') }"

definition go_items :: "from_str \<Rightarrow> ustr \<Rightarrow> ustr \<Rightarrow> ustr list" where
  "go_items from_str stdout stderr =
     (let out = take MAX_DECISIVE (List.map_filter (go_item from_str) (str_lines stdout))
      in if out \<noteq> [] then out else scan_lines [stdout, stderr] (has_text ''.go:''))"

definition generic_items :: "ustr \<Rightarrow> ustr \<Rightarrow> ustr list" where
  "generic_items stdout stderr =
     take MAX_DECISIVE
       (filter (\<lambda>l. l \<noteq> []) (map trim (str_lines (if trim stderr = [] then stdout else stderr))))"

section \<open>Rendering\<close>

text \<open>\<open>{:?}\<close> of a \<open>str\<close>.\<close>

function hex_text :: "nat \<Rightarrow> ustr" where
  "hex_text n =
     (let d = n mod 16; c = (if d < 10 then 48 + d else 87 + d)
      in if n < 16 then [c] else hex_text (n div 16) @ [c])"
  by pat_completeness auto
termination by (relation "measure id") auto

definition debug_char :: "(nat \<Rightarrow> bool) \<Rightarrow> nat \<Rightarrow> ustr" where
  "debug_char printable c =
     (if c = 0 then [92, 48] else if c = 9 then [92, 116] else if c = 13 then [92, 114] else if c = 10 then [92, 110]
      else if c = 92 then [92, 92] else if c = 34 then [92, 34]
      else if 32 \<le> c \<and> c < 127 \<or> 127 < c \<and> printable c then [c]
      else [92, 117, 123] @ hex_text c @ [125])"

definition debug_str :: "(nat \<Rightarrow> bool) \<Rightarrow> ustr \<Rightarrow> ustr" where
  "debug_str printable s = [34] @ concat (map (debug_char printable) s) @ [34]"

definition inert :: "(nat \<Rightarrow> bool) \<Rightarrow> ustr \<Rightarrow> ustr" where
  "inert printable s = debug_str printable (take MAX_ITEM_CHARS s)"

definition int_text :: "int \<Rightarrow> ustr" where
  "int_text n = (if n < 0 then [45] else []) @ lit (nat_text (nat \<bar>n\<bar>))"

definition render_header :: "VerifierLang \<Rightarrow> int \<Rightarrow> ustr" where
  "render_header lang exit_code =
     lit ''verifier '' @ lit (lang_label lang) @ lit '' FAILED (exit '' @ int_text exit_code @ lit '')''"

definition render_item :: "(nat \<Rightarrow> bool) \<Rightarrow> nat \<Rightarrow> ustr \<Rightarrow> ustr" where
  "render_item printable i item = [10] @ lit (nat_text (i + 1)) @ lit ''. '' @ inert printable item"

definition render :: "(nat \<Rightarrow> bool) \<Rightarrow> VerifierLang \<Rightarrow> int \<Rightarrow> ustr list \<Rightarrow> ustr" where
  "render printable lang exit_code items =
     render_header lang exit_code @
     concat (map (\<lambda>(i, item). render_item printable i item) (enumerate 0 (take MAX_DECISIVE items)))"

definition parse_decisive :: "from_str \<Rightarrow> (nat \<Rightarrow> bool) \<Rightarrow> VerifierLang \<Rightarrow> ustr \<Rightarrow> ustr \<Rightarrow> int \<Rightarrow> ustr" where
  "parse_decisive from_str printable lang stdout stderr exit_code =
     (if exit_code = 0 then []
      else
        (let items = (case lang of
                        LRust \<Rightarrow> rust_items from_str stdout
                      | LTypeScript \<Rightarrow> typescript_items from_str stdout stderr
                      | LPython \<Rightarrow> python_items from_str stdout stderr
                      | LGo \<Rightarrow> go_items from_str stdout stderr
                      | LGeneric \<Rightarrow> []);
             items = (if items = [] then generic_items stdout stderr else items)
         in render printable lang exit_code items))"

section \<open>The output is quoted data\<close>

text \<open>Reading a string literal up to its closing quote: what follows it.\<close>

fun literal_rest :: "ustr \<Rightarrow> ustr option" where
  "literal_rest [] = None"
| "literal_rest (c # s) =
     (if c = 34 then Some s else if c = 92 then (case s of [] \<Rightarrow> None | _ # s' \<Rightarrow> literal_rest s') else literal_rest s)"

definition closed_literal :: "ustr \<Rightarrow> bool" where
  "closed_literal s \<longleftrightarrow> (case s of c # body \<Rightarrow> c = 34 \<and> literal_rest body = Some [] \<and> list_all (\<lambda>c. 32 \<le> c) body | [] \<Rightarrow> False)"

definition numbered :: "nat \<Rightarrow> ustr \<Rightarrow> ustr" where
  "numbered i literal = lit (nat_text (i + 1)) @ lit ''. '' @ literal"

declare hex_text.simps [simp del] nat_text.simps [simp del]

lemma hex_text_range: "c \<in> set (hex_text n) \<Longrightarrow> 48 \<le> c \<and> c < 58 \<or> 97 \<le> c \<and> c < 103"
proof (induction n rule: hex_text.induct)
  case (1 n)
  have "n mod 16 < 16" by simp
  then show ?case
    using 1 by (subst (asm) hex_text.simps) (auto simp: Let_def split: if_splits)
qed

lemma literal_rest_plain: "list_all (\<lambda>c. c \<noteq> 34 \<and> c \<noteq> 92) p \<Longrightarrow> literal_rest (p @ s) = literal_rest s"
  by (induction p) auto

lemma debug_char_rest: "literal_rest (debug_char pr c @ s) = literal_rest s"
proof -
  have "list_all (\<lambda>x. x \<noteq> 34 \<and> x \<noteq> 92) ([123] @ hex_text c @ [125])"
    using hex_text_range [of _ c] by (force simp: list_all_iff)
  from literal_rest_plain [OF this, of s] show ?thesis
    by (simp add: debug_char_def)
qed

lemma debug_char_visible: "x \<in> set (debug_char pr c) \<Longrightarrow> 32 \<le> x"
  using hex_text_range [of x c] by (auto simp: debug_char_def split: if_splits)

lemma debug_str_closed: "closed_literal (debug_str pr s)"
proof -
  have "literal_rest (concat (map (debug_char pr) s) @ [34]) = Some []"
    by (induction s) (simp_all add: debug_char_rest)
  then show ?thesis
    by (auto simp: closed_literal_def debug_str_def list_all_iff dest: debug_char_visible)
qed

lemma closed_literal_line: "closed_literal l \<Longrightarrow> l \<noteq> [] \<and> 10 \<notin> set l"
  by (auto simp: closed_literal_def list_all_iff split: list.splits)

lemma nat_text_digits: "x \<in> set (lit (nat_text n)) \<Longrightarrow> 48 \<le> x \<and> x < 58"
proof (induction n rule: nat_text.induct)
  case (1 n)
  have "n mod 10 < 10" by simp
  then show ?case
    using 1 by (subst (asm) (2) nat_text.simps) (auto split: if_splits)
qed

lemma nat_text_nonempty: "nat_text n \<noteq> []"
  by (subst nat_text.simps) simp

text \<open>A text built of lines is split into them.\<close>

lemma split_lines_last: "10 \<notin> set p \<Longrightarrow> split_lines cur p = (if cur @ p = [] then [] else [cur @ p])"
  by (induction p arbitrary: cur) auto

lemma split_lines_cut: "10 \<notin> set p \<Longrightarrow> split_lines cur (p @ 10 # s) = (cur @ p) # split_lines [] s"
  by (induction p arbitrary: cur) auto

lemma split_lines_joined:
  assumes "10 \<notin> set h" "h \<noteq> []" "list_all (\<lambda>l. l \<noteq> [] \<and> 10 \<notin> set l) ls"
  shows "split_lines [] (h @ concat (map ((#) 10) ls)) = h # ls"
  using assms
proof (induction ls arbitrary: h)
  case Nil
  then show ?case by (simp add: split_lines_last)
next
  case (Cons l ls)
  then show ?case by (simp add: split_lines_cut)
qed

lemma header_line: "10 \<notin> set (render_header lang e) \<and> render_header lang e \<noteq> []"
  using nat_text_digits [of 10 "nat \<bar>e\<bar>"] by (cases lang) (auto simp: render_header_def int_text_def)

lemma render_lines:
  fixes items :: "ustr list" and pr :: "nat \<Rightarrow> bool"
  defines "ls \<equiv> map (\<lambda>(i, item). numbered i (inert pr item)) (enumerate 0 (take MAX_DECISIVE items))"
  shows "split_lines [] (render pr lang e items) = render_header lang e # ls"
proof -
  have "(\<lambda>(i, item). render_item pr i item) = (\<lambda>p. 10 # (case p of (i, item) \<Rightarrow> numbered i (inert pr item)))"
    by (auto simp: fun_eq_iff render_item_def numbered_def split: prod.splits)
  then have "render pr lang e items = render_header lang e @ concat (map ((#) 10) ls)"
    by (simp add: render_def ls_def comp_def)
  moreover have "l \<noteq> [] \<and> 10 \<notin> set l" if "l \<in> set ls" for l
    using that nat_text_digits [of 10] closed_literal_line [OF debug_str_closed]
    by (fastforce simp: ls_def numbered_def inert_def)
  ultimately show ?thesis
    using header_line by (simp add: split_lines_joined list_all_iff)
qed


text \<open>A stack is reported at most once, in the fixed order, and only if a marker of it is there.\<close>

lemma detect_stacks_distinct: "distinct (detect_stacks is_file)"
  by (simp add: detect_stacks_def)

lemma lang_of_markers: "detect_lang is_file = LRust \<longleftrightarrow> is_file ''Cargo.toml''"
  by (simp add: detect_lang_def detect_stacks_def)

end
