(* ===== verification/PipelineStages.thy ===== *)
theory PipelineStages
  imports VerifierOutput LlmRouting LocalJournal
begin

text \<open>
  The declarative side of the coding pipeline (\<open>crates/haily-core/src/pipeline/stage.rs\<close>, \<open>gate.rs\<close>) and the
  persisted state of its runs (\<open>crates/haily-db/src/queries/pipeline_runs.rs\<close>). The table is the list of its
  rows in the order of their insertion, which is that of \<open>created_at\<close>; ids and times are arguments.
\<close>

section \<open>Gates and stages\<close>

datatype ArtifactKind = AkJson | AkMarkdown

fun artifact_parses :: "from_str \<Rightarrow> ArtifactKind \<Rightarrow> ustr \<Rightarrow> bool" where
  "artifact_parses from_str AkJson content \<longleftrightarrow> from_str content \<noteq> None"
| "artifact_parses from_str AkMarkdown content \<longleftrightarrow> trim content \<noteq> []"

datatype Gate =
    GCommand (g_program: string) (g_args: "string list")
  | GArtifact (g_path: string) (g_parseable_as: "ArtifactKind option")
  | GApproval (g_prompt: string)

fun kind_label :: "Gate \<Rightarrow> string" where
  "kind_label (GCommand _ _) = ''command''"
| "kind_label (GArtifact _ _) = ''artifact''"
| "kind_label (GApproval _) = ''approval''"

definition DELEGATION_TOOL_PREFIX :: string where "DELEGATION_TOOL_PREFIX = ''delegate_to''"
definition DEFAULT_MAX_TOOL_CALLS :: u32 where "DEFAULT_MAX_TOOL_CALLS = 25"

record Stage =
  sg_name :: string
  sg_tier :: "Tier option"
  sg_prompt_ref :: ustr
  sg_tool_whitelist :: "string list"
  sg_max_tool_calls :: u32
  sg_gate :: Gate
  sg_max_retries :: u32
  sg_grammar :: "string option"

definition whitelist_excludes_delegation :: "Stage \<Rightarrow> bool" where
  "whitelist_excludes_delegation stage \<longleftrightarrow>
     \<not> list_ex (\<lambda>t. prefix DELEGATION_TOOL_PREFIX t) (sg_tool_whitelist stage)"

definition all_stages_are_leaves :: "Stage list \<Rightarrow> bool" where
  "all_stages_are_leaves runs \<longleftrightarrow> list_all whitelist_excludes_delegation runs"

datatype StageOutcome = OContinue | OBreakLoop | OAbortRun

datatype RunStatus = RsQueued | RsRunning | RsPaused | RsInterrupted | RsDone | RsFailed

fun status_str :: "RunStatus \<Rightarrow> string" where
  "status_str RsQueued = ''queued''"
| "status_str RsRunning = ''running''"
| "status_str RsPaused = ''paused''"
| "status_str RsInterrupted = ''interrupted''"
| "status_str RsDone = ''done''"
| "status_str RsFailed = ''failed''"

fun is_terminal :: "RunStatus \<Rightarrow> bool" where
  "is_terminal s = (s = RsDone \<or> s = RsFailed)"

definition parse_status :: "string \<Rightarrow> RunStatus option" where
  "parse_status s =
     (if s = ''queued'' then Some RsQueued else if s = ''running'' then Some RsRunning
      else if s = ''paused'' then Some RsPaused else if s = ''interrupted'' then Some RsInterrupted
      else if s = ''done'' then Some RsDone else if s = ''failed'' then Some RsFailed else None)"

section \<open>The table of runs\<close>

record PipelineRun =
  pr_id :: string
  pr_work_item_id :: "string option"
  pr_session_id :: string
  pr_stage_index :: int
  pr_status :: string
  pr_attempt :: int
  pr_attempts_remaining :: int
  pr_tier_used :: "string option"
  pr_backend_used :: "string option"
  pr_egress :: "string option"
  pr_gate_output_digest :: "string option"
  pr_findings :: "string option"
  pr_per_attempt_tokens :: "json option"
  pr_created_at :: string
  pr_updated_at :: string
  pr_deleted_at :: "string option"

record RunTransition =
  rt_stage_index :: int
  rt_status :: string
  rt_attempt :: int
  rt_attempts_remaining :: int
  rt_tier_used :: "string option"
  rt_backend_used :: "string option"
  rt_egress :: "string option"
  rt_gate_output_digest :: "string option"

type_synonym runs = "PipelineRun list"

text \<open>
  \<open>INSERT \<dots> RETURNING\<close>; \<open>session_known\<close> and \<open>item_known\<close> are the foreign keys. The id is the primary key.
\<close>

definition create_run :: "(string \<Rightarrow> bool) \<Rightarrow> (string \<Rightarrow> bool) \<Rightarrow> runs \<Rightarrow> string \<Rightarrow> string \<Rightarrow> string \<Rightarrow> string option \<Rightarrow> int
    \<Rightarrow> (PipelineRun \<times> runs) option" where
  "create_run session_known item_known db new_id now session_id work_item_id attempts_remaining =
     (if \<not> session_known session_id \<or> \<not> (case work_item_id of Some i \<Rightarrow> item_known i | None \<Rightarrow> True) \<or>
         new_id \<in> pr_id ` set db
      then None
      else
        (let r = \<lparr>pr_id = new_id, pr_work_item_id = work_item_id, pr_session_id = session_id, pr_stage_index = 0,
                  pr_status = ''queued'', pr_attempt = 0, pr_attempts_remaining = attempts_remaining,
                  pr_tier_used = None, pr_backend_used = None, pr_egress = None, pr_gate_output_digest = None,
                  pr_findings = None, pr_per_attempt_tokens = None, pr_created_at = now, pr_updated_at = now,
                  pr_deleted_at = None\<rparr>
         in Some (r, db @ [r])))"

definition active :: "string \<Rightarrow> PipelineRun \<Rightarrow> bool" where
  "active i r \<longleftrightarrow> pr_id r = i \<and> pr_deleted_at r = None"

text \<open>\<open>UPDATE \<dots> WHERE \<dots>\<close>: whether a row was affected, and the table.\<close>

definition update_where :: "(PipelineRun \<Rightarrow> bool) \<Rightarrow> (PipelineRun \<Rightarrow> PipelineRun) \<Rightarrow> runs \<Rightarrow> nat \<times> runs" where
  "update_where cond f db = (length (filter cond db), map (\<lambda>r. if cond r then f r else r) db)"

definition transition_via :: "string \<Rightarrow> string \<Rightarrow> RunTransition \<Rightarrow> runs \<Rightarrow> bool \<times> runs" where
  "transition_via now i t db =
     (let (n, db') = update_where (active i)
        (\<lambda>r. r\<lparr>pr_stage_index := rt_stage_index t, pr_status := rt_status t, pr_attempt := rt_attempt t,
               pr_attempts_remaining := rt_attempts_remaining t, pr_tier_used := rt_tier_used t,
               pr_backend_used := rt_backend_used t, pr_egress := rt_egress t,
               pr_gate_output_digest := rt_gate_output_digest t, pr_updated_at := now\<rparr>) db
      in (n > 0, db'))"

text \<open>\<open>finalize\<close>: the marker and the transition in one transaction; an error leaves both tables.\<close>

definition finalize_tx :: "string \<Rightarrow> string \<Rightarrow> string \<Rightarrow> RunTransition \<Rightarrow> NewAction \<Rightarrow> runs \<Rightarrow> Db
    \<Rightarrow> (bool \<times> runs \<times> Db) option" where
  "finalize_tx marker_id now i t marker db journal =
     (case insert_via journal marker_id now marker None None of
        Inl e \<Rightarrow> None
      | Inr (r, journal') \<Rightarrow>
          (let (advanced, db') = transition_via now i t db in Some (advanced, db', journal')))"

definition set_findings :: "string \<Rightarrow> string \<Rightarrow> string \<Rightarrow> runs \<Rightarrow> bool \<times> runs" where
  "set_findings now i findings_json db =
     (let (n, db') = update_where (active i) (\<lambda>r. r\<lparr>pr_findings := Some findings_json, pr_updated_at := now\<rparr>) db
      in (n > 0, db'))"

definition set_per_attempt_tokens :: "string \<Rightarrow> string \<Rightarrow> json \<Rightarrow> runs \<Rightarrow> bool \<times> runs" where
  "set_per_attempt_tokens now i tokens db =
     (let (n, db') = update_where (active i) (\<lambda>r. r\<lparr>pr_per_attempt_tokens := Some tokens, pr_updated_at := now\<rparr>) db
      in (n > 0, db'))"

definition reset_stale_running :: "string \<Rightarrow> runs \<Rightarrow> nat \<times> runs" where
  "reset_stale_running now db =
     update_where (\<lambda>r. pr_status r \<in> {''running'', ''queued''} \<and> pr_deleted_at r = None)
       (\<lambda>r. r\<lparr>pr_status := ''interrupted'', pr_updated_at := now\<rparr>) db"

definition get_run :: "runs \<Rightarrow> string \<Rightarrow> PipelineRun option" where
  "get_run db i = find (active i) db"

definition list_active :: "runs \<Rightarrow> runs" where
  "list_active db =
     filter (\<lambda>r. pr_status r \<in> {''queued'', ''running'', ''paused'', ''interrupted''} \<and> pr_deleted_at r = None) db"

definition list_interrupted :: "runs \<Rightarrow> runs" where
  "list_interrupted db = filter (\<lambda>r. pr_status r = ''interrupted'' \<and> pr_deleted_at r = None) db"

definition count_for_session :: "runs \<Rightarrow> string \<Rightarrow> nat" where
  "count_for_session db session_id = length (filter (\<lambda>r. pr_session_id r = session_id \<and> pr_deleted_at r = None) db)"

definition status_of :: "runs \<Rightarrow> string \<Rightarrow> string option" where
  "status_of db i = map_option pr_status (get_run db i)"

definition soft_delete_run :: "string \<Rightarrow> string \<Rightarrow> runs \<Rightarrow> bool \<times> runs" where
  "soft_delete_run now i db =
     (let (n, db') = update_where (active i) (\<lambda>r. r\<lparr>pr_deleted_at := Some now, pr_updated_at := now\<rparr>) db
      in (n > 0, db'))"

section \<open>Facts\<close>

lemma parse_status_str [simp]: "parse_status (status_str s) = Some s"
  by (cases s) (simp_all add: parse_status_def)

lemma parse_status_Some: "parse_status t = Some s \<longleftrightarrow> t = status_str s"
proof
  assume p: "parse_status t = Some s"
  show "t = status_str s"
  proof (rule ccontr)
    assume "t \<noteq> status_str s"
    with p show False unfolding parse_status_def by (cases s) (simp_all only: status_str.simps split: if_splits, simp_all)
  qed
qed simp

lemma status_str_inj: "status_str s = status_str t \<longleftrightarrow> s = t"
  by (metis option.inject parse_status_str)

lemma find_map_same:
  assumes "\<And>r. P (f r) = P r"
  shows "find P (map f db) = map_option f (find P db)"
  by (induction db) (simp_all add: assms)

lemma status_of_transition:
  assumes "transition_via now i t db = (advanced, db')"
  shows "(advanced \<longleftrightarrow> get_run db i \<noteq> None) \<and> status_of db' i = map_option (\<lambda>_. rt_status t) (get_run db i)"
proof -
  have "find (active i) (map (\<lambda>r. if active i r then f r else r) db) = map_option f (find (active i) db)"
    if "\<And>r. pr_id (f r) = pr_id r \<and> pr_deleted_at (f r) = pr_deleted_at r" for f
  proof -
    have "find (active i) (map (\<lambda>r. if active i r then f r else r) db) =
        map_option (\<lambda>r. if active i r then f r else r) (find (active i) db)"
      using that by (intro find_map_same) (auto simp: active_def)
    also have "\<dots> = map_option f (find (active i) db)"
      by (auto simp: find_Some_iff split: option.splits intro!: option.map_cong)
    finally show ?thesis .
  qed
  then show ?thesis
    using assms
    by (auto simp: transition_via_def update_where_def status_of_def get_run_def Let_def option.map_comp comp_def
        find_None_iff filter_empty_conv)
qed

text \<open>After the reset at start-up no run looks as if it were being driven, and no other row has changed.\<close>

lemma reset_leaves_none_running:
  assumes "reset_stale_running now db = (n, db')" and "r \<in> set db'" and "pr_deleted_at r = None"
  shows "pr_status r \<noteq> ''running'' \<and> pr_status r \<noteq> ''queued''"
  using assms by (auto simp: reset_stale_running_def update_where_def)

lemma reset_listed:
  assumes "reset_stale_running now db = (n, db')"
  shows "length (list_interrupted db') = length (list_interrupted db) + n"
proof -
  let ?stale = "\<lambda>r. pr_status r \<in> {''running'', ''queued''} \<and> pr_deleted_at r = None"
  have "length (list_interrupted (map (\<lambda>r. if ?stale r then r\<lparr>pr_status := ''interrupted'', pr_updated_at := now\<rparr> else r) db)) =
      length (list_interrupted db) + length (filter ?stale db)"
    by (induction db) (auto simp: list_interrupted_def)
  then show ?thesis using assms by (simp add: reset_stale_running_def update_where_def)
qed

end
