(* ===== verification/BuildFindings.thy ===== *)
theory BuildFindings
  imports PipelineStages
begin

text \<open>
  The findings of the independent review (\<open>crates/haily-core/src/pipeline/build_pipeline/findings.rs\<close>): their
  severities, how they are read from what a model wrote, and the guard that looks at the diff of a fix for
  signs that the test was changed instead of the code. \<open>low\<close> is \<open>str::to_lowercase\<close>, \<open>from_str\<close> the parser of
  JSON texts; the fields of an object stand in the order of the text, repeated ones included.
\<close>

section \<open>Findings\<close>

datatype Severity = SevCritical | SevHigh | SevMedium | SevLow | SevInfo

definition parse_severity :: "(ustr \<Rightarrow> ustr) \<Rightarrow> ustr \<Rightarrow> Severity" where
  "parse_severity low s =
     (let w = low (trim s)
      in if w \<in> {lit ''critical'', lit ''crit'', lit ''blocker''} then SevCritical
         else if w = lit ''high'' then SevHigh
         else if w = lit ''low'' then SevLow
         else if w \<in> {lit ''info'', lit ''informational'', lit ''note'', lit ''nit''} then SevInfo
         else SevMedium)"

record Finding =
  fi_severity :: Severity
  fi_file :: ustr
  fi_line :: "u32 option"
  fi_summary :: ustr
  fi_failure_scenario :: ustr

definition is_critical :: "Finding \<Rightarrow> bool" where
  "is_critical f \<longleftrightarrow> fi_severity f = SevCritical"

section \<open>Reading findings\<close>

text \<open>What \<open>serde\<close> does with a field of type \<open>String\<close>, \<open>Severity\<close> or \<open>Option<u32>\<close>.\<close>

fun json_string :: "json \<Rightarrow> ustr option" where
  "json_string (JStr s) = Some (text_of s)"
| "json_string _ = None"

definition json_severity :: "(ustr \<Rightarrow> ustr) \<Rightarrow> json \<Rightarrow> Severity option" where
  "json_severity low v = map_option (parse_severity low) (json_string v)"

fun json_line :: "json \<Rightarrow> u32 option option" where
  "json_line JNull = Some None"
| "json_line (JNum n) = (if 0 \<le> n \<and> n < 2 ^ 32 then Some (Some (word_of_int n)) else None)"
| "json_line _ = None"

definition field_or :: "'a \<Rightarrow> (json \<Rightarrow> 'a option) \<Rightarrow> json option \<Rightarrow> 'a option" where
  "field_or d conv v = (case v of None \<Rightarrow> Some d | Some x \<Rightarrow> conv x)"

definition once :: "string list \<Rightarrow> (string \<times> json) list \<Rightarrow> bool" where
  "once keys flds \<longleftrightarrow> list_all (\<lambda>k. length (filter (\<lambda>f. fst f = k) flds) \<le> 1) keys"

definition build_finding :: "(ustr \<Rightarrow> ustr) \<Rightarrow> json option \<Rightarrow> json option \<Rightarrow> json option \<Rightarrow> json option
    \<Rightarrow> json option \<Rightarrow> Finding option" where
  "build_finding low severity file line summary scenario =
     do {
       sev \<leftarrow> Option.bind severity (json_severity low);
       fl \<leftarrow> field_or [] json_string file;
       ln \<leftarrow> field_or None json_line line;
       su \<leftarrow> Option.bind summary json_string;
       fs \<leftarrow> field_or [] json_string scenario;
       Some \<lparr>fi_severity = sev, fi_file = fl, fi_line = ln, fi_summary = su, fi_failure_scenario = fs\<rparr>
     }"

text \<open>A record is read from an object, or from an array that lists its fields in order.\<close>

fun finding_of_json :: "(ustr \<Rightarrow> ustr) \<Rightarrow> json \<Rightarrow> Finding option" where
  "finding_of_json low (JObj flds) =
     (if once [''severity'', ''file'', ''line'', ''summary'', ''failure_scenario''] flds
      then build_finding low (map_of flds ''severity'') (map_of flds ''file'') (map_of flds ''line'')
             (map_of flds ''summary'') (map_of flds ''failure_scenario'')
      else None)"
| "finding_of_json low (JArr [a, b, c, d]) = build_finding low (Some a) (Some b) (Some c) (Some d) None"
| "finding_of_json low (JArr [a, b, c, d, e]) = build_finding low (Some a) (Some b) (Some c) (Some d) (Some e)"
| "finding_of_json low _ = None"

fun findings_list :: "(ustr \<Rightarrow> ustr) \<Rightarrow> json \<Rightarrow> Finding list option" where
  "findings_list low (JArr vs) = those (map (finding_of_json low) vs)"
| "findings_list low _ = None"

fun findings_doc :: "(ustr \<Rightarrow> ustr) \<Rightarrow> json \<Rightarrow> Finding list option" where
  "findings_doc low (JObj flds) =
     (if once [''findings''] flds then field_or [] (findings_list low) (map_of flds ''findings'') else None)"
| "findings_doc low (JArr []) = Some []"
| "findings_doc low (JArr [v]) = findings_list low v"
| "findings_doc low _ = None"

definition strip_lit :: "string \<Rightarrow> ustr \<Rightarrow> ustr option" where
  "strip_lit p s = (if prefix (lit p) s then Some (drop (length p) s) else None)"

definition FENCE :: ustr where "FENCE = [96, 96, 96]"

definition strip_fence :: "ustr \<Rightarrow> ustr option" where
  "strip_fence s = (if prefix FENCE s then Some (drop 3 s) else None)"

text \<open>The text after the first line, and the text before the last fence; the whole text where there is none.\<close>

definition after_line :: "ustr \<Rightarrow> ustr" where
  "after_line s = (if 10 \<in> set s then tl (dropWhile (\<lambda>c. c \<noteq> 10) s) else s)"

definition before_fence :: "ustr \<Rightarrow> ustr" where
  "before_fence s =
     (case filter (\<lambda>i. prefix FENCE (drop i s)) [0..<length s] of [] \<Rightarrow> s | is \<Rightarrow> take (last is) s)"

definition unfence :: "ustr \<Rightarrow> ustr" where
  "unfence raw = (let s = trim raw in case strip_fence s of Some rest \<Rightarrow> before_fence (after_line rest) | None \<Rightarrow> s)"

definition OPEN_BRACE :: nat where "OPEN_BRACE = 123"
definition CLOSE_BRACE :: nat where "CLOSE_BRACE = 125"

text \<open>From the first opening brace to the last closing brace.\<close>

definition brace_span :: "ustr \<Rightarrow> ustr option" where
  "brace_span s =
     (let a = length (takeWhile (\<lambda>c. c \<noteq> OPEN_BRACE) s);
          k = length (takeWhile (\<lambda>c. c \<noteq> CLOSE_BRACE) (rev s))
      in if OPEN_BRACE \<in> set s \<and> CLOSE_BRACE \<in> set s \<and> a < length s - k then Some (take (length s - k - a) (drop a s))
         else None)"

definition extract_json_block :: "ustr \<Rightarrow> ustr" where
  "extract_json_block raw = (let s = unfence raw in case brace_span s of Some t \<Rightarrow> t | None \<Rightarrow> s)"

definition parse_findings_raw :: "(ustr \<Rightarrow> ustr) \<Rightarrow> from_str \<Rightarrow> ustr \<Rightarrow> Finding list option" where
  "parse_findings_raw low from_str raw = Option.bind (from_str (extract_json_block raw)) (findings_doc low)"

fun parse_findings :: "(ustr \<Rightarrow> ustr) \<Rightarrow> from_str \<Rightarrow> json \<Rightarrow> Finding list option" where
  "parse_findings low from_str (JStr s) = parse_findings_raw low from_str (text_of s)"
| "parse_findings low from_str v = findings_doc low v"

section \<open>The guard against weakened tests\<close>

definition ASSERT_MACROS :: "string list" where
  "ASSERT_MACROS =
     [''assert!('', ''assert_eq!('', ''assert_ne!('', ''debug_assert!('', ''debug_assert_eq!('', ''debug_assert_ne!('']"

definition SUPPRESSIONS :: "string list" where
  "SUPPRESSIONS =
     [''#[ignore]'', ''.skip('', ''.only('', ''xfail'', ''pytest.mark.skip'', ''@Disabled'', ''it.skip'', ''test.skip'']"

definition is_trivially_true_assertion :: "ustr \<Rightarrow> bool" where
  "is_trivially_true_assertion added \<longleftrightarrow>
     filter (\<lambda>c. \<not> is_whitespace c) added \<in>
       lit ` {''assert!(true)'', ''assert!(true);'', ''assert!(1==1)'', ''assert!(1==1);'', ''assert_eq!(1,1)'',
              ''assert_eq!(1,1);''}"

definition base_name :: "ustr \<Rightarrow> ustr" where
  "base_name p = rev (takeWhile (\<lambda>c. c \<noteq> 47) (rev p))"

definition is_test_path :: "ustr \<Rightarrow> bool" where
  "is_test_path path \<longleftrightarrow>
     (let p = map (\<lambda>c. if c = 92 then 47 else c) path; base = base_name p
      in has_text ''/tests/'' p \<or> prefix (lit ''tests/'') p \<or> suffix (lit ''_test.rs'') base \<or>
         suffix (lit ''_test.go'') base \<or> suffix (lit ''_spec.rb'') base \<or> prefix (lit ''test_'') base \<or>
         has_text ''.test.'' base \<or> has_text ''.spec.'' base \<or> has_text ''_spec.'' base)"

record tamper =
  tp_files :: "ustr list"
  tp_hits :: "string list"
  tp_trivial :: bool
  tp_removed :: "ustr option"

definition header_path :: "ustr \<Rightarrow> ustr option" where
  "header_path line =
     (case strip_lit ''+++ b/'' line of Some p \<Rightarrow> Some (trim p)
      | None \<Rightarrow> map_option trim (strip_lit ''--- a/'' line))"

definition tamper_step :: "ustr \<Rightarrow> tamper \<Rightarrow> tamper" where
  "tamper_step line t =
     (case header_path line of
        Some path \<Rightarrow>
          (if path \<noteq> lit ''/dev/null'' \<and> is_test_path path \<and> path \<notin> set (tp_files t)
           then t\<lparr>tp_files := tp_files t @ [path]\<rparr> else t)
      | None \<Rightarrow>
          (case strip_lit ''+'' line of
             Some added \<Rightarrow>
               (if prefix (lit ''++'') added then t
                else t\<lparr>tp_hits := tp_hits t @ filter (\<lambda>s. has_text s added \<and> s \<notin> set (tp_hits t)) SUPPRESSIONS,
                       tp_trivial := tp_trivial t \<or> is_trivially_true_assertion added\<rparr>)
           | None \<Rightarrow>
               (case strip_lit ''-'' line of
                  Some removed \<Rightarrow>
                    (if prefix (lit ''--'') removed then t
                     else if tp_removed t = None \<and> list_ex (\<lambda>m. has_text m removed) ASSERT_MACROS
                       then t\<lparr>tp_removed := Some (trim removed)\<rparr>
                     else t)
                | None \<Rightarrow> t)))"

definition read_diff :: "ustr \<Rightarrow> tamper" where
  "read_diff diff = fold tamper_step (str_lines diff) \<lparr>tp_files = [], tp_hits = [], tp_trivial = False, tp_removed = None\<rparr>"

fun comma_join :: "ustr list \<Rightarrow> ustr" where
  "comma_join [] = []"
| "comma_join [x] = x"
| "comma_join (x # xs) = x @ lit '', '' @ comma_join xs"

definition tamper_summary :: "tamper \<Rightarrow> ustr" where
  "tamper_summary t =
     lit ''reward-hacking guard: the fix altered the TEST, not the code'' @
     (if tp_files t = [] then [] else lit '' '' @ [8212] @ lit '' modified test file(s): '' @ comma_join (tp_files t)) @
     (if tp_hits t = [] then []
      else lit '' '' @ [8212] @ lit '' added test-suppression token(s): '' @ comma_join (map lit (tp_hits t))) @
     (if tp_trivial t then lit '' '' @ [8212] @ lit '' added a trivially-true assertion (e.g. '' @ [96] @ lit ''assert!(true)'' @
        [96] @ lit '')'' else []) @
     (case tp_removed t of Some r \<Rightarrow> lit '' '' @ [8212] @ lit '' removed an assertion: '' @ r | None \<Rightarrow> [])"

definition detect_test_tampering :: "ustr \<Rightarrow> Finding option" where
  "detect_test_tampering diff =
     (let t = read_diff diff
      in if tp_files t = [] \<and> tp_hits t = [] \<and> \<not> tp_trivial t \<and> tp_removed t = None then None
         else Some \<lparr>fi_severity = SevCritical, fi_file = (case tp_files t of f # _ \<Rightarrow> f | [] \<Rightarrow> []), fi_line = None,
                    fi_summary = tamper_summary t,
                    fi_failure_scenario = lit ''A gate that went green only because its test was weakened is a false pass '' @
                      [8212] @ lit '' the untested behavior can still be broken in production.''\<rparr>)"

section \<open>The tool of the review\<close>

fun severity_category :: "Severity \<Rightarrow> string" where
  "severity_category SevCritical = ''critical''"
| "severity_category SevHigh = ''high''"
| "severity_category SevMedium = ''medium''"
| "severity_category SevLow = ''low''"
| "severity_category SevInfo = ''info''"

definition finding_json :: "Finding \<Rightarrow> json" where
  "finding_json f =
     JObj [(''severity'', JStr (severity_category (fi_severity f))), (''file'', JStr (string_of (fi_file f))),
           (''line'', case fi_line f of None \<Rightarrow> JNull | Some n \<Rightarrow> JNum (uint n)),
           (''summary'', JStr (string_of (fi_summary f))),
           (''failure_scenario'', JStr (string_of (fi_failure_scenario f)))]"

definition findings_json :: "Finding list \<Rightarrow> json" where
  "findings_json fs = JObj [(''findings'', JArr (map finding_json fs))]"

text \<open>
  \<open>EmitFindingsTool::execute\<close>; \<open>show\<close> is the printer. The answer is the number of findings and of critical
  ones, with the table of runs.
\<close>

definition emit_findings :: "(ustr \<Rightarrow> ustr) \<Rightarrow> from_str \<Rightarrow> (json \<Rightarrow> string) \<Rightarrow> string \<Rightarrow> bool \<Rightarrow> string option \<Rightarrow> json
    \<Rightarrow> runs \<Rightarrow> ((nat \<times> nat) \<times> runs) option" where
  "emit_findings low from_str sh now db_ok run_id args db =
     (case parse_findings low from_str args of
        None \<Rightarrow> None
      | Some fs \<Rightarrow>
          (let answer = (length fs, length (filter is_critical fs))
           in case run_id of
                None \<Rightarrow> Some (answer, db)
              | Some i \<Rightarrow> if db_ok then Some (answer, snd (set_findings now i (sh (findings_json fs)) db)) else None))"

text \<open>\<open>read_findings\<close>: what a run's row holds.\<close>

definition read_findings :: "(ustr \<Rightarrow> ustr) \<Rightarrow> from_str \<Rightarrow> bool \<Rightarrow> runs \<Rightarrow> string \<Rightarrow> Finding list option" where
  "read_findings low from_str db_ok db run_id =
     (if \<not> db_ok then None
      else do {
        row \<leftarrow> get_run db run_id;
        raw \<leftarrow> pr_findings row;
        v \<leftarrow> from_str (text_of raw);
        findings_doc low v
      })"

section \<open>The guard, line by line\<close>

text \<open>What makes a line of a diff suspicious, whatever stands around it.\<close>

definition suspicious :: "ustr \<Rightarrow> bool" where
  "suspicious line \<longleftrightarrow>
     (case header_path line of
        Some path \<Rightarrow> path \<noteq> lit ''/dev/null'' \<and> is_test_path path
      | None \<Rightarrow>
          (case strip_lit ''+'' line of
             Some added \<Rightarrow>
               \<not> prefix (lit ''++'') added \<and>
               (list_ex (\<lambda>s. has_text s added) SUPPRESSIONS \<or> is_trivially_true_assertion added)
           | None \<Rightarrow>
               (case strip_lit ''-'' line of
                  Some removed \<Rightarrow> \<not> prefix (lit ''--'') removed \<and> list_ex (\<lambda>m. has_text m removed) ASSERT_MACROS
                | None \<Rightarrow> False)))"

definition untouched :: "tamper \<Rightarrow> bool" where
  "untouched t \<longleftrightarrow> tp_files t = [] \<and> tp_hits t = [] \<and> \<not> tp_trivial t \<and> tp_removed t = None"

lemma step_untouched: "untouched (tamper_step line t) \<longleftrightarrow> untouched t \<and> \<not> suspicious line"
  by (auto simp: tamper_step_def suspicious_def untouched_def list_ex_iff filter_empty_conv split: option.splits)

lemma fold_untouched: "untouched (fold tamper_step ls t) \<longleftrightarrow> untouched t \<and> (\<forall>l\<in>set ls. \<not> suspicious l)"
  by (induction ls arbitrary: t) (auto simp: step_untouched)

lemma detected: "detect_test_tampering diff = None \<longleftrightarrow> untouched (read_diff diff)"
  by (simp add: detect_test_tampering_def untouched_def Let_def)


section \<open>From the reviewer to the wrapper\<close>

definition rust_texts :: "Finding \<Rightarrow> bool" where
  "rust_texts f \<longleftrightarrow> list_all scalar (fi_file f) \<and> list_all scalar (fi_summary f) \<and> list_all scalar (fi_failure_scenario f)"

lemma category_text: "lit (severity_category s) = text_of (severity_category s)"
  by (cases s) (simp_all add: text_of_def)

lemma category_roundtrip:
  assumes "\<And>w. list_all (\<lambda>c. 97 \<le> c \<and> c \<le> 122) w \<Longrightarrow> low w = w"
  shows "parse_severity low (text_of (severity_category s)) = s"
  unfolding category_text [symmetric] by (cases s) (simp_all add: parse_severity_def assms trim_def is_whitespace_def Let_def)

lemma finding_roundtrip:
  assumes "\<And>w. list_all (\<lambda>c. 97 \<le> c \<and> c \<le> 122) w \<Longrightarrow> low w = w" "rust_texts f"
  shows "finding_of_json low (finding_json f) = Some f"
  using assms(2) category_roundtrip [OF assms(1)] uint_bounded [where 'a = 32, simplified]
  by (cases "fi_line f") (auto simp: finding_json_def once_def build_finding_def json_severity_def field_or_def rust_texts_def
      text_of_string_of)

lemma those_map_Some: "(\<And>x. x \<in> set xs \<Longrightarrow> f x = Some (g x)) \<Longrightarrow> those (map f xs) = Some (map g xs)"
  by (induction xs) auto

lemma findings_roundtrip:
  assumes "\<And>w. list_all (\<lambda>c. 97 \<le> c \<and> c \<le> 122) w \<Longrightarrow> low w = w" "list_all rust_texts fs"
  shows "findings_doc low (findings_json fs) = Some fs"
proof -
  have "those (map (finding_of_json low \<circ> finding_json) fs) = Some (map id fs)"
    by (rule those_map_Some) (use finding_roundtrip [OF assms(1)] assms(2) in \<open>auto simp: list_all_iff\<close>)
  then show ?thesis by (simp add: findings_json_def once_def field_or_def)
qed

lemma set_findings_reads:
  assumes "set_findings now i t db = (ok, db')"
  shows "get_run db' i = map_option (\<lambda>r. r\<lparr>pr_findings := Some t, pr_updated_at := now\<rparr>) (get_run db i)"
    "j \<noteq> i \<Longrightarrow> get_run db' j = get_run db j"
proof -
  let ?f = "\<lambda>r. if active i r then r\<lparr>pr_findings := Some t, pr_updated_at := now\<rparr> else r"
  have db': "db' = map ?f db" using assms by (auto simp: set_findings_def update_where_def)
  have same: "active k (?f r) = active k r" for k r by (simp add: active_def)
  have find: "get_run db' k = map_option ?f (get_run db k)" for k
    unfolding get_run_def db' by (rule find_map_same) (rule same)
  show "get_run db' i = map_option (\<lambda>r. r\<lparr>pr_findings := Some t, pr_updated_at := now\<rparr>) (get_run db i)"
    unfolding find by (auto simp: get_run_def find_Some_iff intro!: option.map_cong)
  have "\<not> active i r" if "get_run db j = Some r" "j \<noteq> i" for r
    using that by (auto simp: get_run_def find_Some_iff active_def)
  then show "j \<noteq> i \<Longrightarrow> get_run db' j = get_run db j" unfolding find by (cases "get_run db j") auto
qed

text \<open>
  Property C39: the findings of the review reach the wrapper that decides on them. Whatever shape the model
  gave its answer (an object, an array, a fenced text), the findings the tool read are those it stores on the
  row of its run, and exactly those the wrapper reads back from that row; no other row changes.
\<close>

theorem findings_reach_the_wrapper:
  assumes parsed: "parse_findings low from_str args = Some fs" and texts: "list_all rust_texts fs"
    and row: "get_run db i \<noteq> None"
    and printer: "from_str (text_of (sh (findings_json fs))) = Some (findings_json fs)"
    and lower: "\<And>w. list_all (\<lambda>c. 97 \<le> c \<and> c \<le> 122) w \<Longrightarrow> low w = w"
  shows "\<exists>db'. emit_findings low from_str sh now True (Some i) args db =
       Some ((length fs, length (filter is_critical fs)), db') \<and>
     read_findings low from_str True db' i = Some fs \<and> (\<forall>j. j \<noteq> i \<longrightarrow> get_run db' j = get_run db j)"
proof -
  obtain ok db' where s: "set_findings now i (sh (findings_json fs)) db = (ok, db')" by fastforce
  obtain r where "get_run db i = Some r" using row by auto
  then have "read_findings low from_str True db' i = Some fs"
    using set_findings_reads(1) [OF s] printer findings_roundtrip [OF lower texts] by (simp add: read_findings_def)
  then show ?thesis
    using parsed s set_findings_reads(2) [OF s] by (intro exI [of _ db']) (auto simp: emit_findings_def)
qed

definition sample_args :: json where
  "sample_args = JArr [JArr [JObj [(''severity'', JStr ''blocker''), (''summary'', JStr ''x'')]]]"

definition sample_criticals :: "Finding list" where
  "sample_criticals =
     [\<lparr>fi_severity = SevCritical, fi_file = [], fi_line = None, fi_summary = lit ''x'', fi_failure_scenario = []\<rparr>]"

definition one_run :: "string \<Rightarrow> runs" where
  "one_run i = snd (the (create_run (\<lambda>_. True) (\<lambda>_. True) [] i ''t'' ''s'' None 9))"

theorem findings_reach_the_wrapper_witness:
  "\<exists>db'. emit_findings id (\<lambda>_. Some (findings_json sample_criticals)) (\<lambda>_. ''f'') ''t'' True (Some ''r'') sample_args (one_run ''r'') =
       Some ((1, 1), db') \<and>
     read_findings id (\<lambda>_. Some (findings_json sample_criticals)) True db' ''r'' = Some sample_criticals"
proof -
  have "parse_findings id (\<lambda>_. Some (findings_json sample_criticals)) sample_args = Some sample_criticals"
    by (simp add: sample_args_def sample_criticals_def build_finding_def json_severity_def field_or_def once_def
        text_of_def parse_severity_def trim_def is_whitespace_def Let_def)
  moreover have "list_all rust_texts sample_criticals" by (simp add: sample_criticals_def rust_texts_def scalar_def)
  moreover have "get_run (one_run ''r'') ''r'' \<noteq> None" by (simp add: one_run_def create_run_def get_run_def active_def Let_def)
  ultimately show ?thesis
    using findings_reach_the_wrapper [where low = id and from_str = "\<lambda>_. Some (findings_json sample_criticals)" and args = sample_args
        and fs = sample_criticals and db = "one_run ''r''" and i = "''r''" and sh = "\<lambda>_. ''f''" and now = "''t''"]
    by (auto simp: sample_criticals_def is_critical_def)
qed

end
