(* ===== verification/Exemplars.thy ===== *)
theory Exemplars
  imports BuildFindings
begin

text \<open>
  The choice of exemplar files for the build stage (\<open>crates/haily-core/src/pipeline/exemplar.rs\<close>): neighbours
  of the files a phase will write, recent ones first, within a budget of lines, quoted without tool tags. The
  walk over the worktree is an argument: the files it reads, as candidates.
\<close>

section \<open>Selection\<close>

definition MAX_EXEMPLAR_LINES :: nat where "MAX_EXEMPLAR_LINES = 80"
definition MAX_EXEMPLAR_FILES :: nat where "MAX_EXEMPLAR_FILES = 3"

record Candidate =
  cd_rel_path :: ustr
  cd_mtime :: nat
  cd_line_count :: nat
  cd_content :: ustr

definition ascii_alnum :: "nat \<Rightarrow> bool" where
  "ascii_alnum c \<longleftrightarrow> 48 \<le> c \<and> c \<le> 57 \<or> 65 \<le> c \<and> c \<le> 90 \<or> 97 \<le> c \<and> c \<le> 122"

text \<open>The extension is ASCII, so its lower case is the ASCII one.\<close>

definition ext_of :: "ustr \<Rightarrow> ustr option" where
  "ext_of path =
     (let base = base_name path; ext = rev (takeWhile (\<lambda>c. c \<noteq> 46) (rev base))
      in if 46 \<in> set base \<and> ext \<noteq> [] \<and> length ext \<le> 5 \<and> list_all ascii_alnum ext
         then Some (map to_ascii_lowercase ext) else None)"

definition has_ext :: "(ustr \<Rightarrow> ustr) \<Rightarrow> ustr \<Rightarrow> ustr \<Rightarrow> bool" where
  "has_ext low rel_path ext \<longleftrightarrow> ext_of rel_path = Some (low ext)"

fun trim_dot_slash :: "ustr \<Rightarrow> ustr" where
  "trim_dot_slash (a # b # s) = (if a = 46 \<and> b = 47 then trim_dot_slash s else a # b # s)"
| "trim_dot_slash s = s"

definition slashes :: "ustr \<Rightarrow> ustr" where
  "slashes = map (\<lambda>c. if c = 92 then 47 else c)"

definition is_excluded :: "ustr \<Rightarrow> ustr list \<Rightarrow> bool" where
  "is_excluded rel_path exclude \<longleftrightarrow>
     list_ex (\<lambda>e0. let e = trim_dot_slash (slashes e0)
                   in rel_path = e \<or> suffix (47 # e) rel_path \<or> suffix (47 # rel_path) e) exclude"

text \<open>Newer first, then by path; the sort is stable.\<close>

definition before_in_order :: "Candidate \<Rightarrow> Candidate \<Rightarrow> bool" where
  "before_in_order a b \<longleftrightarrow> cd_mtime b < cd_mtime a \<or> cd_mtime a = cd_mtime b \<and> lexordp_eq (cd_rel_path a) (cd_rel_path b)"

fun insert_by :: "('a \<Rightarrow> 'a \<Rightarrow> bool) \<Rightarrow> 'a \<Rightarrow> 'a list \<Rightarrow> 'a list" where
  "insert_by le x [] = [x]"
| "insert_by le x (y # ys) = (if le x y then x # y # ys else y # insert_by le x ys)"

definition sort_by :: "('a \<Rightarrow> 'a \<Rightarrow> bool) \<Rightarrow> 'a list \<Rightarrow> 'a list" where
  "sort_by le xs = foldr (insert_by le) xs []"

fun greedy :: "nat \<Rightarrow> nat \<Rightarrow> Candidate list \<Rightarrow> Candidate list" where
  "greedy chosen used [] = []"
| "greedy chosen used (c # cs) =
     (if chosen \<ge> MAX_EXEMPLAR_FILES then []
      else if used + cd_line_count c > MAX_EXEMPLAR_LINES then greedy chosen used cs
      else c # greedy (Suc chosen) (used + cd_line_count c) cs)"

definition select :: "(ustr \<Rightarrow> ustr) \<Rightarrow> Candidate list \<Rightarrow> ustr \<Rightarrow> ustr list \<Rightarrow> Candidate list" where
  "select low candidates ext exclude =
     greedy 0 0 (sort_by before_in_order
       (filter (\<lambda>c. has_ext low (cd_rel_path c) ext \<and> \<not> is_excluded (cd_rel_path c) exclude) candidates))"

section \<open>The block\<close>

definition trim_end :: "ustr \<Rightarrow> ustr" where
  "trim_end s = rev (trim_start (rev s))"

definition exemplar_text :: "Candidate \<Rightarrow> ustr" where
  "exemplar_text c =
     [10] @ lit ''### '' @ strip_tool_tags (cd_rel_path c) @ [10] @ FENCE @ [10] @
     strip_tool_tags (trim_end (cd_content c)) @ [10] @ FENCE @ [10]"

definition EXEMPLAR_HEAD :: ustr where
  "EXEMPLAR_HEAD =
      lit ''## Exemplars'' @ [10] @ lit ''Recent files from THIS workspace '' @ [8212] @
      lit '' match their conventions, imports, and error-handling idiom. These are neighbors to imitate, '' @
      lit ''not files to edit:'' @ [10]"

definition exemplar_block :: "Candidate list \<Rightarrow> ustr" where
  "exemplar_block chosen = (if chosen = [] then [] else EXEMPLAR_HEAD @ concat (map exemplar_text chosen))"

text \<open>The most common extension, the first to appear among equals.\<close>

definition primary_ext :: "ustr list \<Rightarrow> ustr option" where
  "primary_ext files =
     (let exts = List.map_filter ext_of files; n = (\<lambda>e. length (filter ((=) e) exts))
      in find (\<lambda>e. \<forall>e'\<in>set exts. n e' \<le> n e) exts)"

definition build_exemplar_block :: "(ustr \<Rightarrow> ustr) \<Rightarrow> (ustr \<Rightarrow> Candidate list) \<Rightarrow> ustr \<Rightarrow> ustr list \<Rightarrow> ustr" where
  "build_exemplar_block low gather ext exclude =
     (if ext = [] then [] else exemplar_block (select low (gather ext) ext exclude))"

section \<open>The target files of a phase\<close>

fun split_by :: "(nat \<Rightarrow> bool) \<Rightarrow> ustr \<Rightarrow> ustr list" where
  "split_by p [] = [[]]"
| "split_by p (c # s) =
     (if p c then [] # split_by p s else (case split_by p s of [] \<Rightarrow> [[c]] | t # ts \<Rightarrow> (c # t) # ts))"

definition trim_matches :: "(nat \<Rightarrow> bool) \<Rightarrow> ustr \<Rightarrow> ustr" where
  "trim_matches p s = rev (dropWhile p (rev (dropWhile p s)))"

definition split_tokens :: "ustr \<Rightarrow> ustr list" where
  "split_tokens line =
     filter (\<lambda>t. t \<noteq> []) (map (trim_matches (\<lambda>c. c \<in> {46, 58, 59}))
       (split_by (\<lambda>c. is_whitespace c \<or> c \<in> {96, 124, 44, 40, 41, 42}) line))"

definition looks_like_path :: "ustr \<Rightarrow> bool" where
  "looks_like_path tok \<longleftrightarrow>
     47 \<in> set tok \<and> \<not> has_text ''..'' tok \<and> \<not> has_text ''://'' tok \<and> ext_of tok \<noteq> None"

definition target_section :: "(ustr \<Rightarrow> ustr) \<Rightarrow> ustr \<Rightarrow> bool" where
  "target_section low h \<longleftrightarrow>
     (let heading = low (trim (dropWhile (\<lambda>c. c = 35) h))
      in has_text ''related file'' heading \<or> has_text ''related code file'' heading \<or> has_text ''file inventory'' heading \<or>
         has_text ''file ownership'' heading)"

fun add_paths :: "ustr list \<Rightarrow> ustr list \<Rightarrow> ustr list" where
  "add_paths out [] = out"
| "add_paths out (t # ts) = add_paths (if looks_like_path t \<and> t \<notin> set out then out @ [t] else out) ts"

fun related_step :: "(ustr \<Rightarrow> ustr) \<Rightarrow> ustr \<Rightarrow> bool \<times> ustr list \<Rightarrow> bool \<times> ustr list" where
  "related_step low line (in_section, out) =
     (case strip_lit ''##'' (trim_start line) of
        Some h \<Rightarrow> (target_section low h, out)
      | None \<Rightarrow> (in_section, if in_section then add_paths out (split_tokens line) else out))"

definition parse_related_files :: "(ustr \<Rightarrow> ustr) \<Rightarrow> ustr \<Rightarrow> ustr list" where
  "parse_related_files low phase_md = snd (fold (related_step low) (str_lines phase_md) (False, []))"

end
