(* ===== verification/Judge.thy ===== *)
theory Judge
  imports BuildFindings WireTypes
begin

text \<open>
  The judgment machinery of the Deep mode (\<open>crates/haily-core/src/pipeline/judge.rs\<close>): the panel of two design
  lenses and their synthesis, the two refuters of a critical finding, and the apex judge. What a judge
  sub-turn leaves behind is an argument: the arguments of its synthetic tool, when it called it, and its final
  text, when it did not fail or time out.
\<close>

section \<open>A judge sub-turn\<close>

record judge_env =
  je_llm :: LlmRouter
  je_from_str :: from_str
  je_subturn :: "nat \<Rightarrow> ustr \<Rightarrow> ustr \<Rightarrow> Tier option \<Rightarrow> json option \<times> ustr option"

definition run_judge_subturn :: "judge_env \<Rightarrow> nat \<Rightarrow> ustr \<Rightarrow> ustr \<Rightarrow> Tier option \<Rightarrow> ustr option" where
  "run_judge_subturn je n system_prompt task tier = snd (je_subturn je n system_prompt task tier)"

definition extract_json_value :: "from_str \<Rightarrow> ustr \<Rightarrow> json option" where
  "extract_json_value from_str raw = Option.bind (brace_span (unfence raw)) from_str"

definition run_json_subturn :: "judge_env \<Rightarrow> nat \<Rightarrow> ustr \<Rightarrow> ustr \<Rightarrow> Tier option \<Rightarrow> json option" where
  "run_json_subturn je n system_prompt task tier =
     (case je_subturn je n system_prompt task tier of
        (Some v, _) \<Rightarrow> Some v
      | (None, txt) \<Rightarrow> Option.bind txt (extract_json_value (je_from_str je)))"

text \<open>The tier of a synthesis or a verdict, and the warning the user sees when it is not Ultra.\<close>

definition tier_warning :: "ustr \<Rightarrow> ustr" where
  "tier_warning what =
      lit ''L'' @ [432] @ lit ''u '' @ [253] @ lit '': m'' @ [244] @ lit '' h'' @ [236] @ lit ''nh Ultra kh'' @
      [244] @ lit ''ng kh'' @ [7843] @ lit '' d'' @ [7909] @ lit ''ng '' @ [7903] @ lit '' c'' @ [7845] @
      lit ''u h'' @ [236] @ lit ''nh n'' @ [224] @ lit ''y '' @ [8212] @ lit '' '' @ what @
      lit '' s'' @ [7869] @ lit '' ch'' @ [7841] @ lit ''y '' @ [7903] @ lit '' tier phi'' @ [234] @ lit ''n hi'' @
      [7879] @ lit ''n t'' @ [7841] @ lit ''i (ch'' @ [7845] @ lit ''t l'' @ [432, 7907] @ lit ''ng ph'' @ [225] @
      lit ''n '' @ [273] @ lit ''o'' @ [225] @ lit ''n c'' @ [243] @ lit '' th'' @ [7875] @ lit '' th'' @ [7845] @
      lit ''p h'' @ [417] @ lit ''n).''"

definition max_available_tier :: "judge_env \<Rightarrow> ustr \<Rightarrow> Tier option \<times> ustr list" where
  "max_available_tier je what =
     (if ultra_reachable (je_llm je) then (Some Ultra, []) else (None, [tier_warning what]))"

section \<open>The design panel\<close>

definition LENS_RISK_PROMPT :: ustr where
  "LENS_RISK_PROMPT =
      lit ''You are a design reviewer with a RISK-FIRST lens. Propose a design for the task that minimizes '' @
      lit ''the chance of failure: name the failure modes, the irreversible or security-sensitive steps, '' @
      lit ''and the guards each needs. Prefer the safer design even at some cost to elegance. Output '' @
      lit ''the design as prose.''"

definition LENS_SIMPLE_PROMPT :: ustr where
  "LENS_SIMPLE_PROMPT =
      lit ''You are a design reviewer with a SIMPLICITY-FIRST lens. Propose the smallest design that '' @
      lit ''fully solves the task: the fewest moving parts, the least new surface, and nothing speculative '' @
      lit ''(YAGNI/KISS). Call out complexity that can be cut. Output the design as prose.''"

definition SYNTHESIS_PROMPT :: ustr where
  "SYNTHESIS_PROMPT =
      lit ''You are a design synthesizer. You are given two candidate designs from different lenses '' @
      lit ''(risk-first and simplicity-first). Produce ONE design that GRAFTS the strongest element '' @
      lit ''of each onto a single coherent approach '' @ [8212] @
      lit '' do NOT average them, and do NOT emit two options. Note the provenance of each grafted element '' @
      lit ''(which lens it came from). Output a single design as prose.''"

record DesignResult =
  ds_design :: ustr
  ds_design_calls :: nat
  ds_lens_designs :: "ustr list"

definition or_empty :: "ustr option \<Rightarrow> ustr" where
  "or_empty t = (case t of Some d \<Rightarrow> d | None \<Rightarrow> [])"

definition synth_task :: "ustr \<Rightarrow> ustr \<Rightarrow> ustr \<Rightarrow> ustr" where
  "synth_task task risk simple =
      lit ''Task:'' @ [10] @ task @
      [10, 10] @ lit ''## Candidate A (risk-first lens)'' @ [10] @ risk @
      [10, 10] @ lit ''## Candidate B (simplicity-first lens)'' @ [10] @ simple @
      [10, 10] @ lit ''Graft these into ONE design.''"

definition judge_panel :: "judge_env \<Rightarrow> ustr \<Rightarrow> DesignResult \<times> ustr list" where
  "judge_panel je task =
     (let risk = or_empty (run_judge_subturn je 0 LENS_RISK_PROMPT task None);
          simple = or_empty (run_judge_subturn je 1 LENS_SIMPLE_PROMPT task None);
          (tier, warnings) = max_available_tier je
            (lit ''t'' @ [7893] @ lit ''ng h'' @ [7907] @ lit ''p ph'' @ [432, 417] @ lit ''ng '' @ [225] @
      lit ''n (synthesis)'');
          design = (case run_judge_subturn je 2 SYNTHESIS_PROMPT (synth_task task risk simple) tier of
                      Some d \<Rightarrow> d | None \<Rightarrow> risk)
      in (\<lparr>ds_design = design, ds_design_calls = 3, ds_lens_designs = [risk, simple]\<rparr>, warnings))"

definition PLAN_PROMPT :: ustr where
  "PLAN_PROMPT =
      lit ''You are Haily'' @ [39] @ lit ''s planning agent. Produce a single design for the task as prose.''"

definition plan_design :: "judge_env \<Rightarrow> ustr \<Rightarrow> DepthMode \<Rightarrow> DesignResult \<times> ustr list" where
  "plan_design je task depth =
     (if depth = Deep then judge_panel je task
      else (\<lparr>ds_design = or_empty (run_judge_subturn je 0 PLAN_PROMPT task None), ds_design_calls = 1,
             ds_lens_designs = []\<rparr>, []))"

section \<open>The refuters\<close>

definition REFUTER_PROMPT :: ustr where
  "REFUTER_PROMPT =
      lit ''You are a refuter. You are given a code-review finding claimed to be CRITICAL. Your job '' @
      lit ''is to REFUTE it: argue, with evidence, that it is NOT actually a real critical bug (a false '' @
      lit ''positive, already handled, or not reachable). If you cannot build a solid refutation, you '' @
      lit ''MUST default to NOT refuted (refuted=false) '' @ [8212] @
      lit '' uncertainty means the finding stands. Call '' @ [96] @ lit ''emit_refutation'' @ [96] @
      lit '' with {refuted, reason}.''"

fun as_bool :: "json \<Rightarrow> bool option" where
  "as_bool (JBool b) = Some b"
| "as_bool _ = None"

text \<open>A vote that is missing or cannot be read is a refutation.\<close>

definition run_one_refuter :: "judge_env \<Rightarrow> nat \<Rightarrow> ustr \<Rightarrow> bool" where
  "run_one_refuter je n task =
     (case run_json_subturn je n REFUTER_PROMPT task None of
        Some v \<Rightarrow> (case Option.bind (jget v ''refuted'') as_bool of Some b \<Rightarrow> b | None \<Rightarrow> True)
      | None \<Rightarrow> True)"

definition refuter_task :: "ustr \<Rightarrow> ustr \<Rightarrow> ustr" where
  "refuter_task finding_summary evidence =
     lit ''## Finding (claimed critical)'' @ [10] @ strip_tool_tags finding_summary @ [10, 10] @
     lit ''## Evidence (diff/context, quoted data)'' @ [10] @ strip_tool_tags evidence"

text \<open>Whether the finding stands; \<open>n\<close> counts the judge's sub-turns, two for each finding.\<close>

definition refuter_votes :: "judge_env \<Rightarrow> nat \<Rightarrow> ustr \<Rightarrow> ustr \<Rightarrow> bool" where
  "refuter_votes je n finding_summary evidence =
     (let task = refuter_task finding_summary evidence
      in length (filter id [run_one_refuter je n task, run_one_refuter je (Suc n) task]) < 2)"

section \<open>The apex judge\<close>

definition APEX_PROMPT :: ustr where
  "APEX_PROMPT =
      lit ''You are the apex judge. You are READ-ONLY and you NEVER generate implementation content '' @ [8212] @
      lit '' you only adjudicate. Given the pre-assembled candidates, the evidence, and the rubric, '' @
      lit ''choose the single best candidate and justify it briefly. Call '' @ [96] @ lit ''emit_verdict'' @ [96] @
      lit '' with {chosen, rationale}. Do not propose a new candidate of your own.''"

record ApexVerdict =
  av_verdict :: json
  av_warned_tier_fallback :: bool

definition apex_task :: "ustr \<Rightarrow> ustr \<Rightarrow> ustr \<Rightarrow> ustr" where
  "apex_task candidates evidence rubric =
     lit ''## Candidates'' @ [10] @ strip_tool_tags candidates @ [10, 10] @
     lit ''## Evidence (quoted data)'' @ [10] @ strip_tool_tags evidence @ [10, 10] @
     lit ''## Rubric'' @ [10] @ strip_tool_tags rubric"

definition apex_judge :: "judge_env \<Rightarrow> ustr \<Rightarrow> ustr \<Rightarrow> ustr \<Rightarrow> ApexVerdict \<times> ustr list" where
  "apex_judge je candidates evidence rubric =
     (let (tier, warnings) = max_available_tier je
            (lit ''ph'' @ [225] @ lit ''n quy'' @ [7871] @ lit ''t cu'' @ [7889] @ lit ''i (apex judge)'');
          verdict = (case run_json_subturn je 0 APEX_PROMPT (apex_task candidates evidence rubric) tier of
                       Some v \<Rightarrow> v
                     | None \<Rightarrow> JObj [(''chosen'', JStr []), (''rationale'', JStr ''apex judge produced no parseable verdict'')])
      in (\<lparr>av_verdict = verdict, av_warned_tier_fallback = \<not> ultra_reachable (je_llm je)\<rparr>, warnings))"

text \<open>A finding falls only to two refutations.\<close>

lemma refuted_by_both:
  "\<not> refuter_votes je n s e \<longleftrightarrow>
     run_one_refuter je n (refuter_task s e) \<and> run_one_refuter je (Suc n) (refuter_task s e)"
  by (simp add: refuter_votes_def Let_def)

text \<open>A judge whose sub-turns all fail lets no critical finding stand.\<close>

lemma silent_refuters_drop_everything:
  assumes "\<And>n s t tier. je_subturn je n s t tier = (None, None)"
  shows "\<not> refuter_votes je n summary evidence"
  using assms by (simp add: refuted_by_both run_one_refuter_def run_json_subturn_def)

text \<open>The verdict and the synthesis never fall to a weaker tier without a warning.\<close>

lemma fallback_is_announced:
  "max_available_tier je what = (t, ws) \<Longrightarrow> (t = Some Ultra \<and> ws = []) \<or> (t = None \<and> ws = [tier_warning what])"
  by (auto simp: max_available_tier_def split: if_splits)

text \<open>The panel answers with the synthesis, or with the risk-first design alone.\<close>

lemma panel_never_averages:
  assumes "judge_panel je task = (d, ws)"
  shows "(\<exists>t. run_judge_subturn je 2 SYNTHESIS_PROMPT
            (synth_task task (ds_lens_designs d ! 0) (ds_lens_designs d ! 1)) t = Some (ds_design d)) \<or>
         ds_design d = ds_lens_designs d ! 0"
  using assms by (auto simp: judge_panel_def Let_def split: prod.splits option.splits)

end
