(* ===== verification/PipelineSafety.thy ===== *)
theory PipelineSafety
  imports PipelineRunner
begin

text \<open>
  What the stage machine guarantees, read off the log of a run: a monitor of the log as the specification of
  the order of stages, gates, resets and commits, the number of sub-turns, the tiers they run on, and the
  state in which a run is left.
\<close>

section \<open>The monitor\<close>

text \<open>
  The next stage to be committed, the last answer of its gate since its last sub-turn, and whether the
  worktree may be handed to a sub-turn (at the start, after a commit, after a reset).
\<close>

type_synonym monitor = "nat \<times> gate_answer option \<times> bool"

fun mon_step :: "eff \<Rightarrow> monitor \<Rightarrow> monitor option" where
  "mon_step (ESubTurn i _ _ _) (k, g, clean) = (if i = k \<and> clean then Some (k, None, False) else None)"
| "mon_step (EReset _) (k, g, clean) = Some (k, g, True)"
| "mon_step (EGate i confirming v) (k, g, clean) =
     (if i = k \<and> \<not> clean \<and> (confirming = (g = Some (GaVerdict VPass))) then Some (k, Some v, False) else None)"
| "mon_step (ECommit i ok) (k, g, clean) =
     (if i = k \<and> g = Some (GaVerdict VPass) then Some (if ok then (Suc k, None, True) else (k, g, clean)) else None)"
| "mon_step _ m = Some m"

fun monitor :: "eff list \<Rightarrow> monitor \<Rightarrow> monitor option" where
  "monitor [] m = Some m"
| "monitor (e # es) m = Option.bind (mon_step e m) (monitor es)"

definition START :: monitor where "START = (0, None, True)"

lemma monitor_append: "monitor (es @ fs) m = Option.bind (monitor es m) (monitor fs)"
  by (induction es arbitrary: m) (auto split: bind_splits)

fun quiet :: "eff \<Rightarrow> bool" where
  "quiet (EAskUser _) = True"
| "quiet (EDecision _ _ _ _) = True"
| "quiet (EEvent _) = True"
| "quiet _ = False"

fun is_subturn :: "eff \<Rightarrow> bool" where
  "is_subturn (ESubTurn _ _ _ _) = True"
| "is_subturn _ = False"

definition subturns :: "eff list \<Rightarrow> nat" where
  "subturns es = length (filter is_subturn es)"

definition subturns_of :: "nat \<Rightarrow> eff list \<Rightarrow> nat" where
  "subturns_of idx es = length (filter (\<lambda>e. case e of ESubTurn i _ _ _ \<Rightarrow> i = idx | _ \<Rightarrow> False) es)"

lemma monitor_quiet: "list_all quiet es \<Longrightarrow> monitor es m = Some m"
  by (induction es) (auto elim!: quiet.elims)

lemma subturns_append [simp]: "subturns (es @ fs) = subturns es + subturns fs"
  by (simp add: subturns_def)

lemma subturns_of_append [simp]: "subturns_of i (es @ fs) = subturns_of i es + subturns_of i fs"
  by (simp add: subturns_of_def)

lemma subturns_simps [simp]:
  "subturns [] = 0" "subturns (e # es) = (if is_subturn e then 1 else 0) + subturns es"
  by (simp_all add: subturns_def)

lemma subturns_of_simps [simp]:
  "subturns_of i [] = 0"
  "subturns_of i (e # es) = (case e of ESubTurn j _ _ _ \<Rightarrow> if j = i then 1 else 0 | _ \<Rightarrow> 0) + subturns_of i es"
  by (simp_all add: subturns_of_def split: eff.split)

lemma quiet_no_subturns: "list_all quiet es \<Longrightarrow> subturns es = 0 \<and> subturns_of i es = 0"
  by (induction es) (auto elim!: quiet.elims)

section \<open>What each step adds to the log\<close>

text \<open>The parts of the state that steps other than the stage machine's decisions keep.\<close>

definition same_course :: "'w run_state \<Rightarrow> 'w run_state \<Rightarrow> bool" where
  "same_course rs rs' \<longleftrightarrow>
     rn_attempts_remaining rs' = rn_attempts_remaining rs \<and> rn_status rs' = rn_status rs"

lemma log_eff_sel [simp]:
  "rn_log (log_eff es rs) = rn_log rs @ es" "rn_status (log_eff es rs) = rn_status rs"
  "rn_attempts_remaining (log_eff es rs) = rn_attempts_remaining rs" "rn_now (log_eff es rs) = rn_now rs"
  "rn_db (log_eff es rs) = rn_db rs" "rn_ws (log_eff es rs) = rn_ws rs" "rn_tokens (log_eff es rs) = rn_tokens rs"
  "rn_paused_reason (log_eff es rs) = rn_paused_reason rs" "rn_seq (log_eff es rs) = rn_seq rs"
  "rn_total_retries (log_eff es rs) = rn_total_retries rs"
  by (simp_all add: log_eff_def)

lemma persist_frame: "persist_progress env ctx idx a t rs = (ok, rs') \<Longrightarrow> rs' = rs\<lparr>rn_db := rn_db rs'\<rparr>"
  by (auto simp: persist_progress_def Let_def split: prod.splits if_splits)

lemma run_gate_quiet: "run_gate env run_id n c gate w = (w', a, es) \<Longrightarrow> list_all quiet es"
  by (auto simp: run_gate_def Let_def split: Gate.splits prod.splits option.splits if_splits)

lemma ask_gate_log:
  assumes "ask_gate env ctx stage idx c rs = (a, rs')"
  obtains es where "rn_log rs' = rn_log rs @ es @ [EGate idx c a]" "list_all quiet es" "same_course rs rs'"
    "rn_now rs' = rn_now rs"
  using assms run_gate_quiet by (fastforce simp: ask_gate_def same_course_def split: prod.splits)

lemma after_fail_log:
  assumes "after_fail env ctx stage idx f ce p h ss rs = (c, ss', rs')"
  obtains es where "rn_log rs' = rn_log rs @ es" "list_all quiet es"
    "rn_attempts_remaining rs' = rn_attempts_remaining rs - 1"
    "c = CtAgain \<and> rn_status rs' = rn_status rs \<and> rn_attempts_remaining rs' > 0 \<or> c = CtHalted \<and> rn_status rs' = RsPaused"
proof -
  obtain ok rs2 where p: "persist_progress env ctx idx (sa_attempt ss) (sa_tier ss)
      (rs\<lparr>rn_attempts_remaining := rn_attempts_remaining rs - 1\<rparr>) = (ok, rs2)" by fastforce
  from persist_frame [OF p]
  have s: "rn_log rs2 = rn_log rs" "rn_attempts_remaining rs2 = rn_attempts_remaining rs - 1" "rn_status rs2 = rn_status rs"
    by (metis (no_types, lifting) run_state.ext_inject run_state.surjective run_state.update_convs(3) run_state.update_convs(5))+
  show ?thesis
  proof (rule that)
    show "rn_log rs' = rn_log rs @ drop (length (rn_log rs)) (rn_log rs')"
      "list_all quiet (drop (length (rn_log rs)) (rn_log rs'))"
      "rn_attempts_remaining rs' = rn_attempts_remaining rs - 1"
      "c = CtAgain \<and> rn_status rs' = rn_status rs \<and> rn_attempts_remaining rs' > 0 \<or> c = CtHalted \<and> rn_status rs' = RsPaused"
      using assms s by (auto simp: after_fail_def p Let_def decide_def split: if_splits option.splits)
  qed
qed

lemma subturn_log:
  "\<exists>q. rn_log (run_stage_subturn env ctx stage idx a t task rs) = rn_log rs @ ESubTurn idx a t task # q \<and> list_all quiet q \<and>
     same_course rs (run_stage_subturn env ctx stage idx a t task rs)"
  by (auto simp: run_stage_subturn_def same_course_def Let_def split: prod.splits option.splits)

definition reset_effs :: "run_ctx \<Rightarrow> u32 \<Rightarrow> bool \<Rightarrow> eff list" where
  "reset_effs ctx a ok = (if a > 0 then [EReset ok, EEvent (Retry (rc_run_id ctx) a)] else [])"

lemma reset_log:
  "\<exists>ok. rn_log (reset_before_retry env ctx a rs) = rn_log rs @ reset_effs ctx a ok \<and>
     same_course rs (reset_before_retry env ctx a rs)"
  by (auto simp: reset_before_retry_def reset_effs_def same_course_def split: prod.splits)

lemma attempt_log:
  assumes "attempt_stage env ctx stage idx ss rs = (a, rs')"
  obtains ok q where "rn_log rs' = rn_log rs @ reset_effs ctx (sa_attempt ss) ok @
       ESubTurn idx (sa_attempt ss) (sa_tier ss) (stage_task (sg_prompt_ref stage) (sa_feedback ss)) # q @ [EGate idx False a]"
    "list_all quiet q" "same_course rs rs'"
proof -
  let ?rs1 = "reset_before_retry env ctx (sa_attempt ss) (rs\<lparr>rn_now := Suc (rn_now rs)\<rparr>)"
  let ?task = "stage_task (sg_prompt_ref stage) (sa_feedback ss)"
  let ?rs2 = "run_stage_subturn env ctx stage idx (sa_attempt ss) (sa_tier ss) ?task ?rs1"
  obtain ok where r: "rn_log ?rs1 = rn_log rs @ reset_effs ctx (sa_attempt ss) ok" "same_course rs ?rs1"
    using reset_log [of env ctx "sa_attempt ss" "rs\<lparr>rn_now := Suc (rn_now rs)\<rparr>"] by (auto simp: same_course_def)
  obtain q where t: "rn_log ?rs2 = rn_log ?rs1 @ ESubTurn idx (sa_attempt ss) (sa_tier ss) ?task # q" "list_all quiet q"
      "same_course ?rs1 ?rs2" using subturn_log by blast
  obtain rs3 where "ask_gate env ctx stage idx False rs3 = (a, rs')" "rn_log rs3 = rn_log ?rs2" "same_course ?rs2 rs3"
    using assms by (auto simp: attempt_stage_def Let_def same_course_def)
  then obtain es where "rn_log rs' = rn_log ?rs2 @ es @ [EGate idx False a]" "list_all quiet es" "same_course ?rs2 rs'"
    by (metis ask_gate_log same_course_def)
  then show ?thesis using r t by (intro that [of ok "q @ es"]) (auto simp: same_course_def)
qed

text \<open>How an attempt was judged: what was logged after the gate's answer, and how the loop goes on.\<close>

definition judged :: "gate_answer \<Rightarrow> ctl \<Rightarrow> 'w run_state \<Rightarrow> 'w run_state \<Rightarrow> bool" where
  "judged final c rs rs' \<longleftrightarrow>
     (case c of
        CtAdvanced \<Rightarrow> final = GaVerdict VPass \<and> same_course rs rs'
      | CtAgain \<Rightarrow> rn_status rs' = rn_status rs \<and> rn_attempts_remaining rs' = rn_attempts_remaining rs - 1 \<and>
                   rn_attempts_remaining rs' > 0
      | CtHalted \<Rightarrow> rn_status rs' = RsPaused \<and> rn_attempts_remaining rs' = rn_attempts_remaining rs - 1
      | CtBreakRun \<Rightarrow> rn_status rs' \<in> {RsInterrupted, RsFailed} \<and> rn_attempts_remaining rs' = rn_attempts_remaining rs
      | CtPanic \<Rightarrow> True)"

lemma judge_log:
  assumes "judge_attempt env ctx stage idx ss a rs = (c, ss', rs')"
  obtains (plain) q where "rn_log rs' = rn_log rs @ q" "list_all quiet q" "judged a c rs rs'"
    | (confirmed) q v q' where "a = GaVerdict VPass" "rn_log rs' = rn_log rs @ q @ EGate idx True v # q'"
        "list_all quiet q" "list_all quiet q'" "judged v c rs rs'"
proof (cases "a = GaVerdict VPass \<and> sa_last_fail ss = Some (state_hash env (rn_now rs) (rn_ws rs))")
  case True
  let ?rs1 = "log_eff [gate_event ctx stage True []] rs"
  obtain v rs2 where g: "ask_gate env ctx stage idx True ?rs1 = (v, rs2)" by fastforce
  obtain es where l: "rn_log rs2 = rn_log ?rs1 @ es @ [EGate idx True v]" "list_all quiet es" "same_course ?rs1 rs2"
      "rn_now rs2 = rn_now ?rs1" using ask_gate_log [OF g] .
  have c: "(c, ss', rs') = (case v of
      GaPanic \<Rightarrow> (CtPanic, ss, rs2)
    | GaVerdict VPass \<Rightarrow> (CtAdvanced, ss, rs2)
    | GaVerdict _ \<Rightarrow> after_fail env ctx stage idx (lit FLAKY_FEEDBACK) (lit FLAKY_CEILING) (lit FLAKY_PAUSE)
                       (state_hash env (rn_now rs) (rn_ws rs)) ss rs2
    | GaErr \<Rightarrow> (CtBreakRun, ss, rs2\<lparr>rn_status := status_for_error env (rn_now rs2) True\<rparr>))"
    using assms True g by (auto simp: judge_attempt_def Let_def split: gate_answer.splits verdict.splits)
  have q: "list_all quiet (gate_event ctx stage True [] # es)" using l by (simp add: gate_event_def)
  have done_here: thesis if "rn_log rs' = rn_log rs2 @ q'" "list_all quiet q'" "judged v c rs rs'" for q'
    using that l q True by (intro confirmed [of "gate_event ctx stage True [] # es" v q']) auto
  show thesis
  proof (cases "v = GaPanic \<or> v = GaErr \<or> v = GaVerdict VPass")
    case True
    then show thesis
      using c l by (intro done_here [of "[]"]) (auto simp: judged_def same_course_def status_for_error_def)
  next
    case False
    then have "after_fail env ctx stage idx (lit FLAKY_FEEDBACK) (lit FLAKY_CEILING) (lit FLAKY_PAUSE)
        (state_hash env (rn_now rs) (rn_ws rs)) ss rs2 = (c, ss', rs')"
      using c by (auto split: gate_answer.splits verdict.splits)
    then show thesis
      using l(3) by (elim after_fail_log, intro done_here) (auto simp: judged_def same_course_def)
  qed
next
  case flaky: False
  show thesis
  proof (cases "\<exists>d. a = GaVerdict (VFail d)")
    case True
    then obtain d where "a = GaVerdict (VFail d)" by blast
    then obtain rs1 f ce p h where "after_fail env ctx stage idx f ce p h ss rs1 = (c, ss', rs')"
        "rn_log rs1 = rn_log rs @ [gate_event ctx stage False (take GATE_DECISIVE_CAP d)]" "same_course rs rs1"
      using assms by (auto simp: judge_attempt_def Let_def same_course_def)
    then show thesis
      by (elim after_fail_log, intro plain [of "gate_event ctx stage False (take GATE_DECISIVE_CAP d) # es" for es])
        (auto simp: judged_def same_course_def gate_event_def)
  next
    case False
    then show thesis
      using assms flaky
      by (intro plain [of "drop (length (rn_log rs)) (rn_log rs')"])
        (auto simp: judge_attempt_def Let_def judged_def same_course_def gate_event_def status_for_error_def
          split: gate_answer.splits verdict.splits if_splits)
  qed
qed

section \<open>One attempt\<close>

definition attempt_effs :: "nat \<Rightarrow> stage_state \<Rightarrow> Stage \<Rightarrow> eff \<Rightarrow> bool" where
  "attempt_effs idx ss stage e \<longleftrightarrow>
     (case e of
        ESubTurn i a t task \<Rightarrow>
          i = idx \<and> a = sa_attempt ss \<and> t = sa_tier ss \<and> task = stage_task (sg_prompt_ref stage) (sa_feedback ss)
      | _ \<Rightarrow> True)"

lemma quiet_attempt_effs: "list_all quiet es \<Longrightarrow> list_all (attempt_effs idx ss stage) es"
  by (auto simp: list_all_iff attempt_effs_def split: eff.splits)

lemma one_attempt_log:
  assumes "one_attempt env ctx stage idx ss rs = (c, ss', rs')"
  obtains es final where "rn_log rs' = rn_log rs @ es" "subturns es = 1" "\<And>i. subturns_of i es = (if i = idx then 1 else 0)"
    "list_all (attempt_effs idx ss stage) es" "judged final c rs rs'"
    "\<And>g clean. sa_attempt ss > 0 \<or> clean \<Longrightarrow> monitor es (idx, g, clean) = Some (idx, Some final, False)"
proof -
  obtain a rs1 where at: "attempt_stage env ctx stage idx ss rs = (a, rs1)" by fastforce
  let ?sub = "ESubTurn idx (sa_attempt ss) (sa_tier ss) (stage_task (sg_prompt_ref stage) (sa_feedback ss))"
  obtain ok q where l1: "rn_log rs1 = rn_log rs @ reset_effs ctx (sa_attempt ss) ok @ ?sub # q @ [EGate idx False a]"
      "list_all quiet q" "same_course rs rs1" using attempt_log [OF at] .
  have j: "judge_attempt env ctx stage idx ss a rs1 = (c, ss', rs')" using assms at by (simp add: one_attempt_def)
  define es where "es = reset_effs ctx (sa_attempt ss) ok @ ?sub # q @ [EGate idx False a]"
  have head: "subturns es = 1" "\<And>i. subturns_of i es = (if i = idx then 1 else 0)" "list_all (attempt_effs idx ss stage) es"
      "\<And>g clean. sa_attempt ss > 0 \<or> clean \<Longrightarrow> monitor es (idx, g, clean) = Some (idx, Some a, False)"
    using quiet_no_subturns [OF l1(2)] quiet_attempt_effs [OF l1(2)] monitor_quiet [OF l1(2)]
    by (auto simp: es_def reset_effs_def attempt_effs_def monitor_append)
  have log: "rn_log rs1 = rn_log rs @ es" using l1(1) by (simp add: es_def)
  have course: "judged v c rs1 rs' \<Longrightarrow> judged v c rs rs'" for v
    using l1(3) by (auto simp: judged_def same_course_def split: ctl.splits)
  from j show ?thesis
  proof (cases rule: judge_log)
    case (plain q2)
    then show ?thesis
      using head log quiet_no_subturns [of q2] quiet_attempt_effs [of q2 idx ss stage] monitor_quiet [of q2] course
      by (intro that [of "es @ q2" a]) (simp_all add: monitor_append)
  next
    case (confirmed q2 v q3)
    have "monitor (q2 @ EGate idx True v # q3) (idx, Some a, False) = Some (idx, Some v, False)"
      using confirmed monitor_quiet [of q2] monitor_quiet [of q3] by (simp add: monitor_append)
    moreover have "subturns (q2 @ EGate idx True v # q3) = 0" "subturns_of i (q2 @ EGate idx True v # q3) = 0"
        "list_all (attempt_effs idx ss stage) (q2 @ EGate idx True v # q3)" for i
      using confirmed quiet_no_subturns [of q2] quiet_no_subturns [of q3]
        quiet_attempt_effs [of q2 idx ss stage] quiet_attempt_effs [of q3 idx ss stage]
      by (auto simp: attempt_effs_def)
    ultimately show ?thesis
      using head log confirmed course
      by (intro that [of "es @ q2 @ EGate idx True v # q3" v]) (simp_all add: monitor_append)
  qed
qed

section \<open>The stage loop\<close>

lemma stage_loop_rule:
  assumes run: "stage_loop env ctx stage idx ss rs = (c, ss', rs')"
    and start: "I ss rs"
    and again: "\<And>s r s' r'. I s r \<Longrightarrow> one_attempt env ctx stage idx s r = (CtAgain, s', r') \<Longrightarrow> I s' r'"
    and leave: "\<And>s r s' r'. I s r \<Longrightarrow> one_attempt env ctx stage idx s r = (c, s', r') \<Longrightarrow> c \<noteq> CtAgain \<Longrightarrow> Q s s' r'"
  shows "c \<noteq> CtAgain \<and> (\<exists>s. Q s ss' rs')"
  using run start again leave
proof (induction env ctx stage idx ss rs rule: stage_loop.induct)
  case (1 env ctx stage idx ss rs)
  obtain c1 s1 r1 where step: "one_attempt env ctx stage idx ss rs = (c1, s1, r1)" by (metis prod_cases3)
  show ?case
  proof (cases "c1 = CtAgain")
    case True
    then have "stage_loop env ctx stage idx s1 r1 = (c, ss', rs')"
      using "1.prems"(1) step by (subst (asm) stage_loop.simps) simp
    then show ?thesis
      using "1.IH" [OF step [symmetric] True refl] "1.prems" step True by blast
  next
    case False
    then have "(c1, s1, r1) = (c, ss', rs')"
      using "1.prems"(1) step by (subst (asm) stage_loop.simps) (simp split: ctl.splits)
    then show ?thesis using "1.prems" step False by blast
  qed
qed

section \<open>Tiers and feedback\<close>

definition tier_allowed :: "'w runner_env \<Rightarrow> run_ctx \<Rightarrow> Stage \<Rightarrow> Tier option \<Rightarrow> bool" where
  "tier_allowed env ctx stage t \<longleftrightarrow>
     t = sg_tier stage \<or>
     (\<exists>nxt. t = Some nxt \<and> re_escalation_enabled env \<and>
        tier_next (case sg_tier stage of Some t \<Rightarrow> t | None \<Rightarrow> rc_default_tier ctx) = Some nxt \<and>
        nxt \<le> ep_max_tier (rc_policy ctx) \<and> (rc_egress ctx = LocalOnly \<longrightarrow> nxt \<le> rc_highest_local ctx))"

definition task_allowed :: "Stage \<Rightarrow> ustr \<Rightarrow> bool" where
  "task_allowed stage task \<longleftrightarrow>
     task = sg_prompt_ref stage \<or> (\<exists>fb. task = sg_prompt_ref stage @ [10, 10] @ fb \<and> tag_free fb)"

definition stage_eff :: "'w runner_env \<Rightarrow> run_ctx \<Rightarrow> Stage \<Rightarrow> nat \<Rightarrow> eff \<Rightarrow> bool" where
  "stage_eff env ctx stage idx e \<longleftrightarrow>
     (case e of ESubTurn i a t task \<Rightarrow> i = idx \<and> tier_allowed env ctx stage t \<and> task_allowed stage task | _ \<Rightarrow> True)"

lemma tag_free_plain_prefix:
  assumes "LT \<notin> set p" "tag_free s"
  shows "tag_free (p @ s)"
proof (rule ccontr)
  assume "\<not> tag_free (p @ s)"
  then obtain pre tag post name closing
    where e: "p @ s = pre @ tag @ post" and h: "hd tag = LT" and t: "tag_text name closing tag"
    by (auto simp: tag_free_grammar)
  have ne: "tag \<noteq> []" using t by (auto simp: tag_text_def)
  have "length p \<le> length pre"
  proof (rule ccontr)
    assume "\<not> length p \<le> length pre"
    then have "p ! length pre = (pre @ tag @ post) ! length pre" by (simp add: e [symmetric] nth_append)
    also have "\<dots> = LT" using ne h by (simp add: nth_append hd_conv_nth)
    finally show False using assms(1) \<open>\<not> length p \<le> length pre\<close> by (metis not_le nth_mem)
  qed
  then have "s = drop (length p) pre @ tag @ post" using e by (auto simp: append_eq_append_conv_if)
  then show False using assms(2) h t by (auto simp: tag_free_grammar)
qed

lemma retry_feedback_tag_free: "tag_free (retry_feedback d)"
proof -
  have "LT \<notin> set (lit FEEDBACK_FRAME @ [10])" by (simp add: FEEDBACK_FRAME_def LT_def)
  from tag_free_plain_prefix [OF this strip_tool_tags_free [of d]] show ?thesis
    by (simp add: retry_feedback_def)
qed

lemma flaky_feedback_tag_free: "tag_free (lit FLAKY_FEEDBACK)"
  by (rule tag_free_plain_prefix [where s = "[]", simplified])
    (simp_all add: FLAKY_FEEDBACK_def LT_def tag_free_def find_next_tag.simps)

lemma after_fail_feedback:
  "after_fail env ctx stage idx f c p h ss rs = (CtAgain, ss', rs') \<Longrightarrow> sa_feedback ss' = Some f"
  by (auto simp: after_fail_def decide_def Let_def split: prod.splits if_splits option.splits)

lemma again_feedback:
  assumes "one_attempt env ctx stage idx ss rs = (CtAgain, ss', rs')"
  shows "\<exists>fb. sa_feedback ss' = Some fb \<and> tag_free fb"
  using assms
  by (auto simp: one_attempt_def judge_attempt_def Let_def retry_feedback_tag_free flaky_feedback_tag_free
      split: prod.splits gate_answer.splits verdict.splits if_splits dest!: after_fail_feedback)

section \<open>The stage loop\<close>

definition loop_inv :: "'w runner_env \<Rightarrow> run_ctx \<Rightarrow> Stage \<Rightarrow> nat \<Rightarrow> 'w run_state \<Rightarrow> stage_state \<Rightarrow> 'w run_state \<Rightarrow> bool" where
  "loop_inv env ctx stage idx rs0 ss rs \<longleftrightarrow>
     (\<exists>es. rn_log rs = rn_log rs0 @ es \<and> subturns es = unat (sa_attempt ss) \<and>
        (\<forall>i. subturns_of i es = (if i = idx then unat (sa_attempt ss) else 0)) \<and> list_all (stage_eff env ctx stage idx) es \<and>
        (\<forall>g. \<exists>g' cl. monitor es (idx, g, True) = Some (idx, g', cl) \<and> (sa_attempt ss > 0 \<or> cl))) \<and>
     rn_status rs = rn_status rs0 \<and>
     rn_attempts_remaining rs = rn_attempts_remaining rs0 - int (unat (sa_attempt ss)) \<and>
     (sa_attempt ss > 0 \<longrightarrow> rn_attempts_remaining rs > 0) \<and>
     (if sa_escalated ss then unat (sa_attempt ss) = Suc (unat (sg_max_retries stage))
      else sa_attempt ss \<le> sg_max_retries stage \<and> sa_tier ss = sg_tier stage) \<and>
     tier_allowed env ctx stage (sa_tier ss) \<and>
     (\<forall>fb. sa_feedback ss = Some fb \<longrightarrow> tag_free fb)"

lemma loop_inv_start: "loop_inv env ctx stage idx rs (stage_entry stage) rs"
  by (auto simp: loop_inv_def stage_entry_def tier_allowed_def intro!: exI [of _ "[]"])

lemma attempt_stage_eff:
  assumes "list_all (attempt_effs idx ss stage) es" "tier_allowed env ctx stage (sa_tier ss)"
    and "\<forall>fb. sa_feedback ss = Some fb \<longrightarrow> tag_free fb"
  shows "list_all (stage_eff env ctx stage idx) es"
  using assms
  by (auto simp: list_all_iff attempt_effs_def stage_eff_def task_allowed_def stage_task_def split: eff.splits option.splits)

lemma one_more:
  assumes "one_attempt env ctx stage idx ss rs = (CtAgain, ss', rs')" and "sg_max_retries stage \<noteq> - 1"
    and inv: "loop_inv env ctx stage idx rs0 ss rs"
  shows "unat (sa_attempt ss') = Suc (unat (sa_attempt ss)) \<and> sa_attempt ss' > 0"
proof -
  have "unat (sa_attempt ss) \<le> Suc (unat (sg_max_retries stage))" "\<not> sa_escalated ss \<longrightarrow> unat (sa_attempt ss) \<le> unat (sg_max_retries stage)"
    using inv by (auto simp: loop_inv_def word_le_nat_alt split: if_splits)
  moreover obtain f c p h r where f: "after_fail env ctx stage idx f c p h ss r = (CtAgain, ss', rs')"
    using one_attempt_again [OF assms(1)] .
  note after_fail_again [OF f]
  ultimately have "sa_attempt ss' = sa_attempt ss + 1" "unat (sa_attempt ss) \<le> unat (sg_max_retries stage)"
    by (auto simp: word_less_nat_alt)
  moreover have "Suc (unat (sg_max_retries stage)) < 2 ^ 32" using unat_less_max [OF assms(2)] by simp
  ultimately have "unat (sa_attempt ss') = Suc (unat (sa_attempt ss))" by (simp add: unat_add_1)
  then show ?thesis by (simp add: word_less_nat_alt)
qed

lemma loop_inv_again:
  assumes step: "one_attempt env ctx stage idx ss rs = (CtAgain, ss', rs')" and max: "sg_max_retries stage \<noteq> - 1"
    and inv: "loop_inv env ctx stage idx rs0 ss rs"
  shows "loop_inv env ctx stage idx rs0 ss' rs'"
proof -
  obtain f c p h r where fail: "after_fail env ctx stage idx f c p h ss r = (CtAgain, ss', rs')"
    using one_attempt_again [OF step] .
  note n = one_more [OF step max inv]
  obtain es0 where e0: "rn_log rs = rn_log rs0 @ es0" "subturns es0 = unat (sa_attempt ss)"
      "\<And>i. subturns_of i es0 = (if i = idx then unat (sa_attempt ss) else 0)" "list_all (stage_eff env ctx stage idx) es0"
      "\<And>g. \<exists>g' cl. monitor es0 (idx, g, True) = Some (idx, g', cl) \<and> (sa_attempt ss > 0 \<or> cl)"
    using inv by (auto simp: loop_inv_def)
  from step obtain es v where e: "rn_log rs' = rn_log rs @ es" "subturns es = 1"
      "\<And>i. subturns_of i es = (if i = idx then 1 else 0)" "list_all (attempt_effs idx ss stage) es" "judged v CtAgain rs rs'"
      "\<And>g clean. sa_attempt ss > 0 \<or> clean \<Longrightarrow> monitor es (idx, g, clean) = Some (idx, Some v, False)"
    by (rule one_attempt_log) blast
  have eff: "list_all (stage_eff env ctx stage idx) es"
    by (rule attempt_stage_eff [OF e(4)]; use inv in \<open>unfold loop_inv_def, blast\<close>)
  have mon: "\<exists>g' cl. monitor (es0 @ es) (idx, g, True) = Some (idx, g', cl)" for g
    using e0(5) [of g] e(6) by (fastforce simp: monitor_append)
  have log: "\<exists>es. rn_log rs' = rn_log rs0 @ es \<and> subturns es = unat (sa_attempt ss') \<and>
      (\<forall>i. subturns_of i es = (if i = idx then unat (sa_attempt ss') else 0)) \<and> list_all (stage_eff env ctx stage idx) es \<and>
      (\<forall>g. \<exists>g' cl. monitor es (idx, g, True) = Some (idx, g', cl) \<and> (sa_attempt ss' > 0 \<or> cl))"
    using e0 e eff mon n by (intro exI [of _ "es0 @ es"]) auto
  have old: "if sa_escalated ss then unat (sa_attempt ss) = Suc (unat (sg_max_retries stage))
      else sa_attempt ss \<le> sg_max_retries stage \<and> sa_tier ss = sg_tier stage" "tier_allowed env ctx stage (sa_tier ss)"
    using inv by (simp_all add: loop_inv_def)
  from after_fail_again [OF fail]
  have tier: "(if sa_escalated ss' then unat (sa_attempt ss') = Suc (unat (sg_max_retries stage))
      else sa_attempt ss' \<le> sg_max_retries stage \<and> sa_tier ss' = sg_tier stage) \<and> tier_allowed env ctx stage (sa_tier ss')"
    using old n by (auto simp: word_less_nat_alt word_le_nat_alt tier_allowed_def split: if_splits dest!: next_tier_Some)
  have course: "rn_status rs' = rn_status rs0" "rn_attempts_remaining rs' = rn_attempts_remaining rs0 - int (unat (sa_attempt ss'))"
      "rn_attempts_remaining rs' > 0"
    using e(5) inv n by (auto simp: judged_def loop_inv_def)
  show ?thesis
    using log tier course again_feedback [OF step] unfolding loop_inv_def by auto
qed

definition stage_result :: "'w runner_env \<Rightarrow> run_ctx \<Rightarrow> Stage \<Rightarrow> nat \<Rightarrow> ctl \<Rightarrow> 'w run_state \<Rightarrow> 'w run_state \<Rightarrow> bool" where
  "stage_result env ctx stage idx c rs0 rs' \<longleftrightarrow>
     (\<exists>es a. rn_log rs' = rn_log rs0 @ es \<and> subturns es = Suc a \<and> a \<le> Suc (unat (sg_max_retries stage)) \<and>
        (a > 0 \<longrightarrow> int a < rn_attempts_remaining rs0) \<and>
        (\<forall>i. subturns_of i es = (if i = idx then Suc a else 0)) \<and> list_all (stage_eff env ctx stage idx) es \<and>
        (\<forall>g. \<exists>final. monitor es (idx, g, True) = Some (idx, Some final, False) \<and>
           (c = CtAdvanced \<longrightarrow> final = GaVerdict VPass)) \<and>
        (c = CtAdvanced \<longrightarrow> rn_attempts_remaining rs' = rn_attempts_remaining rs0 - int a)) \<and>
     (c = CtAdvanced \<longrightarrow> rn_status rs' = rn_status rs0) \<and>
     (c = CtHalted \<longrightarrow> rn_status rs' = RsPaused) \<and>
     (c = CtBreakRun \<longrightarrow> rn_status rs' \<in> {RsInterrupted, RsFailed})"

lemma stage_loop_leaves:
  assumes step: "one_attempt env ctx stage idx ss rs = (c, ss', rs')" and "c \<noteq> CtAgain"
    and inv: "loop_inv env ctx stage idx rs0 ss rs"
  shows "stage_result env ctx stage idx c rs0 rs'"
proof -
  obtain es0 where e0: "rn_log rs = rn_log rs0 @ es0" "subturns es0 = unat (sa_attempt ss)"
      "\<And>i. subturns_of i es0 = (if i = idx then unat (sa_attempt ss) else 0)" "list_all (stage_eff env ctx stage idx) es0"
      "\<And>g. \<exists>g' cl. monitor es0 (idx, g, True) = Some (idx, g', cl) \<and> (sa_attempt ss > 0 \<or> cl)"
    using inv by (auto simp: loop_inv_def)
  from step obtain es v where e: "rn_log rs' = rn_log rs @ es" "subturns es = 1"
      "\<And>i. subturns_of i es = (if i = idx then 1 else 0)" "list_all (attempt_effs idx ss stage) es" "judged v c rs rs'"
      "\<And>g clean. sa_attempt ss > 0 \<or> clean \<Longrightarrow> monitor es (idx, g, clean) = Some (idx, Some v, False)"
    by (rule one_attempt_log) blast
  have eff: "list_all (stage_eff env ctx stage idx) es"
    by (rule attempt_stage_eff [OF e(4)]; use inv in \<open>unfold loop_inv_def, blast\<close>)
  have "unat (sa_attempt ss) \<le> Suc (unat (sg_max_retries stage))"
    using inv by (auto simp: loop_inv_def word_le_nat_alt split: if_splits)
  moreover have "unat (sa_attempt ss) > 0 \<longrightarrow> int (unat (sa_attempt ss)) < rn_attempts_remaining rs0"
    using inv by (auto simp: loop_inv_def word_less_nat_alt)
  moreover have "\<exists>final. monitor (es0 @ es) (idx, g, True) = Some (idx, Some final, False) \<and>
      (c = CtAdvanced \<longrightarrow> final = GaVerdict VPass)" for g
    using e0(5) [of g] e(5,6) by (fastforce simp: monitor_append judged_def)
  moreover have "c = CtAdvanced \<longrightarrow> rn_attempts_remaining rs' = rn_attempts_remaining rs0 - int (unat (sa_attempt ss))"
    using e(5) inv by (auto simp: judged_def same_course_def loop_inv_def)
  moreover have "(c = CtAdvanced \<longrightarrow> rn_status rs' = rn_status rs0) \<and> (c = CtHalted \<longrightarrow> rn_status rs' = RsPaused) \<and>
      (c = CtBreakRun \<longrightarrow> rn_status rs' \<in> {RsInterrupted, RsFailed})"
    using e(5) inv by (auto simp: judged_def same_course_def loop_inv_def)
  ultimately show ?thesis
    unfolding stage_result_def using e0 e(1-3) eff
    by (intro conjI exI [of _ "es0 @ es"] exI [of _ "unat (sa_attempt ss)"]) auto
qed

lemma stage_loop_result:
  assumes "stage_loop env ctx stage idx (stage_entry stage) rs0 = (c, ss', rs')" "sg_max_retries stage \<noteq> - 1"
  shows "c \<noteq> CtAgain \<and> stage_result env ctx stage idx c rs0 rs'"
proof -
  let ?I = "loop_inv env ctx stage idx rs0"
  have "c \<noteq> CtAgain \<and> (\<exists>s :: stage_state. stage_result env ctx stage idx c rs0 rs')"
    by (rule stage_loop_rule [OF assms(1), where I = ?I and Q = "\<lambda>_ _ r. stage_result env ctx stage idx c rs0 r"])
      (fact loop_inv_start, erule loop_inv_again [OF _ assms(2), rotated], assumption, rule stage_loop_leaves)
  then show ?thesis by blast
qed

section \<open>The run\<close>

lemma finish_stage_log:
  assumes "finish_stage env ctx stage idx is_last advanced ss rs = (cont, rs')" "rn_status rs \<in> {RsDone, RsPaused}"
  obtains q where "rn_log rs' = rn_log rs @ q" "subturns q = 0" "\<And>i. subturns_of i q = 0"
    "\<And>env ctx stage idx. list_all (stage_eff env ctx stage idx) q"
    "\<And>g. advanced \<Longrightarrow> g = Some (GaVerdict VPass) \<Longrightarrow> \<exists>g' cl. monitor q (idx, g, False) =
        Some (if rn_status rs' = RsFailed then idx else Suc idx, g', cl)"
    "\<And>g cl. \<not> advanced \<Longrightarrow> monitor q (idx, g, cl) = Some (idx, g, cl)"
    "cont \<Longrightarrow> advanced \<and> \<not> is_last \<and> rn_status rs' = rn_status rs \<and> rn_attempts_remaining rs' = rn_attempts_remaining rs"
    "cont \<Longrightarrow> \<exists>g'. monitor q (idx, Some (GaVerdict VPass), False) = Some (Suc idx, g', True)"
    "\<not> cont \<Longrightarrow> advanced \<Longrightarrow> rn_status rs' \<in> {RsFailed, RsInterrupted} \<or> rn_status rs' = RsDone \<and> is_last"
    "\<not> advanced \<Longrightarrow> rn_status rs' \<in> {rn_status rs, RsInterrupted}"
proof -
  let ?d = "EDecision (sg_name stage) (sg_tier stage) (if sa_escalated ss then sa_tier ss else None) (sa_attempt ss)"
  let ?rs1 = "log_eff [?d] (rs\<lparr>rn_now := Suc (rn_now rs)\<rparr>)"
  obtain w ok where co: "commit_stage (re_git env) (Suc (rn_now rs)) (''stage: '' @ sg_name stage) (rn_ws rs) = (w, ok)" by fastforce
  let ?rs2 = "if advanced then log_eff [ECommit idx ok] (?rs1\<lparr>rn_ws := w\<rparr>) else ?rs1"
  obtain alive rs3 where p: "persist_progress env ctx idx (sa_attempt ss) (sa_tier ss) ?rs2 = (alive, rs3)" by fastforce
  have s: "rn_log rs3 = rn_log ?rs2" "rn_status rs3 = rn_status rs" "rn_attempts_remaining rs3 = rn_attempts_remaining rs"
    by (subst persist_frame [OF p], simp)+
  have r: "(cont, rs') = (if advanced \<and> \<not> ok then (False, ?rs2\<lparr>rn_status := RsFailed\<rparr>)
      else if \<not> alive then (False, rs3\<lparr>rn_status := RsInterrupted\<rparr>)
      else if \<not> advanced then (False, rs3) else if is_last then (False, rs3\<lparr>rn_status := RsDone\<rparr>) else (True, rs3))"
    using assms(1) co p by (auto simp: finish_stage_def stage_outcome_def Let_def split: if_splits prod.splits)
  show thesis
    by (rule that [of "?d # (if advanced then [ECommit idx ok] else [])"])
      (use r s assms(2) in \<open>auto simp: stage_eff_def split: if_splits\<close>)
qed

definition run_eff :: "'w runner_env \<Rightarrow> run_ctx \<Rightarrow> nat \<Rightarrow> Stage list \<Rightarrow> eff \<Rightarrow> bool" where
  "run_eff env ctx idx stages e \<longleftrightarrow>
     (case e of
        ESubTurn i a t task \<Rightarrow> idx \<le> i \<and> i < idx + length stages \<and> tier_allowed env ctx (stages ! (i - idx)) t \<and>
                               task_allowed (stages ! (i - idx)) task
      | _ \<Rightarrow> True)"

definition run_result :: "'w runner_env \<Rightarrow> run_ctx \<Rightarrow> nat \<Rightarrow> Stage list \<Rightarrow> 'w run_state \<Rightarrow> 'w run_state \<Rightarrow> bool" where
  "run_result env ctx idx stages rs rs' \<longleftrightarrow>
     rn_status rs' \<in> {RsDone, RsPaused, RsInterrupted, RsFailed} \<and>
     (\<exists>es f. rn_log rs' = rn_log rs @ es \<and>
        subturns es \<le> length stages + f \<and> (f > 0 \<longrightarrow> int f < rn_attempts_remaining rs) \<and>
        (\<forall>i. subturns_of i es \<le> (if idx \<le> i \<and> i < idx + length stages
                                  then unat (sg_max_retries (stages ! (i - idx))) + 2 else 0)) \<and>
        list_all (run_eff env ctx idx stages) es \<and>
        (\<forall>g. \<exists>k g' cl. monitor es (idx, g, True) = Some (k, g', cl) \<and> idx \<le> k \<and> k \<le> idx + length stages \<and>
           (rn_status rs' = RsDone \<longrightarrow> k = idx + length stages) \<and>
           (k = idx + length stages \<longrightarrow> rn_status rs' \<in> {RsDone, RsInterrupted})))"

lemma run_eff_here: "stage_eff env ctx stage idx e \<Longrightarrow> run_eff env ctx idx (stage # stages) e"
  by (auto simp: run_eff_def stage_eff_def split: eff.splits)

lemma run_eff_later: "run_eff env ctx (Suc idx) stages e \<Longrightarrow> run_eff env ctx idx (stage # stages) e"
  by (auto simp: run_eff_def nth_Cons' diff_Suc split: eff.splits nat.splits)

lemma run_result_cons:
  assumes "rn_log rs1 = rn_log rs @ es1" "subturns es1 = Suc a" "a > 0 \<longrightarrow> int a < rn_attempts_remaining rs"
    and "\<And>i. subturns_of i es1 = (if i = idx then Suc a else 0)" "a \<le> Suc (unat (sg_max_retries stage))"
    and "list_all (stage_eff env ctx stage idx) es1" "\<And>g. \<exists>g'. monitor es1 (idx, g, True) = Some (Suc idx, g', True)"
    and rem: "rn_attempts_remaining rs1 = rn_attempts_remaining rs - int a"
    and rest: "run_result env ctx (Suc idx) stages rs1 rs'"
  shows "run_result env ctx idx (stage # stages) rs rs'"
proof -
  obtain es f where r: "rn_log rs' = rn_log rs1 @ es" "subturns es \<le> length stages + f"
      "f > 0 \<longrightarrow> int f < rn_attempts_remaining rs1"
      "\<And>i. subturns_of i es \<le> (if Suc idx \<le> i \<and> i < Suc idx + length stages
                                  then unat (sg_max_retries (stages ! (i - Suc idx))) + 2 else 0)"
      "list_all (run_eff env ctx (Suc idx) stages) es"
      "\<And>g. \<exists>k g' cl. monitor es (Suc idx, g, True) = Some (k, g', cl) \<and> Suc idx \<le> k \<and> k \<le> Suc idx + length stages \<and>
           (rn_status rs' = RsDone \<longrightarrow> k = Suc idx + length stages) \<and>
           (k = Suc idx + length stages \<longrightarrow> rn_status rs' \<in> {RsDone, RsInterrupted})"
    using rest unfolding run_result_def by blast
  have count: "subturns_of i (es1 @ es) \<le> (if idx \<le> i \<and> i < idx + length (stage # stages)
      then unat (sg_max_retries ((stage # stages) ! (i - idx))) + 2 else 0)" for i
    using assms(4) [of i] assms(5) r(4) [of i] by (auto simp: nth_Cons' diff_Suc split: nat.splits if_splits)
  have eff: "list_all (run_eff env ctx idx (stage # stages)) (es1 @ es)"
    using assms(6) r(5) by (auto simp: list_all_iff run_eff_here run_eff_later)
  have mon: "\<exists>k g' cl. monitor (es1 @ es) (idx, g, True) = Some (k, g', cl) \<and> idx \<le> k \<and> k \<le> idx + length (stage # stages) \<and>
           (rn_status rs' = RsDone \<longrightarrow> k = idx + length (stage # stages)) \<and>
           (k = idx + length (stage # stages) \<longrightarrow> rn_status rs' \<in> {RsDone, RsInterrupted})" for g
  proof -
    obtain g1 where "monitor es1 (idx, g, True) = Some (Suc idx, g1, True)" using assms(7) by blast
    then show ?thesis using r(6) [of g1] by (fastforce simp: monitor_append)
  qed
  have budget: "subturns (es1 @ es) \<le> length (stage # stages) + (a + f)" "a + f > 0 \<longrightarrow> int (a + f) < rn_attempts_remaining rs"
    using assms(2,3) r(2,3) rem by auto
  show ?thesis
    using rest r(1) assms(1) count eff mon budget unfolding run_result_def
    by (intro conjI exI [of _ "es1 @ es"] exI [of _ "a + f"]) auto
qed

lemma run_result_last:
  assumes "rn_log rs' = rn_log rs @ es" "subturns es = Suc a" "a > 0 \<longrightarrow> int a < rn_attempts_remaining rs"
    and "\<And>i. subturns_of i es = (if i = idx then Suc a else 0)" "a \<le> Suc (unat (sg_max_retries stage))"
    and "list_all (stage_eff env ctx stage idx) es"
    and "\<And>g. \<exists>k g' cl. monitor es (idx, g, True) = Some (k, g', cl) \<and> idx \<le> k \<and> k \<le> Suc idx \<and>
           (rn_status rs' = RsDone \<longrightarrow> k = Suc idx) \<and> (k = Suc idx \<longrightarrow> rn_status rs' \<in> {RsDone, RsInterrupted})"
    and "rn_status rs' \<in> {RsDone, RsPaused, RsInterrupted, RsFailed}" "rn_status rs' = RsDone \<longrightarrow> stages = []"
  shows "run_result env ctx idx (stage # stages) rs rs'"
proof -
  have count: "subturns_of i es \<le> (if idx \<le> i \<and> i < idx + length (stage # stages)
      then unat (sg_max_retries ((stage # stages) ! (i - idx))) + 2 else 0)" for i
    using assms(4) [of i] assms(5) by auto
  have eff: "list_all (run_eff env ctx idx (stage # stages)) es"
    using assms(6) by (auto simp: list_all_iff run_eff_here)
  have mon: "\<exists>k g' cl. monitor es (idx, g, True) = Some (k, g', cl) \<and> idx \<le> k \<and> k \<le> idx + length (stage # stages) \<and>
           (rn_status rs' = RsDone \<longrightarrow> k = idx + length (stage # stages)) \<and>
           (k = idx + length (stage # stages) \<longrightarrow> rn_status rs' \<in> {RsDone, RsInterrupted})" for g
    using assms(7) [of g] assms(9) by (cases stages) fastforce+
  have "subturns es \<le> length (stage # stages) + a" using assms(2) by simp
  with count eff mon assms(1,3,8) show ?thesis
    unfolding run_result_def by (intro conjI exI [of _ es] exI [of _ a]) auto
qed

lemma run_stages_result:
  assumes "run_stages env ctx idx stages rs = Some rs'" and "list_all (\<lambda>s. sg_max_retries s \<noteq> - 1) stages"
    and "rn_status rs = RsDone"
  shows "run_result env ctx idx stages rs rs'"
  using assms
proof (induction stages arbitrary: idx rs)
  case Nil
  then show ?case by (auto simp: run_result_def intro!: exI [of _ "[]"] exI [of _ 0])
next
  case (Cons stage stages)
  let ?rs1 = "rs\<lparr>rn_last_stage_idx := idx\<rparr>"
  let ?e = "EEvent (StageStarted (rc_run_id ctx) (sg_name stage) (tier_name (sg_tier stage)))"
  show ?case
  proof (cases "re_stop env (rn_now ?rs1)")
    case True
    then have "rs' = ?rs1\<lparr>rn_status := RsInterrupted\<rparr>" using Cons.prems(1) by simp
    then show ?thesis by (auto simp: run_result_def intro!: exI [of _ "[]"] exI [of _ 0])
  next
    case False
    obtain c ss rs3 where loop: "stage_loop env ctx stage idx (stage_entry stage) (log_eff [?e] ?rs1) = (c, ss, rs3)"
      by (metis prod_cases3)
    have res: "c \<noteq> CtAgain" "stage_result env ctx stage idx c (log_eff [?e] ?rs1) rs3"
      using stage_loop_result [OF loop] Cons.prems(2) by simp_all
    obtain es a where l: "rn_log rs3 = rn_log rs @ ?e # es" "subturns (?e # es) = Suc a"
        "a \<le> Suc (unat (sg_max_retries stage))" "a > 0 \<longrightarrow> int a < rn_attempts_remaining rs"
        "\<And>i. subturns_of i (?e # es) = (if i = idx then Suc a else 0)" "list_all (stage_eff env ctx stage idx) (?e # es)"
        "\<And>g. \<exists>final. monitor (?e # es) (idx, g, True) = Some (idx, Some final, False) \<and>
           (c = CtAdvanced \<longrightarrow> final = GaVerdict VPass)"
        "c = CtAdvanced \<longrightarrow> rn_attempts_remaining rs3 = rn_attempts_remaining rs - int a"
      using res(2) unfolding stage_result_def by (auto simp: stage_eff_def)
    have st: "c = CtAdvanced \<longrightarrow> rn_status rs3 = RsDone" "c = CtHalted \<longrightarrow> rn_status rs3 = RsPaused"
        "c = CtBreakRun \<longrightarrow> rn_status rs3 \<in> {RsInterrupted, RsFailed}"
      using res(2) Cons.prems(3) by (auto simp: stage_result_def)
    show ?thesis
    proof (cases "c = CtBreakRun")
      case True
      then have "rs' = rs3" using Cons.prems(1) False loop by (simp add: Let_def)
      moreover have "\<exists>k g' cl. monitor (?e # es) (idx, g, True) = Some (k, g', cl) \<and> idx \<le> k \<and> k \<le> Suc idx \<and>
           (rn_status rs3 = RsDone \<longrightarrow> k = Suc idx) \<and> (k = Suc idx \<longrightarrow> rn_status rs3 \<in> {RsDone, RsInterrupted})" for g
        using l(7) [of g] st(3) True by auto
      ultimately show ?thesis
        using l st(3) True by (intro run_result_last [of _ _ "?e # es" a]) auto
    next
      case nobreak: False
      have "c \<noteq> CtPanic" using Cons.prems(1) False loop by (auto simp: Let_def)
      then have c: "c = CtAdvanced \<or> c = CtHalted" using res(1) nobreak by (cases c) auto
      obtain cont rs4 where fin: "finish_stage env ctx stage idx (stages = []) (c = CtAdvanced) ss rs3 = (cont, rs4)" by fastforce
      have goes: "(if cont then run_stages env ctx (Suc idx) stages rs4 else Some rs4) = Some rs'"
        using Cons.prems(1) False loop fin c by (auto simp: Let_def split: if_splits)
      have "rn_status rs3 \<in> {RsDone, RsPaused}" using st c by auto
      from finish_stage_log [OF fin this] obtain q where q: "rn_log rs4 = rn_log rs3 @ q" "subturns q = 0" "\<And>i. subturns_of i q = 0"
          "list_all (stage_eff env ctx stage idx) q"
          "\<And>g. c = CtAdvanced \<Longrightarrow> g = Some (GaVerdict VPass) \<Longrightarrow> \<exists>g' cl. monitor q (idx, g, False) =
              Some (if rn_status rs4 = RsFailed then idx else Suc idx, g', cl)"
          "\<And>g cl. c \<noteq> CtAdvanced \<Longrightarrow> monitor q (idx, g, cl) = Some (idx, g, cl)"
          "cont \<Longrightarrow> c = CtAdvanced \<and> stages \<noteq> [] \<and> rn_status rs4 = rn_status rs3 \<and>
              rn_attempts_remaining rs4 = rn_attempts_remaining rs3"
          "cont \<Longrightarrow> \<exists>g'. monitor q (idx, Some (GaVerdict VPass), False) = Some (Suc idx, g', True)"
          "\<not> cont \<Longrightarrow> c = CtAdvanced \<Longrightarrow> rn_status rs4 \<in> {RsFailed, RsInterrupted} \<or> rn_status rs4 = RsDone \<and> stages = []"
          "c \<noteq> CtAdvanced \<Longrightarrow> rn_status rs4 \<in> {rn_status rs3, RsInterrupted}"
        by metis
      let ?es = "(?e # es) @ q"
      have all: "rn_log rs4 = rn_log rs @ ?es" "subturns ?es = Suc a" "\<And>i. subturns_of i ?es = (if i = idx then Suc a else 0)"
          "list_all (stage_eff env ctx stage idx) ?es"
        using l(1,2,5,6) q(1-4) by auto
      show ?thesis
      proof (cases cont)
        case True
        have mon: "\<exists>g'. monitor ?es (idx, g, True) = Some (Suc idx, g', True)" for g
          using l(7) [of g] q(7,8) True by (auto simp: monitor_append)
        have "run_result env ctx (Suc idx) stages rs4 rs'"
          using Cons.IH [of "Suc idx" rs4] goes True Cons.prems(2) q(7) st by auto
        then show ?thesis
          using all l(3,4,8) mon q(7) True by (intro run_result_cons [of rs4 rs ?es a]) auto
      next
        case stop: False
        then have rs': "rs' = rs4" using goes by simp
        have mon: "\<exists>k g' cl. monitor ?es (idx, g, True) = Some (k, g', cl) \<and> idx \<le> k \<and> k \<le> Suc idx \<and>
           (rn_status rs4 = RsDone \<longrightarrow> k = Suc idx) \<and> (k = Suc idx \<longrightarrow> rn_status rs4 \<in> {RsDone, RsInterrupted})" for g
        proof -
          obtain final where f: "monitor (?e # es) (idx, g, True) = Some (idx, Some final, False)"
              "c = CtAdvanced \<longrightarrow> final = GaVerdict VPass" using l(7) by blast
          show ?thesis
          proof (cases "c = CtAdvanced")
            case True
            then obtain g' cl where "monitor q (idx, Some final, False) =
                Some (if rn_status rs4 = RsFailed then idx else Suc idx, g', cl)"
              using q(5) [OF True] f(2) by blast
            then show ?thesis using f(1) q(9) [OF stop True] by (auto simp: monitor_append)
          next
            case False
            then show ?thesis using f(1) q(6) [OF False] q(10) [OF False] st c by (auto simp: monitor_append)
          qed
        qed
        have "rn_status rs4 \<in> {RsDone, RsPaused, RsInterrupted, RsFailed}" "rn_status rs4 = RsDone \<longrightarrow> stages = []"
          using q(9) [OF stop] q(10) st c by auto
        then show ?thesis
          unfolding rs' using all l(3,4) mon by (intro run_result_last [where es = ?es and a = a]) auto
      qed
    qed
  qed
qed

section \<open>From the start to the end of a run\<close>

lemma run_start_fields:
  assumes "run_start env spec db ws = Some (ctx, rs)"
  shows "rc_run_id ctx = re_new_id env" "rc_egress ctx = derive_egress env"
    "rc_highest_local ctx = highest_local_tier (re_llm env)"
    "rc_default_tier ctx = (case session_tier (snapshot (re_llm env)) [] of Some t \<Rightarrow> t | None \<Rightarrow> Fast)"
    "ep_max_tier (rc_policy ctx) = escalation_max_tier env"
    "rn_status rs = RsDone" "rn_attempts_remaining rs = sp_attempts_budget spec"
    "\<exists>wi. rn_log rs = [EEvent (RunStarted (re_new_id env) wi)]"
proof -
  obtain r db1 where c: "create_run (re_session_known env) (re_item_known env) db (re_new_id env) (re_clock env 0)
      (sp_session_id spec) (sp_work_item_id spec) (sp_attempts_budget spec) = Some (r, db1)"
    using assms by (auto simp: run_start_def split: option.splits)
  then have i: "pr_id r = re_new_id env" by (auto simp: create_run_def Let_def split: if_splits)
  from assms show "rc_run_id ctx = re_new_id env" "rc_egress ctx = derive_egress env"
    "rc_highest_local ctx = highest_local_tier (re_llm env)"
    "rc_default_tier ctx = (case session_tier (snapshot (re_llm env)) [] of Some t \<Rightarrow> t | None \<Rightarrow> Fast)"
    "ep_max_tier (rc_policy ctx) = escalation_max_tier env"
    "rn_status rs = RsDone" "rn_attempts_remaining rs = sp_attempts_budget spec"
    "\<exists>wi. rn_log rs = [EEvent (RunStarted (re_new_id env) wi)]"
    by (auto simp: run_start_def c i Let_def persist_progress_def split: prod.splits if_splits)
qed

lemma store_tokens_frame: "store_tokens env ctx rs = rs\<lparr>rn_now := rn_now (store_tokens env ctx rs), rn_db := rn_db (store_tokens env ctx rs)\<rparr>"
  by (simp add: store_tokens_def Let_def)

lemma finalize_log:
  assumes "finalize_run env ctx session journal rs = Some (rs', journal')"
  obtains resets where
    "rn_log rs' = rn_log rs @ resets @
       [EEvent (if rn_status rs = RsPaused
                then RunPaused (rc_run_id ctx) (string_of (case rn_paused_reason rs of Some r \<Rightarrow> r | None \<Rightarrow> lit ''paused''))
                else RunComplete (rc_run_id ctx) (status_str (rn_status rs)))]"
    "\<exists>ok. resets = (if rn_status rs \<in> {RsFailed, RsInterrupted} then [EReset ok] else [])"
    "rn_status rs' = rn_status rs"
  using assms by (auto simp: finalize_run_def Let_def split: option.splits prod.splits if_splits)

lemma pipeline_run_log:
  assumes "pipeline_run env spec db journal ws = RunReturned (report, rs, journal')"
    and "list_all (\<lambda>s. sg_max_retries s \<noteq> - 1) (sp_pipeline spec)"
  obtains ctx rs0 rs1 wi resets e where "run_start env spec db ws = Some (ctx, rs0)"
    "run_result env ctx 0 (sp_pipeline spec) rs0 rs1" "rp_status report = rn_status rs1"
    "rn_log rs0 = [EEvent (RunStarted (re_new_id env) wi)]"
    "rn_log rs = rn_log rs1 @ resets @ [EEvent e]" "resets = [] \<or> (\<exists>ok. resets = [EReset ok])"
proof -
  obtain ctx rs0 where s: "run_start env spec db ws = Some (ctx, rs0)"
    using assms(1) by (auto simp: pipeline_run_def split: if_splits option.splits)
  then obtain rs1 where r: "run_stages env ctx 0 (sp_pipeline spec) rs0 = Some rs1"
    using assms(1) by (auto simp: pipeline_run_def split: if_splits option.splits)
  then have f: "finalize_run env ctx (sp_session_id spec) journal (store_tokens env ctx rs1) = Some (rs, journal')"
      "rp_status report = rn_status rs1"
    using assms(1) s by (auto simp: pipeline_run_def split: if_splits option.splits)
  have "rn_log (store_tokens env ctx rs1) = rn_log rs1" by (subst store_tokens_frame) simp
  then obtain resets e where l: "rn_log rs = rn_log rs1 @ resets @ [EEvent e]" "resets = [] \<or> (\<exists>ok. resets = [EReset ok])"
    using finalize_log [OF f(1)] by (metis (no_types, lifting))
  obtain wi where "rn_log rs0 = [EEvent (RunStarted (re_new_id env) wi)]" using run_start_fields(8) [OF s] by blast
  moreover have "run_result env ctx 0 (sp_pipeline spec) rs0 rs1"
    using run_stages_result [OF r assms(2)] run_start_fields(6) [OF s] by simp
  ultimately show thesis using that s f(2) l by blast
qed


text \<open>
  Property C30: a run ends after a bounded number of sub-turns. Over all stages there are at most as many
  sub-turns as stages plus the attempts budget less one, a stage has at most its retries plus two, and no
  sub-turn belongs to anything but a stage of the pipeline.
\<close>

theorem pipeline_subturns_bounded:
  assumes "pipeline_run env spec db journal ws = RunReturned (report, rs, journal')"
    and "list_all (\<lambda>s. sg_max_retries s \<noteq> - 1) (sp_pipeline spec)"
  shows "subturns (rn_log rs) \<le> length (sp_pipeline spec) + nat (sp_attempts_budget spec - 1) \<and>
     subturns_of i (rn_log rs) \<le>
       (if i < length (sp_pipeline spec) then unat (sg_max_retries (sp_pipeline spec ! i)) + 2 else 0)"
proof -
  from assms obtain ctx rs0 rs1 wi resets e where r: "run_start env spec db ws = Some (ctx, rs0)"
      "run_result env ctx 0 (sp_pipeline spec) rs0 rs1" "rn_log rs0 = [EEvent (RunStarted (re_new_id env) wi)]"
      "rn_log rs = rn_log rs1 @ resets @ [EEvent e]" "resets = [] \<or> (\<exists>ok. resets = [EReset ok])"
    by (rule pipeline_run_log)
  then obtain es f where "rn_log rs1 = rn_log rs0 @ es" "subturns es \<le> length (sp_pipeline spec) + f"
      "f > 0 \<longrightarrow> int f < rn_attempts_remaining rs0"
      "\<forall>i. subturns_of i es \<le> (if 0 \<le> i \<and> i < 0 + length (sp_pipeline spec)
                                  then unat (sg_max_retries (sp_pipeline spec ! (i - 0))) + 2 else 0)"
    unfolding run_result_def by blast
  then show ?thesis using r run_start_fields(7) [OF r(1)] by (auto dest: spec [of _ i])
qed

text \<open>
  Property C31: an escalation stays within the operator's limits, and a failed gate's output reaches the model
  without tool calls. Every sub-turn runs on its stage's own tier, or, if escalation is enabled, on the next
  tier above it that neither the configured maximum nor a local-only run's highest local tier excludes; its
  task is the stage's prompt, alone or followed by feedback that contains no tool tag.
\<close>

theorem pipeline_tiers_and_tasks:
  assumes "pipeline_run env spec db journal ws = RunReturned (report, rs, journal')"
    and "list_all (\<lambda>s. sg_max_retries s \<noteq> - 1) (sp_pipeline spec)"
    and "ESubTurn i attempt tier task \<in> set (rn_log rs)"
  shows "i < length (sp_pipeline spec) \<and>
     (tier = sg_tier (sp_pipeline spec ! i) \<or>
      (\<exists>nxt. tier = Some nxt \<and> re_escalation_enabled env \<and> nxt \<le> escalation_max_tier env \<and>
         (derive_egress env = LocalOnly \<longrightarrow> nxt \<le> highest_local_tier (re_llm env)) \<and>
         tier_next (effective_current (snapshot (re_llm env)) (sg_tier (sp_pipeline spec ! i))) = Some nxt)) \<and>
     (task = sg_prompt_ref (sp_pipeline spec ! i) \<or>
      (\<exists>fb. task = sg_prompt_ref (sp_pipeline spec ! i) @ [10, 10] @ fb \<and> tag_free fb))"
proof -
  from assms(1,2) obtain ctx rs0 rs1 wi resets e where r: "run_start env spec db ws = Some (ctx, rs0)"
      "run_result env ctx 0 (sp_pipeline spec) rs0 rs1" "rn_log rs0 = [EEvent (RunStarted (re_new_id env) wi)]"
      "rn_log rs = rn_log rs1 @ resets @ [EEvent e]" "resets = [] \<or> (\<exists>ok. resets = [EReset ok])"
    by (rule pipeline_run_log)
  then obtain es where "rn_log rs1 = rn_log rs0 @ es" "list_all (run_eff env ctx 0 (sp_pipeline spec)) es"
    unfolding run_result_def by blast
  then have "run_eff env ctx 0 (sp_pipeline spec) (ESubTurn i attempt tier task)"
    using assms(3) r by (auto simp: list_all_iff)
  moreover have "(case t of Some t \<Rightarrow> t | None \<Rightarrow> rc_default_tier ctx) = effective_current (snapshot (re_llm env)) t" for t
    by (cases t) (simp_all add: effective_current_def run_start_fields(4) [OF r(1)])
  ultimately show ?thesis
    by (auto simp: run_eff_def tier_allowed_def task_allowed_def run_start_fields [OF r(1)])
qed

section \<open>Every run is settled\<close>

definition rows_kept :: "'w runner_env \<Rightarrow> bool" where
  "rows_kept env \<longleftrightarrow> (\<forall>n db. get_run db (re_new_id env) \<noteq> None \<longrightarrow> get_run (re_others env n db) (re_new_id env) \<noteq> None)"

definition gates_return :: "'w runner_env \<Rightarrow> Stage list \<Rightarrow> bool" where
  "gates_return env stages \<longleftrightarrow>
     (\<forall>stage\<in>set stages. \<forall>run_id n c w. fst (snd (run_gate env run_id n c (sg_gate stage) w)) \<noteq> GaPanic)"

definition row_there :: "'w runner_env \<Rightarrow> 'w run_state \<Rightarrow> bool" where
  "row_there env rs \<longleftrightarrow> get_run (rn_db rs) (re_new_id env) \<noteq> None"

lemma update_where_keeps:
  assumes "\<And>r. pr_id (f r) = pr_id r \<and> pr_deleted_at (f r) = pr_deleted_at r"
  shows "get_run (snd (update_where c f db)) i = None \<longleftrightarrow> get_run db i = None"
proof -
  have "active i (if c r then f r else r) \<longleftrightarrow> active i r" for r using assms by (simp add: active_def)
  then have "find (active i) (map (\<lambda>r. if c r then f r else r) db) = None \<longleftrightarrow> find (active i) db = None"
    by (simp add: find_map_same)
  then show ?thesis by (simp add: get_run_def update_where_def)
qed

lemma transition_keeps: "get_run (snd (transition_via now j t db)) i = None \<longleftrightarrow> get_run db i = None"
  unfolding transition_via_def Let_def by (simp add: case_prod_beta update_where_keeps)

lemma persist_keeps:
  assumes "persist_progress env ctx idx a t rs = (ok, rs')" "rows_kept env" "row_there env rs"
  shows "row_there env rs'"
proof -
  let ?db = "re_others env (rn_now rs) (rn_db rs)"
  have k: "get_run ?db (re_new_id env) \<noteq> None" using assms(2,3) by (simp add: rows_kept_def row_there_def)
  show ?thesis
    using assms(1) k transition_keeps [of "re_clock env (rn_now rs)" "rc_run_id ctx" _ ?db "re_new_id env"]
    by (auto simp: persist_progress_def row_there_def Let_def split: prod.splits if_splits) (metis snd_conv)+
qed

lemma ask_gate_db: "ask_gate env ctx stage idx c rs = (a, rs') \<Longrightarrow> rn_db rs' = rn_db rs"
  by (auto simp: ask_gate_def split: prod.splits)

lemma attempt_db: "attempt_stage env ctx stage idx ss rs = (a, rs') \<Longrightarrow> rn_db rs' = rn_db rs"
  by (auto simp: attempt_stage_def run_stage_subturn_def reset_before_retry_def Let_def dest!: ask_gate_db
      split: prod.splits option.splits if_splits)

lemma after_fail_keeps:
  assumes "after_fail env ctx stage idx f ce p h ss rs = (c, ss', rs')" "rows_kept env" "row_there env rs"
  shows "row_there env rs' \<and> c \<noteq> CtPanic"
proof -
  obtain ok rs2 where p: "persist_progress env ctx idx (sa_attempt ss) (sa_tier ss)
      (rs\<lparr>rn_attempts_remaining := rn_attempts_remaining rs - 1\<rparr>) = (ok, rs2)" by fastforce
  have "row_there env rs2" using persist_keeps [OF p assms(2)] assms(3) by (simp add: row_there_def)
  then show ?thesis
    using assms(1) by (auto simp: after_fail_def p Let_def row_there_def split: StageDecision.splits option.splits)
qed

lemma ask_gate_returns:
  "gates_return env stages \<Longrightarrow> stage \<in> set stages \<Longrightarrow> ask_gate env ctx stage idx c rs = (a, rs') \<Longrightarrow> a \<noteq> GaPanic"
  by (auto simp: gates_return_def ask_gate_def split: prod.splits) (metis fst_conv snd_conv)

lemma one_attempt_settles:
  assumes "one_attempt env ctx stage idx ss rs = (c, ss', rs')" "rows_kept env" "row_there env rs"
    and g: "gates_return env stages" "stage \<in> set stages"
  shows "row_there env rs' \<and> c \<noteq> CtPanic"
proof -
  obtain a rs1 where at: "attempt_stage env ctx stage idx ss rs = (a, rs1)" by fastforce
  have r1: "row_there env rs1" using attempt_db [OF at] assms(3) by (simp add: row_there_def)
  have a: "a \<noteq> GaPanic" using at ask_gate_returns [OF g] by (auto simp: attempt_stage_def Let_def)
  have j: "judge_attempt env ctx stage idx ss a rs1 = (c, ss', rs')" using assms(1) at by (simp add: one_attempt_def)
  let ?rs2 = "log_eff [gate_event ctx stage True []] rs1"
  obtain v rs3 where v: "ask_gate env ctx stage idx True ?rs2 = (v, rs3)" by fastforce
  have r3: "row_there env rs3" "v \<noteq> GaPanic"
    using ask_gate_db [OF v] r1 ask_gate_returns [OF g v] by (simp_all add: row_there_def)
  have fail: "row_there env rs' \<and> c \<noteq> CtPanic"
    if "after_fail env ctx stage idx f ce p h ss rs0 = (c, ss', rs')" "row_there env rs0" for f ce p h rs0
    using after_fail_keeps [OF that(1) assms(2) that(2)] .
  have d: "row_there env (log_eff [gate_event ctx stage False t] rs1\<lparr>rn_last_gate_output := t\<rparr>)" for t
    using r1 by (simp add: row_there_def)
  show ?thesis
    using j a v r1 r3
    by (auto simp: judge_attempt_def Let_def split: gate_answer.splits verdict.splits if_splits dest!: fail [OF _ d] fail)
      (simp_all add: row_there_def)
qed

lemma finish_keeps:
  assumes "finish_stage env ctx stage idx is_last advanced ss rs = (cont, rs')" "rows_kept env" "row_there env rs"
  shows "row_there env rs'"
  using assms(1)
  by (auto simp: finish_stage_def Let_def split: prod.splits if_splits StageOutcome.splits
      dest!: persist_keeps [OF _ assms(2)])
    (use assms(3) in \<open>simp_all add: row_there_def\<close>)

lemma run_stages_settle:
  assumes "rows_kept env" "gates_return env all_stages" "set stages \<subseteq> set all_stages" "row_there env rs"
  shows "\<exists>rs'. run_stages env ctx idx stages rs = Some rs' \<and> row_there env rs'"
  using assms(3,4)
proof (induction stages arbitrary: idx rs)
  case (Cons stage stages)
  let ?rs1 = "rs\<lparr>rn_last_stage_idx := idx\<rparr>"
  let ?rs2 = "log_eff [EEvent (StageStarted (rc_run_id ctx) (sg_name stage) (tier_name (sg_tier stage)))] ?rs1"
  obtain c ss rs3 where loop: "stage_loop env ctx stage idx (stage_entry stage) ?rs2 = (c, ss, rs3)" by (metis prod_cases3)
  have there: "row_there env ?rs2" using Cons.prems(2) by (simp add: row_there_def)
  have st: "stage \<in> set all_stages" using Cons.prems(1) by simp
  have "c \<noteq> CtAgain \<and> (\<exists>s :: stage_state. row_there env rs3 \<and> c \<noteq> CtPanic)"
    by (rule stage_loop_rule [OF loop, where I = "\<lambda>_. row_there env" and Q = "\<lambda>_ _ r. row_there env r \<and> c \<noteq> CtPanic"])
      (use there one_attempt_settles [OF _ assms(1) _ assms(2) st] in blast)+
  then have c: "row_there env rs3" "c \<noteq> CtPanic" "c \<noteq> CtAgain" by simp_all
  obtain cont rs4 where fin: "finish_stage env ctx stage idx (stages = []) (c = CtAdvanced) ss rs3 = (cont, rs4)" by fastforce
  from finish_keeps [OF fin assms(1) c(1)] have r4: "row_there env rs4" .
  have "row_there env (?rs1\<lparr>rn_status := RsInterrupted\<rparr>)" using Cons.prems(2) by (simp add: row_there_def)
  with r4 c loop fin Cons.IH [of rs4 "Suc idx"] Cons.prems(1) show ?case
    by (auto simp: Let_def split: ctl.splits bool.splits)
qed simp

lemma run_start_row:
  assumes "run_start env spec db ws = Some (ctx, rs)" "rows_kept env"
  shows "row_there env rs"
proof -
  obtain r db1 where c: "create_run (re_session_known env) (re_item_known env) db (re_new_id env) (re_clock env 0)
      (sp_session_id spec) (sp_work_item_id spec) (sp_attempts_budget spec) = Some (r, db1)"
    using assms(1) by (auto simp: run_start_def split: option.splits)
  then have "r \<in> set db1 \<and> active (re_new_id env) r" by (auto simp: create_run_def active_def Let_def split: if_splits)
  then have "get_run db1 (re_new_id env) \<noteq> None" by (auto simp: get_run_def find_None_iff simp del: not_None_eq)
  moreover obtain ctx0 rs0 ok rs1 where "persist_progress env ctx0 0 0 None rs0 = (ok, rs1)" "rn_db rs0 = db1" "rn_db rs = rn_db rs1"
    using assms(1) c by (auto simp: run_start_def Let_def split: prod.splits)
  ultimately show ?thesis using persist_keeps [OF _ assms(2)] by (metis row_there_def)
qed

lemma store_tokens_keeps: "rows_kept env \<Longrightarrow> row_there env rs \<Longrightarrow> row_there env (store_tokens env ctx rs)"
  by (auto simp: store_tokens_def row_there_def rows_kept_def Let_def set_per_attempt_tokens_def case_prod_beta
      update_where_keeps simp del: not_None_eq)


section \<open>A run\<close>

text \<open>
  A worktree is what is committed and what is there. The plan is declined, then approved.
\<close>

definition sample_git :: "(nat \<times> nat) git" where
  "sample_git =
     \<lparr>gt_isolated_env = (\<lambda>_. True), gt_checkout = (\<lambda>_ (h, t). ((h, h), True)), gt_clean = (\<lambda>_ w. (w, True)),
      gt_add = (\<lambda>_ w. (w, True)), gt_commit = (\<lambda>_ _ (h, t). ((t, t), True, [])),
      gt_status = (\<lambda>_ (h, t). Some (replicate (t - h) 77))\<rparr>"

definition sample_router :: LlmRouter where
  "sample_router =
     \<lparr>lr_primary = NoopClient, lr_fallback = None, lr_tier_clients = Map.empty, lr_default_model = ''m'',
      lr_tier_model_names = Map.empty, lr_cost_quality = 5\<rparr>"

definition sample_world :: "(nat \<times> nat) runner_env" where
  "sample_world =
     \<lparr>re_escalation_enabled = True, re_nesting = 0, re_llm = sample_router, re_lowercase = id, re_egress_pref = None,
      re_max_tier_pref = None, re_stop = (\<lambda>_. False), re_stopped_in_gate = (\<lambda>_ _. False),
      re_subturn = (\<lambda>n stage tier task (h, t). ((h, t + n), None)), re_enforcing = True,
      re_sandbox = (\<lambda>_ _ _ _ w. (w, SbOut 0 [] [])), re_spawn = (\<lambda>_ _ _ _ w. (w, SpFailed)),
      re_file = (\<lambda>_ _. Missing), re_is_file = (\<lambda>_ _. False), re_from_str = (\<lambda>_. None), re_printable = (\<lambda>_. True),
      re_approval_id = (\<lambda>_ _. ''a''), re_approve = (\<lambda>n _. n > 1), re_git = sample_git, re_hash = (\<lambda>t. of_nat (length t)),
      re_db_ok = (\<lambda>_. True), re_others = (\<lambda>_ db. db), re_clock = (\<lambda>_. ''t''), re_session_known = (\<lambda>_. True),
      re_item_known = (\<lambda>_. True), re_new_id = ''run'', re_marker_id = ''marker'', re_idempotency_key = ''key'',
      re_marker_expires = ''later''\<rparr>"

definition sample_stages :: "Stage list" where
  "sample_stages =
     [\<lparr>sg_name = ''plan'', sg_tier = Some Fast, sg_prompt_ref = lit ''plan'', sg_tool_whitelist = [''fs_read''],
       sg_max_tool_calls = 25, sg_gate = GApproval ''ok?'', sg_max_retries = 2, sg_grammar = None\<rparr>]"

definition sample_spec :: run_spec where
  "sample_spec = \<lparr>sp_pipeline = sample_stages, sp_session_id = ''s'', sp_work_item_id = None, sp_attempts_budget = 9\<rparr>"

definition sample_journal :: Db where
  "sample_journal = \<lparr>db_rows = (\<lambda>_ _. None), db_exceptions = {||}, db_journal = []\<rparr>"

definition returns_with :: "(RunReport \<Rightarrow> eff list \<Rightarrow> bool) \<Rightarrow> bool" where
  "returns_with p =
     (case pipeline_run sample_world sample_spec [] sample_journal (0, 0) of
        RunReturned (report, rs, journal') \<Rightarrow> p report (rn_log rs) | _ \<Rightarrow> False)"

definition escalated_task :: ustr where
  "escalated_task = stage_task (lit ''plan'') (Some (retry_feedback (lit ''approval checkpoint declined'')))"

lemma sample_returns:
  "returns_with (\<lambda>report es. rp_status report = RsDone \<and> subturns es = 2 \<and>
     List.member es (ESubTurn 0 1 (Some Fast) escalated_task))"
  by code_simp

lemma sample_run:
  obtains report rs journal' where
    "pipeline_run sample_world sample_spec [] sample_journal (0, 0) = RunReturned (report, rs, journal')"
    "rp_status report = RsDone" "subturns (rn_log rs) = 2" "ESubTurn 0 1 (Some Fast) escalated_task \<in> set (rn_log rs)"
  using sample_returns by (auto simp: returns_with_def split: run_result.splits)

lemma sample_widths: "list_all (\<lambda>s. sg_max_retries s \<noteq> - 1) (sp_pipeline sample_spec)"
  by (simp add: sample_spec_def sample_stages_def)


theorem pipeline_subturns_bounded_witness:
  "\<exists>report rs journal'. pipeline_run sample_world sample_spec [] sample_journal (0, 0) = RunReturned (report, rs, journal') \<and>
     subturns (rn_log rs) = 2 \<and> subturns_of 0 (rn_log rs) \<le> 4"
proof -
  obtain report rs journal' where r: "subturns (rn_log rs) = 2"
      "pipeline_run sample_world sample_spec [] sample_journal (0, 0) = RunReturned (report, rs, journal')"
    using sample_run by blast
  show ?thesis
    using pipeline_subturns_bounded [OF r(2) sample_widths, of 0] r by (auto simp: sample_spec_def sample_stages_def)
qed

theorem pipeline_tiers_and_tasks_witness:
  "\<exists>report rs journal'. pipeline_run sample_world sample_spec [] sample_journal (0, 0) = RunReturned (report, rs, journal') \<and>
     ESubTurn 0 1 (Some Fast) escalated_task \<in> set (rn_log rs) \<and>
     (\<exists>fb. escalated_task = lit ''plan'' @ [10, 10] @ fb \<and> tag_free fb)"
proof -
  obtain report rs journal' where r: "ESubTurn 0 1 (Some Fast) escalated_task \<in> set (rn_log rs)"
      "pipeline_run sample_world sample_spec [] sample_journal (0, 0) = RunReturned (report, rs, journal')"
    using sample_run by blast
  have "escalated_task \<noteq> lit ''plan''" by (simp add: escalated_task_def stage_task_def)
  then show ?thesis
    using pipeline_tiers_and_tasks [OF r(2) sample_widths r(1)] r by (auto simp: sample_spec_def sample_stages_def)
qed


section \<open>Where the code differs from its comments\<close>

text \<open>
  Output that is cut in the middle of a character: the decoded text is longer than the limit and the slice at
  the limit panics.
\<close>

definition cut_output :: "nat list" where
  "cut_output = replicate (MAX_OUTPUT_BYTES - 1) 97 @ [195, 169]"

lemma cut_output_capped: "slice_cap (cap_output cut_output) = None"
proof -
  obtain k where k: "MAX_OUTPUT_BYTES = Suc k" by (metis MAX_OUTPUT_BYTES_def Suc_pred' mult_pos_pos zero_less_numeral)
  have a: "list_all (\<lambda>b. b < 128) (replicate k (97 :: nat))" by (simp add: list_all_iff)
  have "take (Suc k) (replicate k 97 @ [195, 169]) = replicate k 97 @ [195 :: nat]" by simp
  then have "cap_output cut_output = utf8 (replicate k 97 @ [REPLACEMENT])"
    by (simp add: cap_output_def cut_output_def k lossy_ascii [OF a] utf8_width_def Let_def)
  also have "\<dots> = replicate k 97 @ [239, 191, 189]"
    by (simp add: utf8_ascii [OF a]) (simp add: utf8_def utf8_char_def REPLACEMENT_def)
  finally show ?thesis
    by (simp add: slice_cap_def str_slice_to_def is_char_boundary_def is_continuation_def k nth_append)
qed

lemma cut_output_panics:
  assumes "\<not> re_enforcing env" and "re_spawn env n c program args w = (w', SpOut (Some 1) cut_output [])"
  shows "fst (snd (run_gate env run_id n c (GCommand program args) w)) = GaPanic"
  using assms by (simp add: run_gate_def exec_verifier_def cut_output_capped)

text \<open>Without git's answer every pass that follows a failure counts as one over an unchanged tree.\<close>

lemma no_status_looks_unchanged:
  "gt_status (re_git env) n w = None \<Longrightarrow> gt_status (re_git env) n' w' = None \<Longrightarrow>
     state_hash env n w = state_hash env n' w'"
  by (simp add: state_hash_def)

end
