(* ===== verification/TurnRouting.thy ===== *)
theory TurnRouting
  imports LlmRouting WireTypes Utf8 "HOL-Library.Sublist"
begin

text \<open>
  What a turn reads from the user's message before it runs: feedback (\<open>feedback_parser.rs\<close>), the judgment depth
  (\<open>depth.rs\<close>), an explicit tier (\<open>tier_intent.rs\<close>), a request to plan or build (\<open>coding_intent.rs\<close>), and the tier
  of the turn (\<open>routing.rs\<close>, all in \<open>crates/haily-core/src\<close>). \<open>low\<close> is \<open>str::to_lowercase\<close>.
\<close>

section \<open>Anchored phrases\<close>

definition SHORT_MESSAGE_WORD_LIMIT :: nat where "SHORT_MESSAGE_WORD_LIMIT = 6"

text \<open>\<open>split_whitespace\<close>.\<close>

fun words_from :: "ustr \<Rightarrow> ustr \<Rightarrow> ustr list" where
  "words_from cur [] = (if cur = [] then [] else [cur])"
| "words_from cur (c # s) =
     (if is_whitespace c then (if cur = [] then [] else [cur]) @ words_from [] s else words_from (cur @ [c]) s)"

definition word_count :: "ustr \<Rightarrow> nat" where
  "word_count msg = length (words_from [] msg)"

definition is_anchored :: "ustr \<Rightarrow> ustr \<Rightarrow> bool \<Rightarrow> bool" where
  "is_anchored lower_trimmed pattern short \<longleftrightarrow> short \<or> prefix pattern lower_trimmed"

text \<open>The loop over a list of phrases: does one of them fire?\<close>

definition fires :: "(ustr \<Rightarrow> ustr) \<Rightarrow> ustr list \<Rightarrow> ustr \<Rightarrow> bool" where
  "fires low patterns msg =
     (let lower = low msg; trimmed = trim lower; short = (word_count trimmed \<le> SHORT_MESSAGE_WORD_LIMIT)
      in list_ex (\<lambda>pat. sublist pat lower \<and> is_anchored trimmed pat short) patterns)"

section \<open>Feedback\<close>

datatype FeedbackSignal = Positive | Negative "ustr option" | Correction ustr ustr

definition POS_PATTERNS :: "ustr list" where
  "POS_PATTERNS = [
    [128077], [116, 7889, 116], [273, 250, 110, 103, 32, 114, 7891, 105],
    [99, 104, 237, 110, 104, 32, 120, 225, 99], lit ''perfect'', lit ''great'', [99, 7843, 109, 32, 417, 110],
    lit ''thank'', lit ''good'']"

definition NEG_PATTERNS :: "ustr list" where
  "NEG_PATTERNS = [
    [128078], lit ''sai'', [107, 104, 244, 110, 103, 32, 112, 104, 7843, 105],
    [273, 7915, 110, 103, 32, 108, 224, 109, 32, 118, 7853, 121],
    [107, 104, 244, 110, 103, 32, 273, 250, 110, 103], [100, 224, 105, 32, 113, 117, 225],
    [110, 103, 7855, 110, 32, 116, 104, 244, 105], [113, 117, 225, 32, 100, 224, 105], lit ''wrong'', lit ''bad'',
    lit ''stop'']"

text \<open>\<open>str::find\<close>, as the texts before and after the first occurrence.\<close>

fun split_first :: "ustr \<Rightarrow> ustr \<Rightarrow> (ustr \<times> ustr) option" where
  "split_first pat [] = (if pat = [] then Some ([], []) else None)"
| "split_first pat (c # s) =
     (if prefix pat (c # s) then Some ([], drop (length pat) (c # s))
      else map_option (\<lambda>(a, b). (c # a, b)) (split_first pat s))"

text \<open>\<open>trim_start_matches\<close> with a text.\<close>

function trim_start_matches :: "ustr \<Rightarrow> ustr \<Rightarrow> ustr" where
  "trim_start_matches pat s =
     (if pat \<noteq> [] \<and> prefix pat s then trim_start_matches pat (drop (length pat) s) else s)"
  by pat_completeness auto
termination by (relation "measure (\<lambda>(pat, s). length s)") (auto elim!: prefixE)

declare trim_start_matches.simps [simp del]

definition NOT_RIGHT :: ustr where "NOT_RIGHT = [107, 104, 244, 110, 103, 32, 112, 104, 7843, 105]"
definition BUT_IS :: ustr where "BUT_IS = [32, 109, 224, 32, 108, 224, 32]"
definition BUT :: ustr where "BUT = [32, 109, 224, 32]"
definition NO_ITS :: ustr where "NO_ITS = lit ''no, it'' @ [39] @ lit ''s''"
definition NO_ITS2 :: ustr where "NO_ITS2 = lit ''no it'' @ [39] @ lit ''s''"

text \<open>The text after a trigger, split at a separator into the old and the new value.\<close>

definition old_new :: "ustr \<Rightarrow> ustr \<Rightarrow> FeedbackSignal option" where
  "old_new sep after =
     (case split_first sep after of
        None \<Rightarrow> None
      | Some (a, b) \<Rightarrow> if trim a \<noteq> [] \<and> trim b \<noteq> [] then Some (Correction (trim a) (trim b)) else None)"

definition or_else :: "'a option \<Rightarrow> 'a option \<Rightarrow> 'a option" where
  "or_else a b = (case a of None \<Rightarrow> b | Some _ \<Rightarrow> a)"

definition try_parse_correction :: "(ustr \<Rightarrow> ustr) \<Rightarrow> ustr \<Rightarrow> FeedbackSignal option" where
  "try_parse_correction low msg =
     (let lower = low msg; trimmed = trim lower; short = (word_count trimmed \<le> SHORT_MESSAGE_WORD_LIMIT)
      in or_else
           (case split_first NOT_RIGHT lower of
              None \<Rightarrow> None
            | Some (_, after) \<Rightarrow>
                if is_anchored trimmed NOT_RIGHT short then or_else (old_new BUT_IS after) (old_new BUT after) else None)
           (if prefix NO_ITS trimmed \<or> prefix NO_ITS2 trimmed
            then old_new (lit '' but '') (trim_start_matches NO_ITS2 (trim_start_matches NO_ITS trimmed))
            else None))"

definition infer_negative_topic :: "(ustr \<Rightarrow> ustr) \<Rightarrow> ustr \<Rightarrow> ustr option" where
  "infer_negative_topic low msg =
     (let lower = low msg
      in if sublist [100, 224, 105] lower \<or> sublist [110, 103, 7855, 110, 32, 116, 104, 244, 105] lower \<or> sublist (lit ''long'') lower
         then Some (lit ''response_length'')
         else if sublist [110, 103, 244, 110, 32, 110, 103, 7919] lower \<or> sublist (lit ''language'') lower then Some (lit ''language'')
         else if sublist [112, 104, 111, 110, 103, 32, 99, 225, 99, 104] lower \<or> sublist (lit ''tone'') lower \<or> sublist (lit ''style'') lower
         then Some (lit ''tone'')
         else None)"

definition detect_feedback :: "(ustr \<Rightarrow> ustr) \<Rightarrow> ustr \<Rightarrow> FeedbackSignal option" where
  "detect_feedback low msg =
     (case try_parse_correction low msg of
        Some c \<Rightarrow> Some c
      | None \<Rightarrow>
          if fires low NEG_PATTERNS msg then Some (Negative (infer_negative_topic low msg))
          else if fires low POS_PATTERNS msg then Some Positive
          else None)"

section \<open>Depth, tier and coding intent\<close>

definition DEEP_PHRASES :: "ustr list" where
  "DEEP_PHRASES = [
    [108, 224, 109, 32, 107, 7929], [112, 104, 226, 110, 32, 116, 237, 99, 104, 32, 115, 226, 117],
    [110, 103, 104, 297, 32, 107, 7929], [107, 7929, 32, 99, 224, 110, 103], lit ''deep'', lit ''think hard'',
    lit ''think deeply'', lit ''be thorough'']"

definition QUICK_PHRASES :: "ustr list" where
  "QUICK_PHRASES = [
    [108, 224, 109, 32, 110, 104, 97, 110, 104], [110, 104, 97, 110, 104, 32, 116, 104, 244, 105],
    [116, 114, 7843, 32, 108, 7901, 105, 32, 110, 104, 97, 110, 104], lit ''quick'', lit ''be quick'', lit ''fast'']"

definition UPWARD_PHRASES :: "ustr list" where
  "UPWARD_PHRASES = [
    [110, 103, 104, 297, 32, 107, 7929], [115, 117, 121, 32, 110, 103, 104, 297, 32, 107, 7929],
    [112, 104, 226, 110, 32, 116, 237, 99, 104, 32, 115, 226, 117],
    [99, 7849, 110, 32, 116, 104, 7853, 110, 32, 110, 104, 233], lit ''think hard'', lit ''think carefully'',
    lit ''deep dive'', lit ''analyze thoroughly'']"

definition DOWNWARD_PHRASES :: "ustr list" where
  "DOWNWARD_PHRASES = [
    [116, 114, 7843, 32, 108, 7901, 105, 32, 110, 104, 97, 110, 104],
    [110, 104, 97, 110, 104, 32, 116, 104, 244, 105],
    [110, 103, 7855, 110, 32, 103, 7885, 110, 32, 116, 104, 244, 105], lit ''quick answer'', lit ''just quickly'',
    lit ''briefly'']"

definition PLAN_PATTERNS :: "ustr list" where
  "PLAN_PATTERNS = [
    lit ''plan this feature'', lit ''plan the implementation of'', lit ''write a plan for this feature'',
    lit ''design the architecture for'',
    [108, 234, 110, 32, 107, 7871, 32, 104, 111, 7841, 99, 104, 32, 99, 104, 111, 32, 116, 237, 110, 104, 32, 110, 259, 110, 103],
    [116, 104, 105, 7871, 116, 32, 107, 7871, 32, 107, 105, 7871, 110, 32, 116, 114, 250, 99, 32, 99, 104, 111]]"

definition BUILD_PATTERNS :: "ustr list" where
  "BUILD_PATTERNS = [
    lit ''build this feature'', lit ''implement this feature'', lit ''code this feature'', lit ''fix this bug'',
    lit ''write the code for this'', lit ''refactor this code'',
    [118, 105, 7871, 116, 32, 99, 111, 100, 101, 32, 99, 104, 111, 32, 116, 237, 110, 104, 32, 110, 259, 110, 103],
    [115, 7917, 97, 32, 108, 7895, 105, 32, 110, 224, 121, 32, 116, 114, 111, 110, 103, 32, 99, 111, 100, 101],
    [99, 111, 100, 101, 32, 116, 237, 110, 104, 32, 110, 259, 110, 103, 32, 110, 224, 121],
    [116, 104, 234, 109, 32, 116, 237, 110, 104, 32, 110, 259, 110, 103, 32, 110, 224, 121, 32, 118, 224, 111, 32, 99, 111, 100, 101]]"

definition detect_depth :: "(ustr \<Rightarrow> ustr) \<Rightarrow> ustr \<Rightarrow> DepthMode option" where
  "detect_depth low msg =
     (if fires low DEEP_PHRASES msg then Some Deep
      else if fires low QUICK_PHRASES msg then Some Quick
      else None)"

definition effective_depth :: "(ustr \<Rightarrow> ustr) \<Rightarrow> DepthMode \<Rightarrow> ustr \<Rightarrow> DepthMode" where
  "effective_depth low request_depth user_message =
     (case detect_depth low user_message of Some d \<Rightarrow> d | None \<Rightarrow> request_depth)"

definition PARITY_HINT :: ustr where
  "PARITY_HINT = [
    71, 7907, 105, 32, 253, 58, 32, 109, 244, 32, 104, 236, 110, 104, 32, 104, 105, 7879, 110, 32, 116, 7841, 105,
    32, 116, 104, 105, 234, 110, 32, 118, 7873, 32, 116, 7889, 99, 32, 273, 7897, 46, 32, 86, 7899, 105, 32, 118,
    105, 7879, 99, 32, 99, 7847, 110, 32, 112, 104, 225, 110, 32, 273, 111, 225, 110, 32, 107, 7929, 44, 32, 98,
    7853, 116, 32, 99, 104, 7871, 32, 273, 7897, 32, 83, 226, 117, 32, 40, 68, 101, 101, 112, 41, 32, 273, 7875,
    32, 99, 243, 32, 112, 104, 225, 110, 32, 273, 111, 225, 110, 32, 273, 97, 32, 108, 117, 7891, 110, 103, 32,
    8212, 32, 108, 432, 117, 32, 253, 32, 99, 104, 105, 32, 112, 104, 237, 32, 432, 7899, 99, 32, 116, 237, 110,
    104, 32, 99, 97, 111, 32, 103, 7845, 112, 32, 51, 8211, 53, 32, 108, 7847, 110, 46]"

definition parity_hint :: "Tier option \<Rightarrow> ustr option" where
  "parity_hint tier =
     (let below_thinking = (case tier of Some t \<Rightarrow> t < Thinking | None \<Rightarrow> True)
      in if below_thinking then Some PARITY_HINT else None)"

definition RESEARCH_DEEP :: ustr where
  "RESEARCH_DEEP =
        [10, 10] @
        lit ''## Depth: Deep'' @
        [10] @
        lit ''Fan out across multiple independent angles before converging: gather from distinct '' @
        lit ''sources/framings, note where they disagree, then synthesize a single grounded answer that '' @
        lit ''cites which angle each claim rests on. Do not average conflicting sources '' @
        [8212] @
        lit '' reconcile them '' @
        lit ''explicitly or flag the unresolved conflict.''"

definition CREATOR_DEEP :: ustr where
  "CREATOR_DEEP =
        [10, 10] @
        lit ''## Depth: Deep'' @
        [10] @
        lit ''Draft more than one framing/outline, weigh them against the stated goal and audience, then '' @
        lit ''commit to one and note why the alternatives were rejected. Depth here is judgment about '' @
        lit ''structure, not more words.''"

definition DEPTH_QUICK :: ustr where
  "DEPTH_QUICK =
        [10, 10] @
        lit ''## Depth: Quick'' @
        [10] @
        lit ''Answer directly from the most reliable single source/framing. Skip multi-angle fan-out; be '' @
        lit ''concise.''"

definition research_depth_addendum :: "string \<Rightarrow> DepthMode \<Rightarrow> ustr option" where
  "research_depth_addendum domain depth =
     (if domain = ''researcher'' \<and> depth = Deep then Some RESEARCH_DEEP
      else if domain = ''creator'' \<and> depth = Deep then Some CREATOR_DEEP
      else if (domain = ''researcher'' \<or> domain = ''creator'') \<and> depth = Quick then Some DEPTH_QUICK
      else None)"

text \<open>\<open>tier_intent::detect\<close>.\<close>

definition detect_tier :: "(ustr \<Rightarrow> ustr) \<Rightarrow> ustr \<Rightarrow> Tier option" where
  "detect_tier low msg =
     (if fires low UPWARD_PHRASES msg then Some Thinking
      else if fires low DOWNWARD_PHRASES msg then Some Fast
      else None)"

datatype RunKind = Plan | Build | PlanThenBuild

text \<open>\<open>coding_intent::classify\<close>.\<close>

definition classify_intent :: "(ustr \<Rightarrow> ustr) \<Rightarrow> ustr \<Rightarrow> RequestOrigin \<Rightarrow> RunKind option" where
  "classify_intent low msg origin =
     (if origin \<noteq> Chat then None
      else if fires low PLAN_PATTERNS msg then Some Plan
      else if fires low BUILD_PATTERNS msg then Some Build
      else None)"

section \<open>The tier of a turn\<close>

definition W_HIGH :: nat where "W_HIGH = 80"
definition N_CONT :: nat where "N_CONT = 6"

record RouteFeatures =
  rf_msg_words :: nat
  rf_has_code :: bool
  rf_history_user_msgs :: nat
  rf_depth_label :: string

record RouteCtx =
  rc_depth :: DepthMode
  rc_history_user_msgs :: nat
  rc_remote_origin :: bool

definition extract_features :: "ustr \<Rightarrow> RouteCtx \<Rightarrow> RouteFeatures" where
  "extract_features msg ctx =
     \<lparr>rf_msg_words = word_count (trim msg), rf_has_code = sublist (replicate 3 96) msg,
      rf_history_user_msgs = rc_history_user_msgs ctx, rf_depth_label = as_label (rc_depth ctx)\<rparr>"

datatype DecisionSource = DefaultSource | Heuristic | ExplicitPhrase | DepthSource

fun source_label :: "DecisionSource \<Rightarrow> string" where
  "source_label DefaultSource = ''default''"
| "source_label Heuristic = ''heuristic''"
| "source_label ExplicitPhrase = ''explicit_phrase''"
| "source_label DepthSource = ''depth''"

record TierDecision =
  td_tier :: "Tier option"
  td_source :: DecisionSource
  td_features :: RouteFeatures

text \<open>\<open>TierDecision::default\<close>, the decision of a turn without routing.\<close>

definition default_decision :: TierDecision where
  "default_decision =
     \<lparr>td_tier = None, td_source = DefaultSource,
      td_features = \<lparr>rf_msg_words = 0, rf_has_code = False, rf_history_user_msgs = 0, rf_depth_label = ''normal''\<rparr>\<rparr>"

fun tier_label :: "Tier \<Rightarrow> string" where
  "tier_label Fast = ''fast''"
| "tier_label Medium = ''medium''"
| "tier_label Thinking = ''thinking''"
| "tier_label Ultra = ''ultra''"

fun depth_tier :: "DepthMode \<Rightarrow> Tier option" where
  "depth_tier Deep = Some Thinking"
| "depth_tier Quick = Some Fast"
| "depth_tier Normal = None"

fun step_down :: "Tier \<Rightarrow> Tier" where
  "step_down Fast = Fast"
| "step_down Medium = Fast"
| "step_down Thinking = Medium"
| "step_down Ultra = Thinking"

fun step_up_capped_thinking :: "Tier \<Rightarrow> Tier" where
  "step_up_capped_thinking Fast = Medium"
| "step_up_capped_thinking Medium = Thinking"
| "step_up_capped_thinking Thinking = Thinking"
| "step_up_capped_thinking Ultra = Thinking"

definition apply_cost_quality_bias :: "Tier \<Rightarrow> 8 word \<Rightarrow> Tier" where
  "apply_cost_quality_bias tier cost_quality =
     (if cost_quality \<le> 3 then step_down tier
      else if cost_quality \<ge> 8 then step_up_capped_thinking tier
      else tier)"

definition heuristic_tier :: "RouteFeatures \<Rightarrow> 8 word \<Rightarrow> Tier option" where
  "heuristic_tier features cost_quality =
     (let long_or_code = (rf_msg_words features > W_HIGH \<or> rf_has_code features);
          continuation = (rf_msg_words features \<le> SHORT_MESSAGE_WORD_LIMIT \<and> rf_history_user_msgs features > N_CONT)
      in if long_or_code \<or> continuation then Some (apply_cost_quality_bias Medium cost_quality) else None)"

definition apply_remote_ceiling :: "Tier \<Rightarrow> bool \<Rightarrow> Tier" where
  "apply_remote_ceiling tier remote_origin = (if remote_origin \<and> tier > Medium then Medium else tier)"

definition select_tier :: "(ustr \<Rightarrow> ustr) \<Rightarrow> ustr \<Rightarrow> RouteCtx \<Rightarrow> 8 word \<Rightarrow> TierDecision" where
  "select_tier low msg ctx cost_quality =
     (let features = extract_features msg ctx;
          (tier, source) =
            (case detect_tier low msg of
               Some t \<Rightarrow> (Some t, ExplicitPhrase)
             | None \<Rightarrow>
                 (case depth_tier (rc_depth ctx) of
                    Some t \<Rightarrow> (Some t, DepthSource)
                  | None \<Rightarrow>
                      (case heuristic_tier features cost_quality of
                         Some t \<Rightarrow> (Some t, Heuristic)
                       | None \<Rightarrow> (None, DefaultSource))))
      in \<lparr>td_tier = map_option (\<lambda>t. apply_remote_ceiling t (rc_remote_origin ctx)) tier,
          td_source = source, td_features = features\<rparr>)"

definition is_remote_adapter :: "string \<Rightarrow> bool" where
  "is_remote_adapter adapter_id \<longleftrightarrow> adapter_id = ''mobile''"

section \<open>Lemmas\<close>

lemma fires_long:
  assumes "word_count (trim (low msg)) > SHORT_MESSAGE_WORD_LIMIT"
  shows "fires low patterns msg \<longleftrightarrow> (\<exists>pat \<in> set patterns. prefix pat (trim (low msg)))"
proof -
  have "sublist (trim t) t" for t :: ustr
  proof -
    have d: "sublist (dropWhile p s) s" for p and s :: ustr by (simp add: dropWhile_eq_drop sublist_drop)
    have "sublist (rev (dropWhile is_whitespace (rev (dropWhile is_whitespace t)))) (rev (rev (dropWhile is_whitespace t)))"
      by (simp only: sublist_rev d)
    then show ?thesis using d [of is_whitespace t] unfolding trim_def by (simp add: sublist_order.order.trans)
  qed
  then have "sublist pat (low msg)" if "prefix pat (trim (low msg))" for pat
    using that prefix_imp_sublist sublist_order.order.trans by blast
  then show ?thesis using assms by (auto simp: fires_def is_anchored_def Let_def list_ex_iff)
qed

text \<open>The longest phrase of the lexicons has 29 characters.\<close>

definition PHRASE_MAX :: nat where "PHRASE_MAX = 29"

definition intent_phrases :: "ustr list" where
  "intent_phrases = DEEP_PHRASES @ QUICK_PHRASES @ UPWARD_PHRASES @ DOWNWARD_PHRASES @ PLAN_PATTERNS @ BUILD_PATTERNS"

lemma phrases_short: "pat \<in> set intent_phrases \<Longrightarrow> length pat \<le> PHRASE_MAX"
proof -
  have "list_all (\<lambda>p. length p \<le> PHRASE_MAX) intent_phrases"
    by (simp add: intent_phrases_def PHRASE_MAX_def DEEP_PHRASES_def QUICK_PHRASES_def UPWARD_PHRASES_def
        DOWNWARD_PHRASES_def PLAN_PATTERNS_def BUILD_PATTERNS_def)
  then show "pat \<in> set intent_phrases \<Longrightarrow> length pat \<le> PHRASE_MAX" by (auto simp: list_all_iff)
qed

lemma prefix_take: "length p \<le> n \<Longrightarrow> prefix p (take n s) \<longleftrightarrow> prefix p s"
  using prefix_order.trans [OF _ take_is_prefix [of n s], of p] prefix_length_prefix [of p s "take n s"] prefix_length_le [of p s]
  by (auto simp: take_is_prefix)

text \<open>Two long messages that start alike fire the same phrases.\<close>

lemma fires_alike:
  assumes "word_count (trim (low m1)) > SHORT_MESSAGE_WORD_LIMIT" and "word_count (trim (low m2)) > SHORT_MESSAGE_WORD_LIMIT"
    and "take PHRASE_MAX (trim (low m1)) = take PHRASE_MAX (trim (low m2))" and "set patterns \<subseteq> set intent_phrases"
  shows "fires low patterns m1 = fires low patterns m2"
proof -
  have "prefix pat (trim (low m1)) \<longleftrightarrow> prefix pat (trim (low m2))" if "pat \<in> set patterns" for pat
    using assms(3,4) that phrases_short by (metis prefix_take subsetD)
  then show ?thesis using fires_long assms(1,2) by blast
qed

section \<open>Properties\<close>

text \<open>
  In a message of more than six words only its first 29 characters, trimmed and in lower case, can ask
  for a depth, for a tier or for a pipeline: two such messages that start alike are read alike, whatever text is
  pasted after that.
\<close>

lemma long_messages_read_by_their_start:
  assumes "word_count (trim (low m1)) > SHORT_MESSAGE_WORD_LIMIT" and "word_count (trim (low m2)) > SHORT_MESSAGE_WORD_LIMIT"
    and "take PHRASE_MAX (trim (low m1)) = take PHRASE_MAX (trim (low m2))"
  shows "effective_depth low d m1 = effective_depth low d m2 \<and> detect_tier low m1 = detect_tier low m2 \<and>
     classify_intent low m1 origin = classify_intent low m2 origin"
proof -
  note alike = fires_alike [of low m1 m2, OF assms]
  have "fires low p m1 = fires low p m2"
    if "p \<in> {DEEP_PHRASES, QUICK_PHRASES, UPWARD_PHRASES, DOWNWARD_PHRASES, PLAN_PATTERNS, BUILD_PATTERNS}" for p
    using that by (intro alike) (auto simp: intent_phrases_def)
  then show ?thesis by (simp add: effective_depth_def detect_depth_def detect_tier_def classify_intent_def)
qed

definition sample_start :: ustr where
  "sample_start = lit ''please read all of this page for me''"

lemma long_messages_read_by_their_start_witness:
  "effective_depth lower Normal (sample_start @ lit '' think hard'') = effective_depth lower Normal sample_start \<and>
   word_count (trim (lower (sample_start @ lit '' think hard''))) = 10"
proof -
  have "word_count (trim (lower (sample_start @ lit '' think hard''))) = 10" "word_count (trim (lower sample_start)) = 8"
    "take PHRASE_MAX (trim (lower (sample_start @ lit '' think hard''))) = take PHRASE_MAX (trim (lower sample_start))"
    by (simp_all add: sample_start_def word_count_def trim_def is_whitespace_def to_ascii_lowercase_def PHRASE_MAX_def)
  then show ?thesis
    using long_messages_read_by_their_start [of "\<lambda>t. lower t" "sample_start @ lit '' think hard''" sample_start Normal]
    by (simp add: SHORT_MESSAGE_WORD_LIMIT_def)
qed

lemma detect_tier_range: "detect_tier low msg = Some t \<Longrightarrow> t = Thinking \<or> t = Fast"
  by (auto simp: detect_tier_def split: if_splits)

lemma heuristic_range: "heuristic_tier f cq = Some t \<Longrightarrow> t \<noteq> Ultra"
  by (auto simp: heuristic_tier_def apply_cost_quality_bias_def Let_def split: if_splits)

lemma heuristic_mono:
  "cq \<le> cq' \<Longrightarrow> heuristic_tier f cq = Some t \<Longrightarrow> heuristic_tier f cq' = Some t' \<Longrightarrow> t \<le> t'"
  by (auto simp: heuristic_tier_def apply_cost_quality_bias_def Let_def less_eq_Tier_def split: if_splits)

lemma apply_remote_ceiling_min: "apply_remote_ceiling t remote = (if remote then min t Medium else t)"
  by (auto simp: apply_remote_ceiling_def min_def)

text \<open>What decides without the ceiling for remote turns.\<close>

definition local_tier :: "(ustr \<Rightarrow> ustr) \<Rightarrow> ustr \<Rightarrow> RouteCtx \<Rightarrow> 8 word \<Rightarrow> Tier option" where
  "local_tier low msg ctx cq =
     (case detect_tier low msg of Some t \<Rightarrow> Some t
      | None \<Rightarrow> (case depth_tier (rc_depth ctx) of Some t \<Rightarrow> Some t
                | None \<Rightarrow> heuristic_tier (extract_features msg ctx) cq))"

lemma select_tier_local:
  "td_tier (select_tier low msg ctx cq) =
     map_option (\<lambda>t. if rc_remote_origin ctx then min t Medium else t) (local_tier low msg ctx cq)"
  by (simp add: select_tier_def local_tier_def Let_def apply_remote_ceiling_min split: option.split)

lemma local_tier_small: "local_tier low msg ctx cq \<noteq> Some Ultra"
  using detect_tier_range [of low msg] heuristic_range
  by (auto simp: local_tier_def split: option.splits dest: heuristic_range elim: depth_tier.elims)

lemma local_tier_mono:
  assumes "cq \<le> cq'"
  shows "rel_option (\<le>) (local_tier low msg ctx cq) (local_tier low msg ctx cq')"
proof -
  have "rel_option (\<le>) (heuristic_tier f cq) (heuristic_tier f cq')" for f
    using heuristic_mono [OF assms, of f]
    by (cases "heuristic_tier f cq"; cases "heuristic_tier f cq'") (auto simp: heuristic_tier_def Let_def split: if_splits)
  then show ?thesis by (auto simp: local_tier_def option.rel_refl split: option.split)
qed


lemmas read_message = detect_tier_def effective_depth_def detect_depth_def fires_def Let_def word_count_def trim_def
  is_whitespace_def to_ascii_lowercase_def SHORT_MESSAGE_WORD_LIMIT_def is_anchored_def
  UPWARD_PHRASES_def DOWNWARD_PHRASES_def DEEP_PHRASES_def QUICK_PHRASES_def sublist_Cons_right


section \<open>Deviations\<close>

text \<open>
  A remote client is refused the deep mode as a toggle only: a phrase in the message sets it again, since the
  phrase overrides the depth of the request.
\<close>

lemma phrase_overrides_remote_depth: "effective_depth lower Normal (lit ''think hard'') = Deep"
  by (simp add: read_message)

text \<open>The two detectors can disagree about one message: it is deep for the one and fast for the other.\<close>

lemma depth_and_tier_disagree:
  "detect_depth lower (lit ''briefly but be thorough'') = Some Deep \<and> detect_tier lower (lit ''briefly but be thorough'') = Some Fast"
  by (simp add: read_message)

text \<open>In a short message a phrase counts anywhere, also inside a word.\<close>

lemma phrase_inside_a_word: "detect_depth lower (lit ''what is for breakfast'') = Some Quick"
  by (simp add: read_message)

text \<open>
  The ceiling for remote turns holds for the decision only: the rescue of a failed stream takes the next tier of
  the turn's policy, which is above it.
\<close>

lemma rescue_exceeds_remote_ceiling:
  "next_tier \<lparr>ep_failures_before_escalation = 1, ep_max_tier = Thinking, ep_enabled = True\<rparr>
     (apply_remote_ceiling Medium True) 1 AllowCloud h = Some Thinking"
  by (simp add: next_tier_def apply_remote_ceiling_def less_eq_Tier_def min_def)

end
