(* ===== verification/Conversation.thy ===== *)
theory Conversation
  imports TokenBudget Utf8 "HOL-Library.List_Lexorder"
begin

text \<open>
  Sessions and their messages (\<open>crates/haily-db/src/queries/sessions.rs\<close>), the work items of turns
  (\<open>queries/work_items.rs\<close>), and the messages a turn starts from (\<open>crates/haily-core/src/context.rs\<close>). Rows come
  in the order of their insertion, which is that of \<open>created_at\<close>. Retrieval of facts and the wording of the
  system prompt are arguments.
\<close>

section \<open>Sessions\<close>

record SessionRow =
  sn_id :: string
  sn_adapter_id :: string
  sn_user_ref :: "string option"
  sn_created_at :: string
  sn_updated_at :: string
  sn_deleted_at :: "string option"

record MessageRow =
  mr_id :: string
  mr_session_id :: string
  mr_role :: string
  mr_content :: ustr
  mr_tokens :: "int option"
  mr_created_at :: string

record chat_db =
  cd_sessions :: "SessionRow list"
  cd_messages :: "MessageRow list"

definition create_session :: "string \<Rightarrow> string \<Rightarrow> string \<Rightarrow> string option \<Rightarrow> chat_db \<Rightarrow> (SessionRow \<times> chat_db) option" where
  "create_session now i adapter_id user_ref db =
     (if \<exists>s \<in> set (cd_sessions db). sn_id s = i then None
      else (let s = \<lparr>sn_id = i, sn_adapter_id = adapter_id, sn_user_ref = user_ref, sn_created_at = now,
                     sn_updated_at = now, sn_deleted_at = None\<rparr>
            in Some (s, db\<lparr>cd_sessions := cd_sessions db @ [s]\<rparr>)))"

definition get_session :: "chat_db \<Rightarrow> string \<Rightarrow> SessionRow option" where
  "get_session db i = find (\<lambda>s. sn_id s = i \<and> sn_deleted_at s = None) (cd_sessions db)"

definition touch_session :: "string \<Rightarrow> string \<Rightarrow> chat_db \<Rightarrow> chat_db" where
  "touch_session now i db =
     db\<lparr>cd_sessions := map (\<lambda>s. if sn_id s = i then s\<lparr>sn_updated_at := now\<rparr> else s) (cd_sessions db)\<rparr>"

definition insert_message :: "string \<Rightarrow> string \<Rightarrow> string \<Rightarrow> string \<Rightarrow> ustr \<Rightarrow> int option \<Rightarrow> chat_db \<Rightarrow> chat_db" where
  "insert_message new_id now session_id role content tokens db =
     db\<lparr>cd_messages := cd_messages db @
       [\<lparr>mr_id = new_id, mr_session_id = session_id, mr_role = role, mr_content = content, mr_tokens = tokens,
         mr_created_at = now\<rparr>]\<rparr>"

text \<open>\<open>ORDER BY created_at DESC LIMIT n\<close>, turned round.\<close>

definition recent_messages :: "chat_db \<Rightarrow> string \<Rightarrow> nat \<Rightarrow> MessageRow list" where
  "recent_messages db session_id n =
     rev (take n (rev (filter (\<lambda>m. mr_session_id m = session_id) (cd_messages db))))"

section \<open>Work items\<close>

record WorkItem =
  wi_id :: string
  wi_session_id :: string
  wi_title :: ustr
  wi_status :: string
  wi_phase :: "ustr option"
  wi_progress :: int
  wi_checkpoint :: "ustr option"
  wi_started_at :: "string option"
  wi_completed_at :: "string option"
  wi_error :: "ustr option"
  wi_created_at :: string
  wi_updated_at :: string
  wi_deleted_at :: "string option"
  wi_plan_path :: "string option"

type_synonym work_items = "WorkItem list"

definition wi_create :: "string \<Rightarrow> string \<Rightarrow> string \<Rightarrow> ustr \<Rightarrow> work_items \<Rightarrow> WorkItem \<times> work_items" where
  "wi_create new_id now session_id title items =
     (let w = \<lparr>wi_id = new_id, wi_session_id = session_id, wi_title = title, wi_status = ''queued'', wi_phase = None,
               wi_progress = 0, wi_checkpoint = None, wi_started_at = None, wi_completed_at = None, wi_error = None,
               wi_created_at = now, wi_updated_at = now, wi_deleted_at = None, wi_plan_path = None\<rparr>
      in (w, items @ [w]))"

text \<open>\<open>UPDATE ... WHERE id = ? AND deleted_at IS NULL\<close>\<close>

definition wi_update :: "string \<Rightarrow> (WorkItem \<Rightarrow> WorkItem) \<Rightarrow> work_items \<Rightarrow> work_items" where
  "wi_update i f items = map (\<lambda>w. if wi_id w = i \<and> wi_deleted_at w = None then f w else w) items"

definition wi_matches :: "string \<Rightarrow> work_items \<Rightarrow> bool" where
  "wi_matches i items \<longleftrightarrow> list_ex (\<lambda>w. wi_id w = i \<and> wi_deleted_at w = None) items"

definition wi_start :: "string \<Rightarrow> string \<Rightarrow> work_items \<Rightarrow> work_items" where
  "wi_start now i = wi_update i (\<lambda>w. w\<lparr>wi_status := ''running'', wi_started_at := Some now, wi_updated_at := now\<rparr>)"

definition wi_save_checkpoint :: "string \<Rightarrow> string \<Rightarrow> ustr option \<Rightarrow> int \<Rightarrow> ustr \<Rightarrow> work_items \<Rightarrow> work_items" where
  "wi_save_checkpoint now i phase progress checkpoint_json =
     wi_update i (\<lambda>w. w\<lparr>wi_phase := phase, wi_progress := progress, wi_checkpoint := Some checkpoint_json, wi_updated_at := now\<rparr>)"

definition wi_link_plan :: "string \<Rightarrow> string \<Rightarrow> string \<Rightarrow> work_items \<Rightarrow> bool \<times> work_items" where
  "wi_link_plan now i plan_path items =
     (wi_matches i items, wi_update i (\<lambda>w. w\<lparr>wi_plan_path := Some plan_path, wi_updated_at := now\<rparr>) items)"

definition wi_complete :: "string \<Rightarrow> string \<Rightarrow> work_items \<Rightarrow> work_items" where
  "wi_complete now i = wi_update i (\<lambda>w. w\<lparr>wi_status := ''done'', wi_completed_at := Some now, wi_updated_at := now\<rparr>)"

definition wi_fail :: "string \<Rightarrow> string \<Rightarrow> ustr \<Rightarrow> work_items \<Rightarrow> work_items" where
  "wi_fail now i e = wi_update i (\<lambda>w. w\<lparr>wi_status := ''failed'', wi_error := Some e, wi_updated_at := now\<rparr>)"

definition wi_mark_interrupted :: "string \<Rightarrow> string \<Rightarrow> work_items \<Rightarrow> work_items" where
  "wi_mark_interrupted now i = wi_update i (\<lambda>w. w\<lparr>wi_status := ''interrupted'', wi_updated_at := now\<rparr>)"

definition wi_soft_delete :: "string \<Rightarrow> string \<Rightarrow> work_items \<Rightarrow> bool \<times> work_items" where
  "wi_soft_delete now i items =
     (wi_matches i items, wi_update i (\<lambda>w. w\<lparr>wi_deleted_at := Some now, wi_updated_at := now\<rparr>) items)"

definition wi_list_active :: "work_items \<Rightarrow> WorkItem list" where
  "wi_list_active items =
     filter (\<lambda>w. wi_status w \<in> {''queued'', ''running'', ''paused'', ''interrupted''} \<and> wi_deleted_at w = None) items"

definition wi_list_interrupted :: "work_items \<Rightarrow> WorkItem list" where
  "wi_list_interrupted items = filter (\<lambda>w. wi_status w = ''interrupted'' \<and> wi_deleted_at w = None) items"

definition wi_get :: "work_items \<Rightarrow> string \<Rightarrow> WorkItem option" where
  "wi_get items i = find (\<lambda>w. wi_id w = i \<and> wi_deleted_at w = None) items"

definition wi_reset_stale_running :: "string \<Rightarrow> work_items \<Rightarrow> nat \<times> work_items" where
  "wi_reset_stale_running now items =
     (length (filter (\<lambda>w. wi_status w = ''running'' \<and> wi_deleted_at w = None) items),
      map (\<lambda>w. if wi_status w = ''running'' \<and> wi_deleted_at w = None
               then w\<lparr>wi_status := ''interrupted'', wi_updated_at := now\<rparr> else w) items)"

section \<open>The messages of a turn\<close>

definition HISTORY_FETCH_WINDOW :: nat where "HISTORY_FETCH_WINDOW = 60"
definition FACTS_TRIM_KEEP_TOP_N :: nat where "FACTS_TRIM_KEEP_TOP_N = 3"

definition role_of :: "string \<Rightarrow> Role" where
  "role_of r = (if r = ''assistant'' then Assistant else if r = ''system'' then System else User)"

definition load_history :: "chat_db \<Rightarrow> string \<Rightarrow> Message list" where
  "load_history db session_id =
     map (\<lambda>m. \<lparr>msg_role = role_of (mr_role m), msg_content = mr_content m\<rparr>)
       (recent_messages db session_id HISTORY_FETCH_WINDOW)"

text \<open>
  \<open>render\<close> is \<open>build_full_system_prompt\<close> as a function of the facts; the threshold is half the budget, which the
  product with 0.5 computes exactly.
\<close>

definition build_trimmed_system_prompt :: "(ustr list \<Rightarrow> ustr) \<Rightarrow> ustr list \<Rightarrow> nat \<Rightarrow> ustr \<times> ustr list" where
  "build_trimmed_system_prompt render facts budget =
     (let full_prompt = render facts; threshold = budget div 2
      in if estimate full_prompt \<le> threshold \<or> length facts \<le> FACTS_TRIM_KEEP_TOP_N then (full_prompt, facts)
         else (let kept = take FACTS_TRIM_KEEP_TOP_N facts in (render kept, kept)))"

definition build_messages :: "(ustr list \<Rightarrow> ustr) \<Rightarrow> ustr list \<Rightarrow> chat_db \<Rightarrow> string \<Rightarrow> ustr \<Rightarrow> u32 \<Rightarrow> Message list" where
  "build_messages render facts db session_id user_message context_window =
     (let token_budget = tb_new context_window;
          (prompt, _) = build_trimmed_system_prompt render facts (prompt_budget token_budget)
      in fit_messages token_budget \<lparr>msg_role = System, msg_content = prompt\<rparr> (load_history db session_id)
           [\<lparr>msg_role = User, msg_content = user_message\<rparr>])"

text \<open>\<open>tool_reference_block\<close>: the tools by name, sorted by the caller's order.\<close>

definition tool_line :: "ustr \<times> ustr \<Rightarrow> ustr" where
  "tool_line t = lit ''- **'' @ fst t @ lit ''**: '' @ snd t"

fun join_with :: "ustr \<Rightarrow> ustr list \<Rightarrow> ustr" where
  "join_with sep [] = []"
| "join_with sep [x] = x"
| "join_with sep (x # y # ys) = x @ sep @ join_with sep (y # ys)"

definition tool_reference_block :: "(ustr \<times> ustr) list \<Rightarrow> ustr" where
  "tool_reference_block tools = join_with [10] (map tool_line (sort_key fst tools))"

section \<open>Facts\<close>

lemma recent_after_insert:
  "0 < n \<Longrightarrow> \<exists>older. recent_messages (insert_message i now sid role content tokens db) sid n = older @
     [\<lparr>mr_id = i, mr_session_id = sid, mr_role = role, mr_content = content, mr_tokens = tokens, mr_created_at = now\<rparr>]"
  by (cases n) (simp_all add: recent_messages_def insert_message_def)

lemma history_after_insert:
  "\<exists>older. load_history (insert_message i now sid ''user'' content tokens db) sid =
     older @ [\<lparr>msg_role = User, msg_content = content\<rparr>]"
proof -
  have "0 < HISTORY_FETCH_WINDOW" by (simp add: HISTORY_FETCH_WINDOW_def)
  then obtain older where "recent_messages (insert_message i now sid ''user'' content tokens db) sid HISTORY_FETCH_WINDOW =
      older @ [\<lparr>mr_id = i, mr_session_id = sid, mr_role = ''user'', mr_content = content, mr_tokens = tokens, mr_created_at = now\<rparr>]"
    using recent_after_insert by blast
  then show ?thesis by (simp add: load_history_def role_of_def)
qed

lemma keep_newest_first:
  "msg_cost m \<le> n \<Longrightarrow> \<exists>kept. keep_newest n (m # ms) = m # kept"
  by simp

text \<open>
  A turn stores the user's message before it builds the messages for the model, so the message is the last of
  the history and is appended once more: where it fits twice, the model gets it twice.
\<close>

lemma user_message_sent_twice:
  assumes "msg_cost \<lparr>msg_role = System, msg_content = fst (build_trimmed_system_prompt render facts
      (prompt_budget (tb_new window)))\<rparr> + 2 * msg_cost \<lparr>msg_role = User, msg_content = content\<rparr> \<le> prompt_budget (tb_new window)"
  shows "\<exists>before. build_messages render facts (insert_message i now sid ''user'' content None db) sid content window =
     before @ [\<lparr>msg_role = User, msg_content = content\<rparr>, \<lparr>msg_role = User, msg_content = content\<rparr>]"
proof -
  obtain prompt kept_facts where p: "build_trimmed_system_prompt render facts (prompt_budget (tb_new window)) = (prompt, kept_facts)"
    by fastforce
  obtain older where h: "load_history (insert_message i now sid ''user'' content None db) sid =
      older @ [\<lparr>msg_role = User, msg_content = content\<rparr>]" using history_after_insert by blast
  have "msg_cost \<lparr>msg_role = User, msg_content = content\<rparr> \<le> prompt_budget (tb_new window) -
      (msg_cost \<lparr>msg_role = System, msg_content = prompt\<rparr> + cost [\<lparr>msg_role = User, msg_content = content\<rparr>])"
    using assms by (simp add: p)
  then show ?thesis
    by (simp add: build_messages_def p h fit_messages_def Let_def)
qed

lemma wi_update_status:
  assumes "\<And>w. wi_id (f w) = wi_id w" and "\<And>w. wi_deleted_at (f w) = wi_deleted_at w"
  shows "wi_get (wi_update i f items) k = (if k = i then map_option f (wi_get items i) else wi_get items k)"
  unfolding wi_get_def wi_update_def using assms by (induction items) auto

end
