(* ===== verification/ToolLoop.thy ===== *)
theory ToolLoop
  imports Conversation ToolDispatch
begin

text \<open>
  The loop of model calls and tool calls that a turn (\<open>agent/turn.rs\<close>) and a sub-turn (\<open>agent/sub_turn.rs\<close>) of
  \<open>crates/haily-core/src\<close> share: the text of a result, the conversation as the model sees it, and a locale for
  what one pass of the loop does to it. The locale shows how many calls a loop makes and what each model call sees.
\<close>

section \<open>Calls and results as text\<close>

definition json_bool :: "bool \<Rightarrow> ustr" where
  "json_bool b = (if b then lit ''true'' else lit ''false'')"

definition result_message :: "(json \<Rightarrow> string) \<Rightarrow> string \<Rightarrow> ustr \<Rightarrow> bool \<Rightarrow> ustr" where
  "result_message show tool safe_result ok =
     lit ''<tool_result>{'' @ [34] @ lit ''tool'' @ [34, 58, 34] @ text_of tool @ [34, 44, 34] @ lit ''result'' @ [34, 58] @
     text_of (show (JStr (string_of safe_result))) @ [44, 34] @ lit ''ok'' @ [34, 58] @ json_bool ok @ lit ''}</tool_result>''"

text \<open>The call in an answer; \<open>from_str\<close> is the JSON parser.\<close>

definition call_in :: "(ustr \<Rightarrow> json option) \<Rightarrow> ustr \<Rightarrow> (string \<times> json) option" where
  "call_in from_str response =
     map_option (\<lambda>(tool, args). (string_of tool, args))
       (parse_tool_call from_str (\<lambda>v. map_option text_of (Option.bind (jget v ''tool'') as_str))
          (\<lambda>v. jget v ''args'') (JObj []) response)"

section \<open>The conversation the model sees\<close>

text \<open>
  The messages of a list of calls: for each call the answer of the model that asks for it, and its result, in
  which no tag of the tool protocol is left.
\<close>

fun transcript :: "(json \<Rightarrow> string) \<Rightarrow> (ustr \<Rightarrow> (string \<times> json) option) \<Rightarrow> (string \<times> json) list \<Rightarrow> Message list \<Rightarrow> bool" where
  "transcript sh parse [] ms \<longleftrightarrow> ms = []"
| "transcript sh parse ((tool, args) # calls) ms \<longleftrightarrow>
     (\<exists>response safe ok rest.
        ms = \<lparr>msg_role = Assistant, msg_content = response\<rparr> #
             \<lparr>msg_role = User, msg_content = result_message sh tool safe ok\<rparr> # rest \<and>
        parse response = Some (tool, args) \<and> tag_free safe \<and> transcript sh parse calls rest)"

lemma transcript_append:
  "transcript sh parse calls ms \<Longrightarrow> transcript sh parse [c] ns \<Longrightarrow> transcript sh parse (calls @ [c]) (ms @ ns)"
  by (induction sh parse calls ms rule: transcript.induct) (cases c; fastforce)+

lemma transcript_length: "transcript sh parse calls ms \<Longrightarrow> length ms = 2 * length calls"
  by (induction sh parse calls ms rule: transcript.induct) auto

text \<open>The system prompt, a suffix of the history, the user's message, and the calls made so far.\<close>

definition conversation :: "(json \<Rightarrow> string) \<Rightarrow> (ustr \<Rightarrow> (string \<times> json) option) \<Rightarrow> Message \<Rightarrow> Message list \<Rightarrow> Message
    \<Rightarrow> (string \<times> json) list \<Rightarrow> Message list \<Rightarrow> Message list \<Rightarrow> bool" where
  "conversation sh parse sys history user calls rounds ms \<longleftrightarrow>
     transcript sh parse calls rounds \<and> (\<exists>kept. suffix kept history \<and> ms = sys # kept @ user # rounds)"

lemma refit_conversation:
  assumes "conversation sh parse sys history user calls rounds ms" and "pinned = Suc (length rounds)"
  shows "conversation sh parse sys history user calls rounds (refit b ms pinned)"
proof -
  obtain kept where kept: "suffix kept history" "ms = sys # kept @ user # rounds" "transcript sh parse calls rounds"
    using assms(1) by (auto simp: conversation_def)
  obtain n where r: "refit b ms pinned = sys # rev (keep_newest n (rev kept)) @ user # rounds"
    using kept(2) assms(2) by (simp add: refit_def fit_messages_def Let_def)
  obtain k where "keep_newest n (rev kept) = take k (rev kept)" using keep_newest_take by blast
  then have "suffix (rev (keep_newest n (rev kept))) kept" by (simp add: rev_take suffix_drop)
  then show ?thesis using kept r by (auto simp: conversation_def intro: suffix_order.trans)
qed

lemma lg_check_room:
  "lg_check g tool args = Inr g' \<Longrightarrow> lg_limit g' = lg_limit g \<and> unat (lg_count g') = Suc (unat (lg_count g)) \<and>
     unat (lg_count g) < unat (lg_limit g)"
proof -
  assume g: "lg_check g tool args = Inr g'"
  then have less: "lg_count g < lg_limit g" and g': "lg_limit g' = lg_limit g" "lg_count g' = lg_count g + 1"
    by (auto simp: lg_check_def not_le split: if_splits)
  have "1 + lg_count g \<noteq> 0"
  proof
    assume "1 + lg_count g = 0"
    then have "lg_count g = - 1" by (simp add: eq_neg_iff_add_eq_0 add.commute)
    then show False using less word_order.extremum_strict by auto
  qed
  from unatSuc [OF this] show ?thesis using less g' by (simp add: word_less_nat_alt add.commute)
qed

text \<open>How many more calls the guard can let pass.\<close>

definition guard_room :: "LoopGuard \<Rightarrow> nat" where
  "guard_room g = unat (lg_limit g) - unat (lg_count g)"

lemma lg_check_less: "lg_check g tool args = Inr g' \<Longrightarrow> guard_room g' < guard_room g"
  using lg_check_room by (fastforce simp: guard_room_def)

lemma lg_check_last:
  "lg_check g tool args = Inr g' \<Longrightarrow> lg_last g' = Some (tool, args) \<and> lg_last g \<noteq> Some (tool, args)"
  by (auto simp: lg_check_def split: if_splits)

definition known_call :: "(json \<Rightarrow> string) \<Rightarrow> string \<times> json \<Rightarrow> string \<times> string" where
  "known_call sh c = (fst c, sh (snd c))"

section \<open>The loop\<close>

text \<open>
  At the end of a loop: at most \<open>limit\<close> tool calls, never the same twice in a row, one model call more, and the
  \<open>n\<close>th model call saw the first \<open>n\<close> tool calls.
\<close>

definition loop_done :: "(json \<Rightarrow> string) \<Rightarrow> (ustr \<Rightarrow> (string \<times> json) option) \<Rightarrow> u32 \<Rightarrow> Message \<Rightarrow> Message list \<Rightarrow> Message
    \<Rightarrow> Message list \<Rightarrow> (string \<times> json) list \<Rightarrow> Message list list \<Rightarrow> bool" where
  "loop_done sh parse limit sys history user rounds calls prompts \<longleftrightarrow>
     length calls \<le> unat limit \<and> length prompts = Suc (length calls) \<and> distinct_adj (map (known_call sh) calls) \<and>
     (\<forall>n \<le> length calls. conversation sh parse sys history user (take n calls) (take (2 * n) rounds) (prompts ! n))"

text \<open>Between two passes: the guard counts the tool calls and knows the last one.\<close>

definition loop_inv :: "(json \<Rightarrow> string) \<Rightarrow> (ustr \<Rightarrow> (string \<times> json) option) \<Rightarrow> u32 \<Rightarrow> Message \<Rightarrow> Message list \<Rightarrow> Message
    \<Rightarrow> Message list \<Rightarrow> (string \<times> json) list \<Rightarrow> Message list list \<Rightarrow> Message list \<Rightarrow> nat \<Rightarrow> LoopGuard \<Rightarrow> bool" where
  "loop_inv sh parse limit sys history user rounds calls prompts ms pin g \<longleftrightarrow>
     conversation sh parse sys history user calls rounds ms \<and> pin = Suc (length rounds) \<and>
     unat (lg_count g) = length calls \<and> lg_limit g = limit \<and> length calls \<le> unat limit \<and>
     lg_last g = (if calls = [] then None else Some (last (map (known_call sh) calls))) \<and>
     distinct_adj (map (known_call sh) calls) \<and> length prompts = length calls \<and>
     (\<forall>n < length calls. conversation sh parse sys history user (take n calls) (take (2 * n) rounds) (prompts ! n))"

locale tool_loop =
  fixes pass :: "'s \<Rightarrow> ('r \<times> 's) + 's"
    and run :: "'s \<Rightarrow> 'r \<times> 's"
    and messages :: "'s \<Rightarrow> Message list"
    and pinned :: "'s \<Rightarrow> nat"
    and guard :: "'s \<Rightarrow> LoopGuard"
    and calls :: "'s \<Rightarrow> (string \<times> json) list"
    and prompts :: "'s \<Rightarrow> Message list list"
    and budget :: TokenBudget
    and sh :: "json \<Rightarrow> string"
    and parse :: "ustr \<Rightarrow> (string \<times> json) option"
  assumes run_unfold: "run s = (case pass s of Inl r \<Rightarrow> r | Inr s' \<Rightarrow> run s')"
    and pass_stops: "pass s = Inl (r, s') \<Longrightarrow> calls s' = calls s \<and> prompts s' = prompts s @ [refit budget (messages s) (pinned s)]"
    and pass_goes: "pass s = Inr s' \<Longrightarrow> \<exists>tool args ms. transcript sh parse [(tool, args)] ms \<and>
      messages s' = refit budget (messages s) (pinned s) @ ms \<and> pinned s' = pinned s + 2 \<and>
      calls s' = calls s @ [(tool, args)] \<and> prompts s' = prompts s @ [refit budget (messages s) (pinned s)] \<and>
      lg_check (guard s) tool (sh args) = Inr (guard s')"
begin

abbreviation inv :: "u32 \<Rightarrow> Message \<Rightarrow> Message list \<Rightarrow> Message \<Rightarrow> Message list \<Rightarrow> 's \<Rightarrow> bool" where
  "inv limit sys history user rounds s \<equiv>
     loop_inv sh parse limit sys history user rounds (calls s) (prompts s) (messages s) (pinned s) (guard s)"

lemma prompts_keep:
  assumes "inv limit sys history user rounds s" and "n \<le> length (calls s)"
  shows "conversation sh parse sys history user (take n (calls s)) (take (2 * n) rounds)
           ((prompts s @ [refit budget (messages s) (pinned s)]) ! n)"
proof -
  have now: "conversation sh parse sys history user (calls s) rounds (refit budget (messages s) (pinned s))"
    using assms(1) by (intro refit_conversation) (auto simp: loop_inv_def)
  then have "length rounds = 2 * length (calls s)" by (auto simp: conversation_def dest: transcript_length)
  then show ?thesis
    using assms now by (cases "n = length (calls s)") (auto simp: loop_inv_def nth_append)
qed

lemma inv_pass:
  assumes "inv limit sys history user rounds s" and "pass s = Inr s'"
  shows "\<exists>ms. inv limit sys history user (rounds @ ms) s'"
proof -
  obtain tool args ms where ms: "transcript sh parse [(tool, args)] ms"
      "messages s' = refit budget (messages s) (pinned s) @ ms" "pinned s' = pinned s + 2"
      "calls s' = calls s @ [(tool, args)]" "prompts s' = prompts s @ [refit budget (messages s) (pinned s)]"
    and g: "lg_check (guard s) tool (sh args) = Inr (guard s')"
    using pass_goes [OF assms(2)] by blast
  have conv: "conversation sh parse sys history user (calls s) rounds (refit budget (messages s) (pinned s))"
    using assms(1) by (intro refit_conversation) (auto simp: loop_inv_def)
  then have len: "length rounds = 2 * length (calls s)" "length ms = 2"
    using transcript_length [OF ms(1)] by (auto simp: conversation_def dest: transcript_length)
  have conv': "conversation sh parse sys history user (calls s') (rounds @ ms) (messages s')"
    using conv ms transcript_append [OF _ ms(1)] by (auto simp: conversation_def)
  have last: "lg_last (guard s') = Some (tool, sh args)" "lg_last (guard s) \<noteq> Some (tool, sh args)"
    using lg_check_last [OF g] by simp_all
  have adj: "distinct_adj (map (known_call sh) (calls s @ [(tool, args)]))"
    using assms(1) last(2) by (auto simp: loop_inv_def distinct_adj_append_iff known_call_def)
  have old: "conversation sh parse sys history user (take n (calls s')) (take (2 * n) (rounds @ ms)) (prompts s' ! n)"
    if "n < length (calls s')" for n
    using prompts_keep [OF assms(1), of n] that len ms(4,5) by simp
  show ?thesis
    using assms(1) conv' adj old last(1) lg_check_room [OF g] ms len
    by (intro exI [of _ ms]) (simp add: loop_inv_def known_call_def)
qed

lemma run_done:
  "inv limit sys history user rounds s \<Longrightarrow>
     \<exists>rounds'. loop_done sh parse limit sys history user rounds' (calls (snd (run s))) (prompts (snd (run s)))"
proof (induction "guard_room (guard s)" arbitrary: s rounds rule: less_induct)
  case less
  show ?case
  proof (cases "pass s")
    case (Inl x)
    then obtain r s' where x: "pass s = Inl (r, s')" by (cases x) auto
    have "loop_done sh parse limit sys history user rounds (calls s') (prompts s')"
      using pass_stops [OF x] less.prems prompts_keep [OF less.prems] by (simp add: loop_done_def loop_inv_def)
    then show ?thesis using x by (auto simp: run_unfold [of s])
  next
    case (Inr s')
    have "guard_room (guard s') < guard_room (guard s)" using pass_goes [OF Inr] lg_check_less by blast
    from less.hyps [OF this] inv_pass [OF less.prems Inr] Inr show ?thesis by (auto simp: run_unfold [of s])
  qed
qed

end

section \<open>A sample answer\<close>

text \<open>A word and a tool call, and a parser that knows the body of the call.\<close>

definition sample_answer :: ustr where
  "sample_answer = lit ''a<tool_call>1</tool_call>''"

definition sample_from_str :: "ustr \<Rightarrow> json option" where
  "sample_from_str s = (if s = lit ''1'' then Some (JObj [(''tool'', JStr ''now'')]) else None)"

lemmas tag_eval = strip_tool_markup_def strip_markup_loop.simps find_next_open_tag.simps find_next_close_tag.simps
  find_next_tag.simps try_match_tag_at_def match_rest_def Let_def after_ws_def skip_ws_def starts_with_def TAG_NAMES_def
  eq_ignore_ascii_case_def to_ascii_lowercase_def is_ascii_whitespace_def LT_def GT_def SLASH_def
  text_slice_def trim_def is_whitespace_def

lemma sample_markup: "strip_tool_markup sample_answer = [97]"
  by (simp add: sample_answer_def tag_eval)

lemma sample_name: "string_of (text_of ''now'') = ''now''" by code_simp

lemma sample_parse: "call_in sample_from_str sample_answer = Some (''now'', JObj [])"
  by (simp add: call_in_def parse_tool_call_def sample_from_str_def sample_answer_def tag_eval sample_name)

end
