(* ===== verification/AgentTurn.thy ===== *)
theory AgentTurn
  imports ToolLoop TurnRouting
begin

text \<open>
  A whole turn of the agent (\<open>run_turn\<close> of \<open>crates/haily-core/src/agent/turn.rs\<close>): the session and its
  messages, the loop of model calls and tool calls, the work item, and what the user is shown. It composes
  the budget (\<open>TokenBudget\<close>), the rescue of a failed stream (\<open>LlmRouting\<close>), the streaming hold-back
  (\<open>TextStream\<close>), the parser and the sanitiser (\<open>ToolTags\<close>), and the loop guard and the dispatch gate
  (\<open>ToolDispatch\<close>). The answers of the model, of the tools, of the user and of the database are functions of
  the number of the model call.
\<close>

section \<open>State\<close>

datatype turn_error = StreamInit llm_error | StreamFailed string | SessionFailed

text \<open>What the turn sends to the user, and what it asks of the model and of the dispatch gate.\<close>

datatype turn_event =
    ModelCall "Message list" "Tier option"
  | Shown ustr
  | Dispatched string json "dispatch_effect list"
  | Meta "Tier option"
  | Completed

record turn_env =
  tv_llm :: LlmRouter
  tv_policy :: EscalationPolicy
  tv_egress :: Egress
  tv_budget :: TokenBudget
  tv_answers :: "nat \<Rightarrow> stream answers"
  tv_retry_answers :: "nat \<Rightarrow> stream answers"
  tv_cancelled :: "nat \<Rightarrow> bool"
  tv_cancel_at :: "nat \<Rightarrow> nat \<Rightarrow> bool"
  tv_from_str :: "ustr \<Rightarrow> json option"
  tv_show :: "json \<Rightarrow> string"
  tv_registry :: registry
  tv_gate :: Broker
  tv_call :: "nat \<Rightarrow> call_env"
  tv_result_text :: "dispatch_error + dispatch_text \<times> bool \<Rightarrow> ustr"
  tv_items_during :: "nat \<Rightarrow> work_items \<Rightarrow> work_items"
  tv_new_item :: "nat \<Rightarrow> string option"
  tv_now :: string
  tv_session_id :: string
  tv_message :: ustr

record turn_state =
  ts_messages :: "Message list"
  ts_tier :: "Tier option"
  ts_guard :: LoopGuard
  ts_log :: "(string \<times> json \<times> bool) list"
  ts_work_item :: "string option"
  ts_items :: work_items
  ts_pinned :: nat
  ts_ctx :: ToolCtx
  ts_calls :: nat
  ts_events :: "turn_event list"

text \<open>How the loop ends: the text and whether it has been streamed, or an error.\<close>

type_synonym loop_result = "turn_error + ustr \<times> bool"

section \<open>The loop\<close>

definition LOOP_FALLBACK :: ustr where
  "LOOP_FALLBACK =
    [84, 244, 105, 32, 103, 7863, 112, 32, 118, 242, 110, 103, 32, 108, 7863, 112, 32, 107, 104, 105, 32,
     120, 7917, 32, 108, 253, 32, 121, 234, 117, 32, 99, 7847, 117, 32, 110, 224, 121, 46, 32, 66, 7841,
     110, 32, 116, 104, 7917, 32, 100, 105, 7877, 110, 32, 273, 7841, 116, 32, 108, 7841, 105, 32, 103,
     105, 250, 112, 32, 109, 236, 110, 104, 32, 110, 104, 233, 46]"

text \<open>The work item is created at the first tool call, if the insert succeeds.\<close>

definition ensure_work_item :: "turn_env \<Rightarrow> turn_state \<Rightarrow> string option \<times> work_items" where
  "ensure_work_item env st =
     (case ts_work_item st of
        Some i \<Rightarrow> (Some i, ts_items st)
      | None \<Rightarrow>
          (case tv_new_item env (ts_calls st) of
             None \<Rightarrow> (None, ts_items st)
           | Some i \<Rightarrow>
               (let (w, items) = wi_create i (tv_now env) (tv_session_id env) (tv_message env) (ts_items st)
                in (Some (wi_id w), wi_start (tv_now env) (wi_id w) items))))"

definition checkpoint_text :: "(json \<Rightarrow> string) \<Rightarrow> nat \<Rightarrow> string \<Rightarrow> ustr" where
  "checkpoint_text show index tool =
     text_of (show (JObj [(''last_tool'', JStr tool), (''tool_index'', JNum (int index))]))"

definition save_progress :: "turn_env \<Rightarrow> string option \<Rightarrow> nat \<Rightarrow> string \<Rightarrow> work_items \<Rightarrow> work_items" where
  "save_progress env item index tool items =
     (case item of
        None \<Rightarrow> items
      | Some i \<Rightarrow>
          wi_save_checkpoint (tv_now env) i (Some (text_of tool)) (int (min ((index + 1) * 10) 90))
            (checkpoint_text (tv_show env) index tool) items)"

text \<open>One tool call: the guard has let it pass.\<close>

definition run_call :: "turn_env \<Rightarrow> turn_state \<Rightarrow> LoopGuard \<Rightarrow> ustr \<Rightarrow> string \<Rightarrow> json \<Rightarrow> turn_state" where
  "run_call env st guard response tool args =
     (let k = ts_calls st;
          (item, items) = ensure_work_item env st;
          (outcome, ctx, effs) = dispatch (tv_registry env) (tv_gate env) (ts_ctx st) (tv_call env k) tool args;
          ok = (case outcome of Inl _ \<Rightarrow> False | Inr (_, ok) \<Rightarrow> ok);
          safe_result = strip_tool_tags (tv_result_text env outcome);
          index = length (ts_log st)
      in st\<lparr>ts_messages := ts_messages st @
              [\<lparr>msg_role = Assistant, msg_content = response\<rparr>,
               \<lparr>msg_role = User, msg_content = result_message (tv_show env) tool safe_result ok\<rparr>],
            ts_guard := guard,
            ts_log := ts_log st @ [(tool, args, ok)],
            ts_work_item := item,
            ts_items := save_progress env item index tool (tv_items_during env k items),
            ts_pinned := ts_pinned st + 2,
            ts_ctx := ctx,
            ts_calls := Suc k,
            ts_events := ts_events st @ [Dispatched tool args effs]\<rparr>)"

text \<open>One pass of the loop: it ends the turn (\<open>Inl\<close>) or goes on.\<close>

definition turn_step :: "turn_env \<Rightarrow> turn_state \<Rightarrow> loop_result \<times> turn_state + turn_state" where
  "turn_step env st =
     (let k = ts_calls st;
          messages = refit (tv_budget env) (ts_messages st) (ts_pinned st);
          (reply, tier, used) = open_stream_with_escalation (tv_answers env k) (tv_retry_answers env k) (tv_llm env)
                                  (ts_tier st) (tv_policy env) (tv_egress env) (tv_cancelled env k);
          st1 = st\<lparr>ts_messages := messages, ts_tier := tier, ts_events := ts_events st @ [ModelCall messages tier]\<rparr>
      in case reply of
           Inl e \<Rightarrow> Inl (Inl (StreamInit e), st1)
         | Inr chunks \<Rightarrow>
             (let (outcome, shown) = stream_llm_response (tv_cancel_at env k) chunks;
                  st2 = st1\<lparr>ts_events := ts_events st1 @ map Shown shown\<rparr>
              in case outcome of
                   Inl msg \<Rightarrow> Inl (Inl (StreamFailed msg), st2)
                 | Inr (response, total_tokens, prompt_tokens) \<Rightarrow>
                     (case call_in (tv_from_str env) response of
                        None \<Rightarrow> Inl (Inr (strip_tool_markup response, True), st2)
                      | Some (tool, args) \<Rightarrow>
                          (case lg_check (ts_guard st) tool (tv_show env args) of
                             Inl _ \<Rightarrow>
                               (let t = strip_tool_markup response
                                in Inl (Inr (if t = [] then LOOP_FALLBACK else t, False),
                                        st2\<lparr>ts_messages := messages @ [\<lparr>msg_role = Assistant, msg_content = response\<rparr>]\<rparr>))
                           | Inr guard \<Rightarrow> Inr (run_call env st2 guard response tool args)))))"

section \<open>The whole turn\<close>

lemma run_call_guard [simp]: "ts_guard (run_call env st guard response tool args) = guard"
  by (simp add: run_call_def Let_def split: prod.split)

lemma turn_step_room: "turn_step env st = Inr st' \<Longrightarrow> guard_room (ts_guard st') < guard_room (ts_guard st)"
  by (auto simp: turn_step_def Let_def split: prod.splits sum.splits option.splits dest!: lg_check_less)

function turn_loop :: "turn_env \<Rightarrow> turn_state \<Rightarrow> loop_result \<times> turn_state" where
  "turn_loop env st =
     (case turn_step env st of Inl r \<Rightarrow> r | Inr st' \<Rightarrow> turn_loop env st')"
  by pat_completeness auto

termination
  by (relation "measure (\<lambda>(env, st). guard_room (ts_guard st))") (auto intro: turn_step_room)

declare turn_loop.simps [simp del]

record turn_request =
  tq_adapter_id :: string
  tq_user_ref :: "string option"
  tq_render :: "ustr list \<Rightarrow> ustr"
  tq_facts :: "ustr list option"
  tq_context_window :: u32
  tq_low :: "ustr \<Rightarrow> ustr"
  tq_depth :: DepthMode
  tq_routing_active :: bool
  tq_ids :: "string \<times> string"
  tq_show_error :: "turn_error \<Rightarrow> ustr"

text \<open>The session is created under the request's id, or touched.\<close>

definition open_session :: "turn_env \<Rightarrow> turn_request \<Rightarrow> chat_db \<Rightarrow> chat_db option" where
  "open_session env q db =
     (case get_session db (tv_session_id env) of
        None \<Rightarrow> map_option snd (create_session (tv_now env) (tv_session_id env) (tq_adapter_id q) (tq_user_ref q) db)
      | Some _ \<Rightarrow> Some (touch_session (tv_now env) (tv_session_id env) db))"

text \<open>The tier is decided once, from the user's message and the messages that fit.\<close>

definition turn_decision :: "turn_env \<Rightarrow> turn_request \<Rightarrow> Message list \<Rightarrow> TierDecision" where
  "turn_decision env q messages =
     (if tq_routing_active q
      then select_tier (tq_low q) (tv_message env)
             \<lparr>rc_depth = effective_depth (tq_low q) (tq_depth q) (tv_message env),
              rc_history_user_msgs = length (filter (\<lambda>m. msg_role m = User) messages) - 1,
              rc_remote_origin = is_remote_adapter (tq_adapter_id q)\<rparr>
             (lr_cost_quality (tv_llm env))
      else default_decision)"

text \<open>The user's message and the messages for the model. Without the facts' context the turn fails.\<close>

definition start_turn :: "turn_env \<Rightarrow> turn_request \<Rightarrow> chat_db \<Rightarrow> work_items \<Rightarrow> chat_db \<times> turn_state option" where
  "start_turn env q db items =
     (case open_session env q db of
        None \<Rightarrow> (db, None)
      | Some db1 \<Rightarrow>
          (let db2 = insert_message (fst (tq_ids q)) (tv_now env) (tv_session_id env) ''user'' (tv_message env) None db1
           in case tq_facts q of
                None \<Rightarrow> (db2, None)
              | Some facts \<Rightarrow>
                  (let messages = build_messages (tq_render q) facts db2 (tv_session_id env) (tv_message env) (tq_context_window q)
                   in (db2,
                   Some \<lparr>ts_messages = messages, ts_tier = td_tier (turn_decision env q messages), ts_guard = lg_new, ts_log = [],
                         ts_work_item = None, ts_items = items, ts_pinned = 1,
                         ts_ctx = \<lparr>tc_turn_deletes = 0, tc_last_journal_id = None, tc_depth = 0, tc_domain = None\<rparr>,
                         ts_calls = 0, ts_events = []\<rparr>))))"

definition finalize_item :: "turn_env \<Rightarrow> turn_request \<Rightarrow> loop_result \<Rightarrow> turn_state \<Rightarrow> work_items" where
  "finalize_item env q r st =
     (case ts_work_item st of
        None \<Rightarrow> ts_items st
      | Some i \<Rightarrow>
          (case r of
             Inl e \<Rightarrow> wi_fail (tv_now env) i (tq_show_error q e) (ts_items st)
           | Inr _ \<Rightarrow>
               if list_ex (\<lambda>(tool, args, ok). \<not> ok) (ts_log st)
               then wi_fail (tv_now env) i (lit ''One or more tool calls failed'') (ts_items st)
               else wi_complete (tv_now env) i (ts_items st)))"

text \<open>What follows the loop: the answer is stored, sent if it was not streamed, and the turn closed.\<close>

definition estimate_tokens :: "ustr \<Rightarrow> int" where
  "estimate_tokens s = int (length (utf8 s) div 4)"

definition answer_events :: "turn_request \<Rightarrow> Tier option \<Rightarrow> ustr \<Rightarrow> bool \<Rightarrow> turn_event list" where
  "answer_events q tier answer streamed =
     (if \<not> streamed \<and> answer \<noteq> [] then [Shown answer] else []) @
     (if tq_routing_active q then [Meta tier] else []) @ [Completed]"

definition finish_turn :: "turn_env \<Rightarrow> turn_request \<Rightarrow> chat_db \<Rightarrow> loop_result \<times> turn_state
    \<Rightarrow> (turn_error + ustr) \<times> chat_db \<times> turn_state" where
  "finish_turn env q db loop =
     (case loop of
        (r, st) \<Rightarrow>
          (let st1 = st\<lparr>ts_items := finalize_item env q r st\<rparr>
           in case r of
                Inl e \<Rightarrow> (Inl e, db, st1)
              | Inr (answer, streamed) \<Rightarrow>
                  (Inr answer,
                   insert_message (snd (tq_ids q)) (tv_now env) (tv_session_id env) ''assistant'' answer
                     (Some (estimate_tokens answer)) db,
                   st1\<lparr>ts_events := ts_events st1 @ answer_events q (ts_tier st1) answer streamed\<rparr>)))"

definition run_turn :: "turn_env \<Rightarrow> turn_request \<Rightarrow> chat_db \<Rightarrow> work_items
    \<Rightarrow> (turn_error + ustr) \<times> chat_db \<times> turn_state option" where
  "run_turn env q db items =
     (case start_turn env q db items of
        (db', None) \<Rightarrow> (Inl SessionFailed, db', None)
      | (db', Some st) \<Rightarrow>
          (let (r, db'', st') = finish_turn env q db' (turn_loop env st) in (r, db'', Some st')))"

section \<open>The loop invariant\<close>

definition model_calls :: "turn_event list \<Rightarrow> Message list list" where
  "model_calls evs = List.map_filter (\<lambda>e. case e of ModelCall ms t \<Rightarrow> Some ms | _ \<Rightarrow> None) evs"

definition tool_calls :: "turn_event list \<Rightarrow> (string \<times> json) list" where
  "tool_calls evs = List.map_filter (\<lambda>e. case e of Dispatched tool args effs \<Rightarrow> Some (tool, args) | _ \<Rightarrow> None) evs"

lemma map_filter_append [simp]: "List.map_filter f (xs @ ys) = List.map_filter f xs @ List.map_filter f ys"
  by (simp add: List.map_filter_def)

lemma calls_append [simp]:
  "model_calls [] = []" "tool_calls [] = []"
  "model_calls (es @ fs) = model_calls es @ model_calls fs" "tool_calls (es @ fs) = tool_calls es @ tool_calls fs"
  "model_calls (ModelCall ms t # es) = ms # model_calls es" "tool_calls (ModelCall ms t # es) = tool_calls es"
  "model_calls (Dispatched tool args effs # es) = model_calls es" "tool_calls (Dispatched tool args effs # es) = (tool, args) # tool_calls es"
  "model_calls (Shown x # es) = model_calls es" "tool_calls (Shown x # es) = tool_calls es"
  "model_calls (Meta m # es) = model_calls es" "tool_calls (Meta m # es) = tool_calls es"
  "model_calls (Completed # es) = model_calls es" "tool_calls (Completed # es) = tool_calls es"
  "model_calls (map Shown ts) = []" "tool_calls (map Shown ts) = []"
  by (simp_all add: model_calls_def tool_calls_def List.map_filter_simps) (induction ts; simp add: List.map_filter_simps)+

lemma run_call_fields:
  fixes env st guard response tool args
  defines "st' \<equiv> run_call env st guard response tool args"
  shows "ts_guard st' = guard" "ts_calls st' = Suc (ts_calls st)" "ts_pinned st' = ts_pinned st + 2"
    "\<exists>ok. ts_log st' = ts_log st @ [(tool, args, ok)]"
    "\<exists>effs. ts_events st' = ts_events st @ [Dispatched tool args effs]"
    "call_in (tv_from_str env) response = Some (tool, args) \<Longrightarrow>
       \<exists>ms. ts_messages st' = ts_messages st @ ms \<and> transcript (tv_show env) (call_in (tv_from_str env)) [(tool, args)] ms"
proof -
  obtain item items where i: "ensure_work_item env st = (item, items)" by fastforce
  obtain outcome ctx effs where d: "dispatch (tv_registry env) (tv_gate env) (ts_ctx st) (tv_call env (ts_calls st)) tool args = (outcome, ctx, effs)"
    by (metis prod.exhaust)
  note st'_def = st'_def [unfolded run_call_def Let_def i d prod.case]
  show "ts_guard st' = guard" "ts_calls st' = Suc (ts_calls st)" "ts_pinned st' = ts_pinned st + 2"
    "\<exists>ok. ts_log st' = ts_log st @ [(tool, args, ok)]"
    "\<exists>effs. ts_events st' = ts_events st @ [Dispatched tool args effs]"
    by (simp_all add: st'_def)
  show "\<exists>ms. ts_messages st' = ts_messages st @ ms \<and> transcript (tv_show env) (call_in (tv_from_str env)) [(tool, args)] ms"
    if "call_in (tv_from_str env) response = Some (tool, args)"
    using strip_tool_tags_free that by (auto simp: st'_def)
qed

lemma unat_MAX_TOOL_CALLS: "unat MAX_TOOL_CALLS = 10"
  by (simp add: MAX_TOOL_CALLS_def)

text \<open>One pass: it makes one model call, over the conversation so far, and at most one tool call, which the guard has let pass.\<close>

lemma turn_step_cases:
  fixes env st
  defines "messages \<equiv> refit (tv_budget env) (ts_messages st) (ts_pinned st)"
  obtains
    (stop) r st' t shown where "turn_step env st = Inl (r, st')" "ts_log st' = ts_log st"
      "ts_events st' = ts_events st @ ModelCall messages t # map Shown shown"
      "ts_work_item st' = ts_work_item st" "ts_items st' = ts_items st" "ts_guard st' = ts_guard st"
  | (go) st1 guard response tool args t shown where
      "turn_step env st = Inr (run_call env st1 guard response tool args)"
      "call_in (tv_from_str env) response = Some (tool, args)"
      "lg_check (ts_guard st) tool (tv_show env args) = Inr guard" "ts_log st1 = ts_log st"
      "ts_events st1 = ts_events st @ ModelCall messages t # map Shown shown" "ts_messages st1 = messages"
      "ts_pinned st1 = ts_pinned st" "ts_calls st1 = ts_calls st"
      "ts_work_item st1 = ts_work_item st" "ts_items st1 = ts_items st"
proof -
  obtain reply tier used where o': "open_stream_with_escalation (tv_answers env (ts_calls st)) (tv_retry_answers env (ts_calls st))
      (tv_llm env) (ts_tier st) (tv_policy env) (tv_egress env) (tv_cancelled env (ts_calls st)) = (reply, tier, used)"
    by (metis prod.exhaust)
  note step = turn_step_def [of env st, unfolded Let_def o' prod.case, folded messages_def]
  show thesis
  proof (cases reply)
    case (Inl e)
    then show thesis using stop [where shown = "[]"] by (simp add: step)
  next
    case (Inr chunks)
    obtain outcome shown where s: "stream_llm_response (tv_cancel_at env (ts_calls st)) chunks = (outcome, shown)" by fastforce
    show thesis
    proof (cases outcome)
      case (Inl e)
      then show thesis using Inr s stop by (simp add: step)
    next
      case r: (Inr x)
      obtain response total prompt where x: "x = (response, total, prompt)" by (metis prod.exhaust)
      show thesis
      proof (cases "call_in (tv_from_str env) response")
        case None
        then show thesis using Inr s r x stop by (simp add: step)
      next
        case (Some c)
        obtain tool args where c: "c = (tool, args)" by fastforce
        show thesis
        proof (cases "lg_check (ts_guard st) tool (tv_show env args)")
          case (Inl e)
          then show thesis using Inr s r x Some c stop by (simp add: step Let_def)
        next
          case g: (Inr guard)
          let ?st1 = "st\<lparr>ts_messages := messages, ts_tier := tier, ts_events := ts_events st @ ModelCall messages tier # map Shown shown\<rparr>"
          have "turn_step env st = Inr (run_call env ?st1 guard response tool args)"
            using Inr s r x Some c g by (simp add: step)
          then show thesis
            by (rule go) (use g Some c in simp_all)
        qed
      qed
    qed
  qed
qed

text \<open>The loop of a turn is a tool loop.\<close>

lemma turn_step_stops:
  "turn_step env st = Inl (r, st') \<Longrightarrow> tool_calls (ts_events st') = tool_calls (ts_events st) \<and>
     model_calls (ts_events st') = model_calls (ts_events st) @ [refit (tv_budget env) (ts_messages st) (ts_pinned st)]"
  by (cases env st rule: turn_step_cases) auto

lemma turn_step_goes:
  assumes "turn_step env st = Inr st'"
  shows "\<exists>tool args ms. transcript (tv_show env) (call_in (tv_from_str env)) [(tool, args)] ms \<and>
    ts_messages st' = refit (tv_budget env) (ts_messages st) (ts_pinned st) @ ms \<and> ts_pinned st' = ts_pinned st + 2 \<and>
    tool_calls (ts_events st') = tool_calls (ts_events st) @ [(tool, args)] \<and>
    model_calls (ts_events st') = model_calls (ts_events st) @ [refit (tv_budget env) (ts_messages st) (ts_pinned st)] \<and>
    lg_check (ts_guard st) tool (tv_show env args) = Inr (ts_guard st')"
proof (cases env st rule: turn_step_cases)
  case (go st1 guard response tool args t shown)
  note call = run_call_fields [where env = env and st = st1 and guard = guard and response = response and tool = tool and args = args]
  have st': "st' = run_call env st1 guard response tool args" using go(1) assms by simp
  obtain effs where "ts_events st' = ts_events st @ ModelCall (refit (tv_budget env) (ts_messages st) (ts_pinned st)) t
      # map Shown shown @ [Dispatched tool args effs]"
    using call(5) go by (auto simp: st')
  moreover obtain ms where "transcript (tv_show env) (call_in (tv_from_str env)) [(tool, args)] ms"
      "ts_messages st' = refit (tv_budget env) (ts_messages st) (ts_pinned st) @ ms"
    using call(6) [OF go(2)] unfolding st' go(6) by blast
  ultimately show ?thesis using go call(1,3) by (intro exI [of _ tool] exI [of _ args] exI [of _ ms]) (simp add: st')
qed (use assms in simp)

interpretation turn: tool_loop "turn_step env" "turn_loop env" ts_messages ts_pinned ts_guard "\<lambda>st. tool_calls (ts_events st)"
    "\<lambda>st. model_calls (ts_events st)" "tv_budget env" "tv_show env" "call_in (tv_from_str env)" for env
  by unfold_locales (rule turn_loop.simps, erule turn_step_stops, erule turn_step_goes)

text \<open>What the loop does not send, and when a work item exists.\<close>

lemma turn_step_quiet:
  "turn_step env st = Inl (r, st') \<Longrightarrow> set (ts_events st') \<inter> {Completed} \<subseteq> set (ts_events st)"
  "turn_step env st = Inr st' \<Longrightarrow> set (ts_events st') \<inter> {Completed} \<subseteq> set (ts_events st)"
proof -
  show "turn_step env st = Inl (r, st') \<Longrightarrow> set (ts_events st') \<inter> {Completed} \<subseteq> set (ts_events st)"
    by (cases env st rule: turn_step_cases) auto
  show "set (ts_events st') \<inter> {Completed} \<subseteq> set (ts_events st)" if "turn_step env st = Inr st'"
  proof (cases env st rule: turn_step_cases)
    case (go st1 guard response tool args t shown)
    then show ?thesis
      using that run_call_fields(5) [where env = env and st = st1 and guard = guard and response = response and tool = tool and args = args]
      by auto
  qed (use that in simp)
qed

lemma turn_loop_quiet: "Completed \<notin> set (ts_events st) \<Longrightarrow> Completed \<notin> set (ts_events (snd (turn_loop env st)))"
proof (induction env st rule: turn_loop.induct)
  case (1 env st)
  show ?case
  proof (cases "turn_step env st")
    case (Inl x)
    then show ?thesis using "1.prems" turn_step_quiet(1) by (cases x) (force simp: turn_loop.simps [of env st])
  next
    case (Inr st')
    then show ?thesis using "1.IH" [OF Inr] "1.prems" turn_step_quiet(2) [OF Inr] by (auto simp: turn_loop.simps [of env st])
  qed
qed

section \<open>The start and the end of a turn\<close>

lemma load_history_messages: "cd_messages db = cd_messages db' \<Longrightarrow> load_history db sid = load_history db' sid"
  by (simp add: load_history_def recent_messages_def)

definition turn_history :: "turn_env \<Rightarrow> turn_request \<Rightarrow> chat_db \<Rightarrow> Message list" where
  "turn_history env q db =
     load_history (insert_message (fst (tq_ids q)) (tv_now env) (tv_session_id env) ''user'' (tv_message env) None db)
       (tv_session_id env)"

definition turn_prompt :: "turn_request \<Rightarrow> Message" where
  "turn_prompt q =
     \<lparr>msg_role = System,
      msg_content = fst (build_trimmed_system_prompt (tq_render q) (the (tq_facts q)) (prompt_budget (tb_new (tq_context_window q))))\<rparr>"

definition user_message :: "turn_env \<Rightarrow> Message" where
  "user_message env = \<lparr>msg_role = User, msg_content = tv_message env\<rparr>"

lemma start_turn_inv:
  assumes "start_turn env q db items = (db', Some st)"
  shows "turn.inv env MAX_TOOL_CALLS (turn_prompt q) (turn_history env q db) (user_message env) [] st"
    and "cd_messages db' = cd_messages db @
      [\<lparr>mr_id = fst (tq_ids q), mr_session_id = tv_session_id env, mr_role = ''user'', mr_content = tv_message env,
        mr_tokens = None, mr_created_at = tv_now env\<rparr>]"
    and "ts_events st = []" and "ts_log st = []" and "ts_work_item st = None"
proof -
  obtain db1 where d1: "open_session env q db = Some db1" using assms by (auto simp: start_turn_def split: option.splits)
  then have db1: "cd_messages db1 = cd_messages db"
    by (auto simp: open_session_def create_session_def touch_session_def Let_def split: option.splits if_splits)
  obtain facts where f: "tq_facts q = Some facts"
    and db': "db' = insert_message (fst (tq_ids q)) (tv_now env) (tv_session_id env) ''user'' (tv_message env) None db1"
    and st: "ts_messages st = build_messages (tq_render q) facts db' (tv_session_id env) (tv_message env) (tq_context_window q)"
      "ts_guard st = lg_new" "ts_log st = []" "ts_pinned st = 1" "ts_calls st = 0" "ts_events st = []" "ts_work_item st = None"
    using assms by (auto simp: start_turn_def d1 Let_def split: option.splits)
  show "cd_messages db' = cd_messages db @
      [\<lparr>mr_id = fst (tq_ids q), mr_session_id = tv_session_id env, mr_role = ''user'', mr_content = tv_message env,
        mr_tokens = None, mr_created_at = tv_now env\<rparr>]"
    by (simp add: db' db1 insert_message_def)
  then have h: "load_history db' (tv_session_id env) = turn_history env q db"
    unfolding turn_history_def by (intro load_history_messages) (simp add: insert_message_def)
  obtain prompt kept where p: "build_trimmed_system_prompt (tq_render q) facts (prompt_budget (tb_new (tq_context_window q))) = (prompt, kept)"
    by fastforce
  let ?h = "turn_history env q db"
  obtain n where "ts_messages st = turn_prompt q # rev (keep_newest n (rev ?h)) @ [user_message env]"
    by (simp add: st build_messages_def p fit_messages_def Let_def h turn_prompt_def f user_message_def)
  moreover obtain k where "keep_newest n (rev ?h) = take k (rev ?h)" using keep_newest_take by blast
  ultimately have "conversation (tv_show env) (call_in (tv_from_str env)) (turn_prompt q) ?h (user_message env) [] [] (ts_messages st)"
    by (auto simp: conversation_def rev_take suffix_drop)
  then show "turn.inv env MAX_TOOL_CALLS (turn_prompt q) (turn_history env q db) (user_message env) [] st"
    by (simp add: loop_inv_def st lg_new_def)
qed (use assms in \<open>auto simp: start_turn_def Let_def split: option.splits\<close>)

lemma run_turn_cases:
  assumes "run_turn env q db items = (result, db', Some st)"
  obtains db1 st0 r st1 where "start_turn env q db items = (db1, Some st0)" "turn_loop env st0 = (r, st1)"
    "finish_turn env q db1 (r, st1) = (result, db', st)"
proof -
  obtain db1 st0 where s: "start_turn env q db items = (db1, Some st0)"
    using assms by (auto simp: run_turn_def split: prod.splits option.splits)
  obtain r st1 where l: "turn_loop env st0 = (r, st1)" by fastforce
  from that [OF s l] show thesis using assms by (auto simp: run_turn_def s l split: prod.splits)
qed

lemma finish_turn_fields:
  assumes "finish_turn env q db (r, st1) = (result, db', st)"
  shows "tool_calls (ts_events st) = tool_calls (ts_events st1)" "model_calls (ts_events st) = model_calls (ts_events st1)"
    "ts_log st = ts_log st1" "ts_work_item st = ts_work_item st1" "ts_items st = finalize_item env q r st1"
  using assms by (auto simp: finish_turn_def answer_events_def Let_def split: sum.splits prod.splits if_splits)

section \<open>A sample turn\<close>

text \<open>
  Every model call answers with a word and a call of the same tool, which is not registered: the first call is
  dispatched, the second trips the guard.
\<close>

definition sample_env :: turn_env where
  "sample_env =
     \<lparr>tv_llm = \<lparr>lr_primary = Cloud ''u'' [''k''] ''m'', lr_fallback = None, lr_tier_clients = Map.empty,
                lr_default_model = ''m'', lr_tier_model_names = Map.empty, lr_cost_quality = 7\<rparr>,
      tv_policy = \<lparr>ep_failures_before_escalation = 1, ep_max_tier = Thinking, ep_enabled = False\<rparr>,
      tv_egress = AllowCloud, tv_budget = tb_new 8192,
      tv_answers = (\<lambda>_. \<lparr>ans_first = \<lambda>_. Inr [Token sample_answer, Done 5 None], ans_fallback = \<lambda>_. Inr []\<rparr>),
      tv_retry_answers = (\<lambda>_. \<lparr>ans_first = \<lambda>_. Inr [], ans_fallback = \<lambda>_. Inr []\<rparr>),
      tv_cancelled = (\<lambda>_. False), tv_cancel_at = (\<lambda>_ _. False),
      tv_from_str = sample_from_str,
      tv_show = (\<lambda>_. ''{}''), tv_registry = example_registry, tv_gate = broker_new, tv_call = (\<lambda>_. example_env),
      tv_result_text = (\<lambda>_. lit ''?''), tv_items_during = (\<lambda>_ items. items), tv_new_item = (\<lambda>_. Some ''w''),
      tv_now = ''t'', tv_session_id = ''s'', tv_message = lit ''hi''\<rparr>"

definition sample_request :: turn_request where
  "sample_request =
     \<lparr>tq_adapter_id = ''cli'', tq_user_ref = None, tq_render = (\<lambda>_. lit ''be kind''), tq_facts = Some [],
      tq_context_window = 8192, tq_low = id, tq_depth = Normal, tq_routing_active = False, tq_ids = (''m1'', ''m2''),
      tq_show_error = (\<lambda>_. lit ''error'')\<rparr>"

lemma sample_stream: "stream_llm_response (\<lambda>_. False) [Token sample_answer, Done 5 None] = (Inr (sample_answer, 5, None), [[97]])"
  by code_simp

lemma sample_call: "call_in (tv_from_str sample_env) sample_answer = Some (''now'', JObj [])"
  using sample_parse by (simp add: sample_env_def)

lemma sample_open:
  "open_stream_with_escalation (tv_answers sample_env k) (tv_retry_answers sample_env k) (tv_llm sample_env) None
     (tv_policy sample_env) (tv_egress sample_env) (tv_cancelled sample_env k)
   = (Inr [Token sample_answer, Done 5 None], None, [Cloud ''u'' [''k''] ''m''])"
  by (simp add: open_stream_with_escalation_def complete_stream_tiered_def stream_backend_eq tier_client_def
      sample_env_def started_def ask_def)

lemma sample_step:
  fixes st
  defines "ms \<equiv> refit (tv_budget sample_env) (ts_messages st) (ts_pinned st)"
  defines "st1 \<equiv> st\<lparr>ts_messages := ms, ts_events := ts_events st @ [ModelCall ms None, Shown [97]]\<rparr>"
  assumes "ts_tier st = None"
  shows "turn_step sample_env st =
     (case lg_check (ts_guard st) ''now'' ''{}'' of
        Inl _ \<Rightarrow> Inl (Inr ([97], False), st1\<lparr>ts_messages := ms @ [\<lparr>msg_role = Assistant, msg_content = sample_answer\<rparr>]\<rparr>)
      | Inr guard \<Rightarrow> Inr (run_call sample_env st1 guard sample_answer ''now'' (JObj [])))"
proof -
  have c: "tv_cancel_at sample_env k = (\<lambda>_. False)" and s: "tv_show sample_env v = ''{}''" for k v by (simp_all add: sample_env_def)
  have u: "st\<lparr>ts_messages := a, ts_tier := None, ts_events := e\<rparr> = st\<lparr>ts_messages := a, ts_events := e\<rparr>" for a e
    using assms(3) by (cases st) simp
  then show ?thesis
    unfolding turn_step_def Let_def assms(3) sample_open prod.case sum.case c sample_stream sample_call option.case s sample_markup
    by (simp add: ms_def st1_def u split: sum.split)
qed

lemma sample_turn_run:
  "\<exists>db' st ms ms' effs w.
     run_turn sample_env sample_request \<lparr>cd_sessions = [], cd_messages = []\<rparr> [] = (Inr [97], db', Some st) \<and>
     ts_events st = [ModelCall ms None, Shown [97], Dispatched ''now'' (JObj []) effs, ModelCall ms' None, Shown [97],
                     Shown [97], Completed] \<and>
     ts_log st = [(''now'', JObj [], False)] \<and> ts_work_item st = Some ''w'' \<and> wi_get (ts_items st) ''w'' = Some w"
proof -
  let ?db = "\<lparr>cd_sessions = [], cd_messages = []\<rparr>"
  obtain db1 st0 where start: "start_turn sample_env sample_request ?db [] = (db1, Some st0)"
    and st0: "ts_tier st0 = None" "ts_guard st0 = lg_new" "ts_events st0 = []" "ts_log st0 = []" "ts_work_item st0 = None"
      "ts_items st0 = []" "ts_calls st0 = 0"
    by (simp add: start_turn_def open_session_def get_session_def create_session_def sample_env_def sample_request_def Let_def
        turn_decision_def default_decision_def)
  obtain g where g: "lg_check lg_new ''now'' ''{}'' = Inr g" "lg_last g = Some (''now'', ''{}'')"
    by (simp add: lg_check_def lg_new_def MAX_TOOL_CALLS_def)
  then have g': "\<exists>e. lg_check g ''now'' ''{}'' = Inl e" by (simp add: lg_check_def)
  let ?ms = "refit (tv_budget sample_env) (ts_messages st0) (ts_pinned st0)"
  let ?st = "st0\<lparr>ts_messages := ?ms, ts_events := [ModelCall ?ms None, Shown [97]]\<rparr>"
  define st1 where "st1 = run_call sample_env ?st g sample_answer ''now'' (JObj [])"
  have step: "turn_step sample_env st0 = Inr st1" using sample_step [OF st0(1)] st0 g by (simp add: st1_def)
  obtain items w where i: "ensure_work_item sample_env ?st = (Some ''w'', items)" "wi_get items ''w'' = Some w"
    using st0 by (simp add: ensure_work_item_def sample_env_def wi_create_def wi_start_def wi_update_def wi_get_def Let_def)
  have saved: "\<exists>w'. wi_get (save_progress sample_env (Some ''w'') 0 ''now'' (tv_items_during sample_env 0 items)) ''w'' = Some w'"
    using i(2) by (simp add: save_progress_def wi_save_checkpoint_def wi_update_status sample_env_def)
  obtain e ctx effs where d: "dispatch (tv_registry sample_env) (tv_gate sample_env) (ts_ctx st0) (tv_call sample_env 0) ''now'' (JObj [])
      = (Inl e, ctx, effs)"
    by (simp add: dispatch_def sample_env_def example_registry_def)
  have st1: "ts_tier st1 = None" "ts_guard st1 = g" "ts_log st1 = [(''now'', JObj [], False)]"
    "ts_work_item st1 = Some ''w''" "\<exists>w. wi_get (ts_items st1) ''w'' = Some w"
    "ts_events st1 = [ModelCall ?ms None, Shown [97], Dispatched ''now'' (JObj []) effs]"
    using st0 saved by (simp_all add: st1_def run_call_def Let_def i d)
  obtain ms2 st2 where step2: "turn_step sample_env st1 = Inl (Inr ([97], False), st2)"
    and st2: "ts_log st2 = ts_log st1" "ts_work_item st2 = ts_work_item st1" "ts_items st2 = ts_items st1"
      "ts_events st2 = ts_events st1 @ [ModelCall ms2 None, Shown [97]]"
    using sample_step [OF st1(1)] g' st1(2) by auto
  have loop: "turn_loop sample_env st0 = (Inr ([97], False), st2)"
    by (simp add: turn_loop.simps [of _ st0] turn_loop.simps [of _ st1] step step2)
  have "\<exists>w. wi_get (finalize_item sample_env sample_request (Inr ([97], False)) st2) ''w'' = Some w"
    using st1 st2 by (auto simp: finalize_item_def wi_fail_def wi_update_status)
  moreover have "tq_routing_active sample_request = False" by (simp add: sample_request_def)
  then obtain db' where "finish_turn sample_env sample_request db1 (Inr ([97], False), st2) =
      (Inr [97], db', st2\<lparr>ts_items := finalize_item sample_env sample_request (Inr ([97], False)) st2,
                           ts_events := ts_events st2 @ [Shown [97], Completed]\<rparr>)"
    by (simp add: finish_turn_def answer_events_def Let_def)
  then have "run_turn sample_env sample_request ?db [] =
      (Inr [97], db', Some (st2\<lparr>ts_items := finalize_item sample_env sample_request (Inr ([97], False)) st2,
                           ts_events := ts_events st2 @ [Shown [97], Completed]\<rparr>))"
    unfolding run_turn_def start prod.case option.case loop by simp
  ultimately show ?thesis using st1 st2 by fastforce
qed

text \<open>
  A turn that the guard ends has streamed the text of the last answer, and sends it once more: the flag
  \<open>final_text_already_streamed\<close> is set only for answers without a call.
\<close>

lemma guard_trip_repeats_text:
  "\<exists>db' st. run_turn sample_env sample_request \<lparr>cd_sessions = [], cd_messages = []\<rparr> [] = (Inr [97], db', Some st) \<and>
     filter (\<lambda>e. e = Shown [97] \<or> e = Completed) (ts_events st) = [Shown [97], Shown [97], Shown [97], Completed] \<and>
     length (model_calls (ts_events st)) = 2"
  using sample_turn_run by force

section \<open>Properties\<close>

text \<open>
  Property C15: A turn makes at most ten tool calls and one model call more than tool calls, and never makes the
  same tool call twice in a row. Its n-th model call sees the system prompt, a suffix of the stored history, the
  user's message, and then exactly the first n tool calls, each with the answer that asked for it and with a
  result in which no tag of the tool protocol is left: trimming never drops a call of this turn.
\<close>

theorem turn_conversation:
  assumes "run_turn env q db items = (result, db', Some st)"
  shows "length (tool_calls (ts_events st)) \<le> 10 \<and>
     length (model_calls (ts_events st)) = Suc (length (tool_calls (ts_events st))) \<and>
     distinct_adj (map (known_call (tv_show env)) (tool_calls (ts_events st))) \<and>
     (\<exists>rounds. \<forall>n \<le> length (tool_calls (ts_events st)).
        conversation (tv_show env) (call_in (tv_from_str env)) (turn_prompt q) (turn_history env q db) (user_message env)
          (take n (tool_calls (ts_events st))) (take (2 * n) rounds) (model_calls (ts_events st) ! n))"
  using assms
proof (rule run_turn_cases)
  fix db1 st0 r st1
  assume start: "start_turn env q db items = (db1, Some st0)" and loop: "turn_loop env st0 = (r, st1)"
    and fin: "finish_turn env q db1 (r, st1) = (result, db', st)"
  from turn.run_done [OF start_turn_inv(1) [OF start]] loop obtain rounds where
    "loop_done (tv_show env) (call_in (tv_from_str env)) MAX_TOOL_CALLS (turn_prompt q) (turn_history env q db) (user_message env)
       rounds (tool_calls (ts_events st1)) (model_calls (ts_events st1))" by auto
  then show ?thesis
    unfolding loop_done_def finish_turn_fields [OF fin, symmetric] unat_MAX_TOOL_CALLS by blast
qed

theorem turn_conversation_witness:
  "\<exists>db' st. run_turn sample_env sample_request \<lparr>cd_sessions = [], cd_messages = []\<rparr> [] = (Inr [97], db', Some st) \<and>
     length (tool_calls (ts_events st)) = 1 \<and> length (model_calls (ts_events st)) = 2 \<and>
     (\<exists>rounds. conversation (tv_show sample_env) (call_in (tv_from_str sample_env)) (turn_prompt sample_request)
        (turn_history sample_env sample_request \<lparr>cd_sessions = [], cd_messages = []\<rparr>) (user_message sample_env)
        [(''now'', JObj [])] (take 2 rounds) (model_calls (ts_events st) ! 1))"
proof -
  let ?db = "\<lparr>cd_sessions = [], cd_messages = []\<rparr>"
  obtain db' st ms ms' effs where
    run: "run_turn sample_env sample_request ?db [] = (Inr [97], db', Some st)" and
    evs: "ts_events st = [ModelCall ms None, Shown [97], Dispatched ''now'' (JObj []) effs, ModelCall ms' None, Shown [97],
      Shown [97], Completed]" using sample_turn_run by blast
  from turn_conversation [OF run] obtain rounds where
    "\<forall>n \<le> length (tool_calls (ts_events st)).
        conversation (tv_show sample_env) (call_in (tv_from_str sample_env)) (turn_prompt sample_request) (turn_history sample_env sample_request ?db) (user_message sample_env)
          (take n (tool_calls (ts_events st))) (take (2 * n) rounds) (model_calls (ts_events st) ! n)" by blast
  from spec [OF this, of 1] show ?thesis using run evs by auto
qed



end
