(* ===== verification/SubTurn.thy ===== *)
theory SubTurn
  imports ToolLoop TurnRouting
begin

text \<open>
  A delegated turn: the prompt of a sub-agent and its loop (\<open>agent/sub_turn.rs\<close>), and the tool that delegates
  (\<open>delegate.rs\<close>, both in \<open>crates/haily-core/src\<close>): its depth guard, the cleaning of the task, the clock that
  stops while the user is asked, and the forwarding of approval requests. What the knowledge base returns and
  the answers of the model and of the tools are arguments.
\<close>

section \<open>The optional parts of the prompt\<close>

definition SUB_TURN_MAX_SYNTHESIZED_SKILLS :: nat where "SUB_TURN_MAX_SYNTHESIZED_SKILLS = 3"
definition TRIVIAL_TASK_CHAR_THRESHOLD :: nat where "TRIVIAL_TASK_CHAR_THRESHOLD = 200"
definition SUB_TURN_MAX_FACTS :: nat where "SUB_TURN_MAX_FACTS = 5"

definition titled_item :: "ustr \<times> ustr \<Rightarrow> ustr" where
  "titled_item i = lit ''### '' @ fst i @ [10] @ snd i"

definition titled_block :: "ustr \<Rightarrow> (ustr \<times> ustr) list \<Rightarrow> ustr" where
  "titled_block title items = lit ''## '' @ title @ [10] @ join_with [10, 10] (map titled_item items)"

text \<open>The loop of \<open>fit_titled_block\<close>, from the number of items kept.\<close>

fun fit_titled :: "ustr \<Rightarrow> (ustr \<times> ustr) list \<Rightarrow> nat \<Rightarrow> nat \<Rightarrow> ustr \<times> nat" where
  "fit_titled title items 0 remaining = ([], remaining)"
| "fit_titled title items (Suc kept) remaining =
     (let block = titled_block title (take (Suc kept) items)
      in if estimate block \<le> remaining then ([10, 10] @ block, remaining - estimate block)
         else fit_titled title items kept remaining)"

definition fit_titled_block :: "ustr \<Rightarrow> (ustr \<times> ustr) list \<Rightarrow> nat \<Rightarrow> ustr \<times> nat" where
  "fit_titled_block title items remaining = fit_titled title items (length items) remaining"

definition memory_text :: "ustr list \<Rightarrow> ustr" where
  "memory_text facts = lit ''## Relevant Memory'' @ [10] @ join_with [10] (map (\<lambda>f. lit ''- '' @ f) facts)"

function fit_memory :: "ustr list \<Rightarrow> nat \<Rightarrow> ustr" where
  "fit_memory kept budget_tokens =
     (if estimate (memory_text kept) \<le> budget_tokens \<or> length kept \<le> 1 then memory_text kept
      else fit_memory (butlast kept) budget_tokens)"
  by pat_completeness auto
termination by (relation "measure (\<lambda>(kept, b). length kept)") auto

declare fit_memory.simps [simp del]

definition build_memory_block :: "ustr list \<Rightarrow> nat \<Rightarrow> ustr option" where
  "build_memory_block facts budget_tokens =
     (if facts = [] then None else Some (fit_memory (take SUB_TURN_MAX_FACTS facts) budget_tokens))"

section \<open>The sub-turn\<close>

record sub_env =
  sv_llm :: LlmRouter
  sv_context_window :: u32
  sv_answers :: "nat \<Rightarrow> string answers"
  sv_from_str :: "ustr \<Rightarrow> json option"
  sv_show :: "json \<Rightarrow> string"
  sv_tools :: "(ustr \<times> ustr) list"
  sv_registry :: registry
  sv_gate :: Broker
  sv_call :: "nat \<Rightarrow> call_env"
  sv_result_text :: "dispatch_error + dispatch_text \<times> bool \<Rightarrow> ustr"
  sv_search_hybrid :: "ustr \<Rightarrow> ustr list"
  sv_authored_playbooks :: "ustr \<Rightarrow> string \<Rightarrow> (ustr \<times> ustr) list"
  sv_synthesized_playbooks :: "ustr \<Rightarrow> nat \<Rightarrow> (ustr \<times> ustr) list"
  sv_authored_standards :: "(ustr \<times> ustr) list"
  sv_overlay_standards :: "(ustr \<times> ustr) list"

record SubTurnRequest =
  sq_task :: ustr
  sq_system_prompt :: ustr
  sq_domain_name :: string
  sq_depth :: nat
  sq_model_tier :: "Tier option"
  sq_turn_deletes :: nat
  sq_max_tool_calls :: "u32 option"
  sq_depth_mode :: DepthMode

definition relevant_facts :: "sub_env \<Rightarrow> ustr \<Rightarrow> ustr list" where
  "relevant_facts env task =
     (if length task < TRIVIAL_TASK_CHAR_THRESHOLD then [] else map strip_tool_tags (sv_search_hybrid env task))"

definition clean_pair :: "ustr \<times> ustr \<Rightarrow> ustr \<times> ustr" where
  "clean_pair p = (strip_tool_tags (fst p), strip_tool_tags (snd p))"

definition sub_playbooks :: "sub_env \<Rightarrow> SubTurnRequest \<Rightarrow> (ustr \<times> ustr) list" where
  "sub_playbooks env req =
     map clean_pair (sv_authored_playbooks env (sq_task req) (sq_domain_name req)) @
     map clean_pair (sv_synthesized_playbooks env (sq_task req) SUB_TURN_MAX_SYNTHESIZED_SKILLS)"

definition sub_standards :: "sub_env \<Rightarrow> SubTurnRequest \<Rightarrow> (ustr \<times> ustr) list" where
  "sub_standards env req =
     (if sq_domain_name req = ''developer''
      then map clean_pair (sv_authored_standards env) @ map clean_pair (sv_overlay_standards env)
      else [])"

text \<open>The three optional parts, in the order in which they are budgeted.\<close>

definition optional_blocks :: "sub_env \<Rightarrow> SubTurnRequest \<Rightarrow> ustr \<times> ustr \<times> ustr" where
  "optional_blocks env req =
     (let b0 = unat (sv_context_window env) div 4;
          (playbook_block, b1) = fit_titled_block (lit ''Playbooks'') (sub_playbooks env req) b0;
          (standards_block, b2) = fit_titled_block (lit ''Standards'') (sub_standards env req) b1;
          memory_block = (case build_memory_block (relevant_facts env (sq_task req)) b2 of None \<Rightarrow> [] | Some b \<Rightarrow> [10, 10] @ b)
      in (playbook_block, standards_block, memory_block))"

definition TOOL_CALLING :: ustr where
  "TOOL_CALLING =
     [10, 10] @ lit ''## Tool Calling'' @ [10] @ lit ''Khi c'' @ [7847] @ lit ''n d'' @ [249] @ lit ''ng tool, output '' @
     [272, 218] @ lit ''NG format n'' @ [224] @ lit ''y:'' @ [10] @ lit ''<tool_call>{'' @ [34] @ lit ''tool'' @ [34] @
     lit '':'' @ [34] @ lit ''name'' @ [34] @ lit '','' @ [34] @ lit ''args'' @ [34] @ lit '':{...}}</tool_call>'' @ [10, 10] @
     lit ''Sau khi nh'' @ [7853] @ lit ''n tool result, ti'' @ [7871] @ lit ''p t'' @ [7909] @ lit ''c tr'' @ [7843] @
     lit '' l'' @ [7901] @ lit ''i b'' @ [236] @ lit ''nh th'' @ [432, 7901] @ lit ''ng.'' @ [10, 10] @
     lit ''## Available Tools'' @ [10]"

definition sub_prompt :: "sub_env \<Rightarrow> SubTurnRequest \<Rightarrow> ustr" where
  "sub_prompt env req =
     (let (playbook_block, standards_block, memory_block) = optional_blocks env req;
          depth_block = (case research_depth_addendum (sq_domain_name req) (sq_depth_mode req) of None \<Rightarrow> [] | Some t \<Rightarrow> t)
      in sq_system_prompt req @ depth_block @ TOOL_CALLING @ tool_reference_block (sv_tools env) @
         playbook_block @ standards_block @ memory_block)"

record sub_state =
  sb_messages :: "Message list"
  sb_guard :: LoopGuard
  sb_log :: "(string \<times> json \<times> bool \<times> dispatch_effect list) list"
  sb_ctx :: ToolCtx
  sb_pinned :: nat
  sb_prompts :: "Message list list"

definition sub_start :: "sub_env \<Rightarrow> SubTurnRequest \<Rightarrow> sub_state" where
  "sub_start env req =
     \<lparr>sb_messages = [\<lparr>msg_role = System, msg_content = sub_prompt env req\<rparr>, \<lparr>msg_role = User, msg_content = sq_task req\<rparr>],
      sb_guard = (case sq_max_tool_calls req of Some limit \<Rightarrow> lg_with_limit limit | None \<Rightarrow> lg_new),
      sb_log = [],
      sb_ctx = \<lparr>tc_turn_deletes = sq_turn_deletes req, tc_last_journal_id = None, tc_depth = sq_depth req,
                tc_domain = Some (sq_domain_name req)\<rparr>,
      sb_pinned = 1, sb_prompts = []\<rparr>"

definition sub_call :: "sub_env \<Rightarrow> sub_state \<Rightarrow> LoopGuard \<Rightarrow> ustr \<Rightarrow> string \<Rightarrow> json \<Rightarrow> sub_state" where
  "sub_call env st guard response tool args =
     (let (outcome, ctx, effs) = dispatch (sv_registry env) (sv_gate env) (sb_ctx st) (sv_call env (length (sb_log st))) tool args;
          ok = (case outcome of Inl _ \<Rightarrow> False | Inr (_, ok) \<Rightarrow> ok);
          safe_result = strip_tool_tags (sv_result_text env outcome)
      in st\<lparr>sb_messages := sb_messages st @
              [\<lparr>msg_role = Assistant, msg_content = response\<rparr>,
               \<lparr>msg_role = User, msg_content = result_message (sv_show env) tool safe_result ok\<rparr>],
            sb_guard := guard, sb_log := sb_log st @ [(tool, args, ok, effs)], sb_ctx := ctx,
            sb_pinned := sb_pinned st + 2\<rparr>)"

definition sub_step :: "sub_env \<Rightarrow> Tier option \<Rightarrow> sub_state \<Rightarrow> (llm_error + ustr) \<times> sub_state + sub_state" where
  "sub_step env tier st =
     (let msgs = refit (tb_new (sv_context_window env)) (sb_messages st) (sb_pinned st);
          st1 = st\<lparr>sb_messages := msgs, sb_prompts := sb_prompts st @ [msgs]\<rparr>
      in case fst (complete_tiered (sv_answers env (length (sb_log st))) (sv_llm env) tier) of
           Inl e \<Rightarrow> Inl (Inl e, st1)
         | Inr body \<Rightarrow>
             (let response = text_of body
              in case call_in (sv_from_str env) response of
                   None \<Rightarrow> Inl (Inr (strip_tool_markup response), st1)
                 | Some (tool, args) \<Rightarrow>
                     (case lg_check (sb_guard st) tool (sv_show env args) of
                        Inl _ \<Rightarrow> Inl (Inr (strip_tool_markup response),
                                     st1\<lparr>sb_messages := msgs @ [\<lparr>msg_role = Assistant, msg_content = response\<rparr>]\<rparr>)
                      | Inr guard \<Rightarrow> Inr (sub_call env st1 guard response tool args))))"

lemma sub_call_guard [simp]: "sb_guard (sub_call env st guard response tool args) = guard"
  by (simp add: sub_call_def Let_def split: prod.split)

lemma sub_step_room: "sub_step env tier st = Inr st' \<Longrightarrow> guard_room (sb_guard st') < guard_room (sb_guard st)"
  by (auto simp: sub_step_def Let_def split: sum.splits option.splits dest!: lg_check_less)

function sub_loop :: "sub_env \<Rightarrow> Tier option \<Rightarrow> sub_state \<Rightarrow> (llm_error + ustr) \<times> sub_state" where
  "sub_loop env tier st = (case sub_step env tier st of Inl r \<Rightarrow> r | Inr st' \<Rightarrow> sub_loop env tier st')"
  by pat_completeness auto

termination
  by (relation "measure (\<lambda>(env, tier, st). guard_room (sb_guard st))") (auto intro: sub_step_room)

declare sub_loop.simps [simp del]

definition run_sub_turn :: "sub_env \<Rightarrow> SubTurnRequest \<Rightarrow> (llm_error + ustr) \<times> sub_state" where
  "run_sub_turn env req = sub_loop env (sq_model_tier req) (sub_start env req)"

section \<open>The loop of a sub-turn is a tool loop\<close>

definition sub_calls :: "sub_state \<Rightarrow> (string \<times> json) list" where
  "sub_calls st = map (\<lambda>(tool, args, ok, effs). (tool, args)) (sb_log st)"

lemma sub_step_stops:
  "sub_step env tier st = Inl (r, st') \<Longrightarrow> sub_calls st' = sub_calls st \<and>
     sb_prompts st' = sb_prompts st @ [refit (tb_new (sv_context_window env)) (sb_messages st) (sb_pinned st)]"
  by (auto simp: sub_step_def Let_def sub_calls_def split: sum.splits option.splits)

lemma sub_call_fields:
  fixes env st guard response tool args
  defines "st' \<equiv> sub_call env st guard response tool args"
  shows "\<exists>ok safe effs. tag_free safe \<and> sb_messages st' = sb_messages st @
          [\<lparr>msg_role = Assistant, msg_content = response\<rparr>,
           \<lparr>msg_role = User, msg_content = result_message (sv_show env) tool safe ok\<rparr>] \<and>
        sb_log st' = sb_log st @ [(tool, args, ok, effs)] \<and> sb_guard st' = guard \<and>
        sb_pinned st' = sb_pinned st + 2 \<and> sb_prompts st' = sb_prompts st"
proof -
  obtain outcome ctx effs where d: "dispatch (sv_registry env) (sv_gate env) (sb_ctx st) (sv_call env (length (sb_log st))) tool args
      = (outcome, ctx, effs)" by (metis prod.exhaust)
  show ?thesis
    unfolding st'_def
    by (intro exI [of _ "case outcome of Inl _ \<Rightarrow> False | Inr (_, ok) \<Rightarrow> ok"] exI [of _ "strip_tool_tags (sv_result_text env outcome)"]
        exI [of _ effs]) (simp add: sub_call_def Let_def d strip_tool_tags_free)
qed

lemma sub_step_goes:
  assumes "sub_step env tier st = Inr st'"
  shows "\<exists>tool args ms. transcript (sv_show env) (call_in (sv_from_str env)) [(tool, args)] ms \<and>
    sb_messages st' = refit (tb_new (sv_context_window env)) (sb_messages st) (sb_pinned st) @ ms \<and>
    sb_pinned st' = sb_pinned st + 2 \<and> sub_calls st' = sub_calls st @ [(tool, args)] \<and>
    sb_prompts st' = sb_prompts st @ [refit (tb_new (sv_context_window env)) (sb_messages st) (sb_pinned st)] \<and>
    lg_check (sb_guard st) tool (sv_show env args) = Inr (sb_guard st')"
proof -
  let ?ms = "refit (tb_new (sv_context_window env)) (sb_messages st) (sb_pinned st)"
  let ?st = "st\<lparr>sb_messages := ?ms, sb_prompts := sb_prompts st @ [?ms]\<rparr>"
  obtain guard response tool args where c: "call_in (sv_from_str env) response = Some (tool, args)"
      "lg_check (sb_guard st) tool (sv_show env args) = Inr guard"
    and st': "st' = sub_call env ?st guard response tool args"
    using assms by (auto simp: sub_step_def Let_def split: sum.splits option.splits)
  obtain ok safe effs where "tag_free safe"
    "sb_messages st' = ?ms @ [\<lparr>msg_role = Assistant, msg_content = response\<rparr>,
           \<lparr>msg_role = User, msg_content = result_message (sv_show env) tool safe ok\<rparr>]"
    "sb_log st' = sb_log st @ [(tool, args, ok, effs)]" "sb_guard st' = guard" "sb_pinned st' = sb_pinned st + 2"
    "sb_prompts st' = sb_prompts st @ [?ms]"
    using sub_call_fields [of env ?st guard response tool args] by (auto simp: st')
  then show ?thesis using c by (auto simp: sub_calls_def)
qed

interpretation sub: tool_loop "sub_step env tier" "sub_loop env tier" sb_messages sb_pinned sb_guard sub_calls sb_prompts
    "tb_new (sv_context_window env)" "sv_show env" "call_in (sv_from_str env)" for env tier
  by unfold_locales (rule sub_loop.simps, erule sub_step_stops, erule sub_step_goes)

definition sub_limit :: "SubTurnRequest \<Rightarrow> u32" where
  "sub_limit req = (case sq_max_tool_calls req of Some limit \<Rightarrow> limit | None \<Rightarrow> MAX_TOOL_CALLS)"

lemma sub_start_inv:
  "sub.inv env (sub_limit req) \<lparr>msg_role = System, msg_content = sub_prompt env req\<rparr> []
     \<lparr>msg_role = User, msg_content = sq_task req\<rparr> [] (sub_start env req)"
  by (simp add: loop_inv_def conversation_def sub_start_def sub_calls_def sub_limit_def lg_new_def lg_with_limit_def
      split: option.split)

section \<open>Text that joins without a tag\<close>

text \<open>A tag starts with an opening bracket, ends with a closing one and has only letters, the underscore, the slash and blanks between.\<close>

lemma tag_chars:
  assumes "tag_text name closing tag"
  shows "tag \<noteq> []" and "last tag = GT" and "set (tl tag) \<subseteq> {SLASH, GT, 95} \<union> Collect is_ascii_whitespace \<union> {65..90} \<union> {97..122}"
proof -
  obtain c ws1 ws2 nm ws3 where
    tag: "tag = c # ws1 @ (if closing then SLASH # ws2 else []) @ nm @ ws3 @ [GT]"
    and ws: "all_ws ws1" "all_ws ws2" "all_ws ws3" and name: "name \<in> set TAG_NAMES" "lower nm = lit name"
    using assms unfolding tag_text_def by blast
  have "set (lit name) \<subseteq> {95} \<union> {97..122}" using name(1) by (auto simp: TAG_NAMES_def)
  then have "to_ascii_lowercase c \<in> {95} \<union> {97..122}" if "c \<in> set nm" for c
    using that name(2) by (metis image_eqI list.set_map subsetD)
  then have "set nm \<subseteq> {95} \<union> {65..90} \<union> {97..122}"
    by (force simp: to_ascii_lowercase_def split: if_splits)
  with ws show "tag \<noteq> []" "last tag = GT" "set (tl tag) \<subseteq> {SLASH, GT, 95} \<union> Collect is_ascii_whitespace \<union> {65..90} \<union> {97..122}"
    by (auto simp: tag all_ws_def list_all_iff)
qed

lemma tag_free_sublist:
  "tag_free t \<longleftrightarrow> (\<forall>tag name closing. hd tag = LT \<and> tag_text name closing tag \<longrightarrow> \<not> sublist tag t)"
  unfolding tag_free_grammar sublist_def by blast

lemma tag_free_Cons: "c \<noteq> LT \<Longrightarrow> tag_free t \<Longrightarrow> tag_free (c # t)"
  unfolding tag_free_sublist using tag_chars(1)
  by (metis hd_append2 list.sel(1) prefix_def sublist_Cons_right)

lemma tag_free_snoc: "c \<noteq> GT \<Longrightarrow> tag_free t \<Longrightarrow> tag_free (t @ [c])"
  unfolding tag_free_sublist
proof (intro allI impI)
  fix tag name closing
  assume c: "c \<noteq> GT" and t: "\<forall>tag name closing. hd tag = LT \<and> tag_text name closing tag \<longrightarrow> \<not> sublist tag t"
    and tag: "hd tag = LT \<and> tag_text name closing tag"
  show "\<not> sublist tag (t @ [c])"
  proof
    assume "sublist tag (t @ [c])"
    then have "suffix tag (t @ [c])" using t tag by (auto simp: sublist_snoc)
    then show False using tag_chars(1,2) [of name closing tag] tag c by (auto simp: suffix_def) (metis last_appendR last_snoc)
  qed
qed

lemma tag_free_join:
  assumes "c \<notin> {LT, SLASH, GT, 95} \<union> Collect is_ascii_whitespace \<union> {65..90} \<union> {97..122}" and "tag_free a" and "tag_free b"
  shows "tag_free (a @ c # b)"
  unfolding tag_free_sublist
proof (intro allI impI notI)
  fix tag name closing
  assume tag: "hd tag = LT \<and> tag_text name closing tag" and sub: "sublist tag (a @ c # b)"
  have "c \<notin> set tag"
    using tag_chars(1,3) [of name closing tag] tag assms(1) by (cases tag) auto
  moreover have "\<not> sublist tag a" "\<not> sublist tag b" using assms(2,3) tag unfolding tag_free_sublist by blast+
  ultimately show False
    using sub tag_chars(1) [of name closing tag] tag
    by (auto simp: sublist_append sublist_Cons_right prefix_Cons dest!: suffix_imp_sublist)
qed

section \<open>Delegation\<close>

record DelegateTool =
  dt_system_prompt :: ustr
  dt_domain_name :: string
  dt_max_depth :: nat
  dt_model_tier :: "Tier option"

definition HANDLE_DIRECTLY :: ustr where
  "HANDLE_DIRECTLY = [84, 244, 105, 32, 115, 7869, 32, 120, 7917, 32, 108, 253, 32, 116, 114, 7921, 99, 32, 116, 105, 7871, 112, 46]"

definition DESCRIBE_MORE :: ustr where
  "DESCRIBE_MORE =
    [86, 117, 105, 32, 108, 242, 110, 103, 32, 109, 244, 32, 116, 7843, 32, 114, 245, 32, 104, 417, 110, 32, 121, 234, 117, 32,
     99, 7847, 117, 46]"

definition NOT_COMPLETED :: ustr where
  "NOT_COMPLETED =
    [75, 104, 244, 110, 103, 32, 116, 104, 7875, 32, 104, 111, 224, 110, 32, 116, 104, 224, 110, 104, 32, 121, 234, 117, 32, 99,
     7847, 117, 32, 108, 250, 99, 32, 110, 224, 121, 58, 32]"

definition TOOK_TOO_LONG :: ustr where
  "TOOK_TOO_LONG =
    [65, 103, 101, 110, 116, 32, 109, 7845, 116, 32, 113, 117, 225, 32, 110, 104, 105, 7873, 117, 32, 116, 104, 7901, 105, 32,
     103, 105, 97, 110, 32, 8212, 32, 116, 244, 105, 32, 115, 7869, 32, 99, 7889, 32, 103, 7855, 110, 103, 32, 116, 114, 7843,
     32, 108, 7901, 105, 32, 116, 114, 7921, 99, 32, 116, 105, 7871, 112, 46]"

text \<open>The task for the sub-agent: cleaned and clamped, with the optional context after it.\<close>

definition delegate_task :: "json \<Rightarrow> ustr option" where
  "delegate_task args =
     (let raw_task = trim (case Option.bind (jget args ''task'') as_str of Some s \<Rightarrow> text_of s | None \<Rightarrow> [])
      in if raw_task = [] then None
         else (let task = sanitize_delegate_input raw_task
               in Some (case Option.bind (jget args ''context'') as_str of
                          None \<Rightarrow> task
                        | Some c \<Rightarrow>
                            if c = '''' then task
                            else task @ [10, 10] @ lit ''[Context: '' @ sanitize_delegate_input (text_of c) @ [93])))"

definition sub_request :: "DelegateTool \<Rightarrow> ToolCtx \<Rightarrow> DepthMode \<Rightarrow> ustr \<Rightarrow> SubTurnRequest" where
  "sub_request d ctx depth_mode full_task =
     \<lparr>sq_task = full_task, sq_system_prompt = dt_system_prompt d, sq_domain_name = dt_domain_name d,
      sq_depth = tc_depth ctx + 1, sq_model_tier = dt_model_tier d, sq_turn_deletes = tc_turn_deletes ctx,
      sq_max_tool_calls = None, sq_depth_mode = depth_mode\<rparr>"

text \<open>
  The answer to the caller, and the sub-turn that was started. \<open>timed_out\<close> says whether the clock below ran
  out; \<open>err\<close> renders an error.
\<close>

definition delegate_execute :: "DelegateTool \<Rightarrow> sub_env \<Rightarrow> (llm_error \<Rightarrow> ustr) \<Rightarrow> bool \<Rightarrow> ToolCtx \<Rightarrow> DepthMode \<Rightarrow> json
    \<Rightarrow> ustr \<times> SubTurnRequest option" where
  "delegate_execute d env err timed_out ctx depth_mode args =
     (if tc_depth ctx \<ge> dt_max_depth d then (HANDLE_DIRECTLY, None)
      else (case delegate_task args of
              None \<Rightarrow> (DESCRIBE_MORE, None)
            | Some full_task \<Rightarrow>
                (let req = sub_request d ctx depth_mode full_task
                 in (if timed_out then TOOK_TOO_LONG
                     else (case fst (run_sub_turn env req) of
                             Inl e \<Rightarrow> NOT_COMPLETED @ err e
                           | Inr response \<Rightarrow> response),
                     Some req))))"

text \<open>
  \<open>run_with_pausable_timeout\<close> from the time \<open>now\<close>: the future ends at \<open>fin\<close>, if it does, and the pulses
  arrive at the given times. At equal times the future comes first, then the pulse, then the sleep. The result
  is the time at which the call returns, and whether the future ended.
\<close>

fun pausable_timeout :: "nat \<Rightarrow> nat option \<Rightarrow> nat \<Rightarrow> nat list \<Rightarrow> nat \<times> bool" where
  "pausable_timeout timeout fin now [] =
     (case fin of Some f \<Rightarrow> if f \<le> now + timeout then (f, True) else (now + timeout, False) | None \<Rightarrow> (now + timeout, False))"
| "pausable_timeout timeout fin now (p # pulses) =
     (case fin of
        Some f \<Rightarrow>
          if f \<le> p \<and> f \<le> now + timeout then (f, True)
          else if p \<le> now + timeout then pausable_timeout timeout fin p pulses
          else (now + timeout, False)
      | None \<Rightarrow> if p \<le> now + timeout then pausable_timeout timeout fin p pulses else (now + timeout, False))"

text \<open>\<open>approval_forwarder\<close>: the chunks that reach the parent; \<open>gone n\<close> says that the \<open>n\<close>th relay finds no receiver.\<close>

definition is_approval :: "ResponseChunk \<Rightarrow> bool" where
  "is_approval chunk = (case chunk of ToolApprovalRequest _ _ _ _ _ \<Rightarrow> True | _ \<Rightarrow> False)"

fun approval_forwarder :: "(nat \<Rightarrow> bool) \<Rightarrow> nat \<Rightarrow> ResponseChunk list \<Rightarrow> ResponseChunk list" where
  "approval_forwarder gone n [] = []"
| "approval_forwarder gone n (chunk # rest) =
     (if is_approval chunk then (if gone n then [] else chunk # approval_forwarder gone (Suc n) rest)
      else approval_forwarder gone n rest)"

lemma forwarder_relays: "\<exists>n. approval_forwarder gone k chunks = take n (filter is_approval chunks)"
proof (induction gone k chunks rule: approval_forwarder.induct)
  case (2 gone n chunk rest)
  show ?case
  proof (cases "is_approval chunk \<and> \<not> gone n")
    case True
    then obtain m where "approval_forwarder gone (Suc n) rest = take m (filter is_approval rest)" using 2(1) by blast
    with True show ?thesis by (intro exI [of _ "Suc m"]) simp
  next
    case False
    then show ?thesis using 2(2) by (auto intro: exI [of _ 0])
  qed
qed simp

lemma forwarder_relays_all: "(\<And>n. \<not> gone n) \<Longrightarrow> approval_forwarder gone k chunks = filter is_approval chunks"
  by (induction gone k chunks rule: approval_forwarder.induct) auto

text \<open>The clock: no call outlasts its pulses by more than one window, and a call that ends in time is never cut off.\<close>

lemma pausable_timeout_bounded: "fst (pausable_timeout timeout fin now pulses) \<le> now + timeout * Suc (length pulses)"
  by (induction timeout fin now pulses rule: pausable_timeout.induct) (force split: option.split)+

lemma pausable_timeout_completes:
  "sorted (now # pulses) \<Longrightarrow> f \<le> now + timeout \<Longrightarrow> snd (pausable_timeout timeout (Some f) now pulses)"
  by (induction timeout "Some f" now pulses rule: pausable_timeout.induct) auto

section \<open>What is delegated\<close>

lemma tag_free_append_last: "tag_free (s @ [c]) \<Longrightarrow> tag_free s"
  using tag_free_factor [of "[]" s "[c]"] by simp

lemma delegate_task_inert:
  assumes "delegate_task args = Some t"
  shows "tag_free t" and "length t \<le> 2 * MAX_TASK_CHARS + 13"
proof -
  have s: "tag_free (sanitize_delegate_input x)" "length (sanitize_delegate_input x) \<le> MAX_TASK_CHARS" for x
    by (simp_all add: sanitize_delegate_input_def tag_free_take strip_tool_tags_free)
  have joined: "tag_free (a @ [10, 10] @ lit ''[Context: '' @ b @ [93])" if "tag_free a" "tag_free b" for a b :: ustr
  proof -
    have "tag_free (a @ [10, 10])"
      using that(1) tag_free_snoc [of 10 "a @ [10]"] tag_free_snoc [of 10 a] by (simp add: GT_def)
    moreover have "tag_free (lit ''Context: '' @ b @ [93])"
      using that(2) by (simp add: tag_free_Cons tag_free_snoc LT_def GT_def)
    moreover have "(91::nat) \<notin> {LT, SLASH, GT, 95} \<union> Collect is_ascii_whitespace \<union> {65..90} \<union> {97..122}"
      by (simp add: LT_def SLASH_def GT_def is_ascii_whitespace_def)
    ultimately have "tag_free ((a @ [10, 10]) @ 91 # (lit ''Context: '' @ b @ [93]))"
      using tag_free_join [of 91 "a @ [10, 10]" "lit ''Context: '' @ b @ [93]"] by blast
    then show ?thesis by simp
  qed
  from assms show "tag_free t"
    using s(1) by (auto simp: delegate_task_def Let_def joined [simplified] split: option.splits if_splits)
  from assms show "length t \<le> 2 * MAX_TASK_CHARS + 13"
    using s(2) by (auto simp: delegate_task_def Let_def split: option.splits if_splits
        intro!: order.trans [OF add_mono [OF s(2) s(2)]] intro: order.trans [OF s(2)])
qed

section \<open>The budget of the optional parts\<close>

text \<open>The longest initial part of the items that fits; without one, nothing.\<close>

lemma fit_titled_spec:
  assumes "fit_titled title items n remaining = (block, rest)" and "n \<le> length items"
  shows "(\<exists>k \<in> {1..n}. block = [10, 10] @ titled_block title (take k items) \<and>
            estimate (titled_block title (take k items)) + rest = remaining \<and>
            (\<forall>j \<in> {k<..n}. estimate (titled_block title (take j items)) > remaining)) \<or>
         block = [] \<and> rest = remaining \<and> (\<forall>j \<in> {1..n}. estimate (titled_block title (take j items)) > remaining)"
  using assms
proof (induction title items n remaining rule: fit_titled.induct)
  case (2 title items kept remaining)
  show ?case
  proof (cases "estimate (titled_block title (take (Suc kept) items)) \<le> remaining")
    case True
    then show ?thesis using 2(2) by (intro disjI1 bexI [of _ "Suc kept"]) (auto simp: Let_def)
  next
    case False
    then have big: "estimate (titled_block title (take (Suc kept) items)) > remaining" by simp
    have "fit_titled title items kept remaining = (block, rest)" using False 2(2) by (simp add: Let_def)
    from 2(1) [OF refl False this Suc_leD [OF 2(3)]] show ?thesis
    proof (elim disjE)
      assume "\<exists>k \<in> {1..kept}. block = [10, 10] @ titled_block title (take k items) \<and>
            estimate (titled_block title (take k items)) + rest = remaining \<and>
            (\<forall>j \<in> {k<..kept}. estimate (titled_block title (take j items)) > remaining)"
      then obtain k where "k \<in> {1..Suc kept}" "block = [10, 10] @ titled_block title (take k items)"
        "estimate (titled_block title (take k items)) + rest = remaining"
        "\<forall>j \<in> {k<..Suc kept}. estimate (titled_block title (take j items)) > remaining"
        using big by (force simp: le_Suc_eq)
      then show ?thesis by blast
    next
      assume "block = [] \<and> rest = remaining \<and> (\<forall>j \<in> {1..kept}. estimate (titled_block title (take j items)) > remaining)"
      then show ?thesis using big by (intro disjI2) (force simp: le_Suc_eq)
    qed
  qed
qed simp

lemma estimate_mono: "length a \<le> length b \<Longrightarrow> estimate a \<le> estimate b"
  by (simp add: estimate_def div_le_mono)

lemma fit_block_fits:
  assumes "fit_titled_block title items remaining = (block, rest)"
  shows "estimate (drop 2 block) + rest = remaining"
    and "items \<noteq> [] \<Longrightarrow> estimate (titled_block title items) \<le> remaining \<Longrightarrow> block = [10, 10] @ titled_block title items"
proof -
  note spec = fit_titled_spec [OF assms [unfolded fit_titled_block_def] order.refl]
  have "estimate [] = 0" by (simp add: estimate_def)
  then show "estimate (drop 2 block) + rest = remaining" using spec by auto
  assume items: "items \<noteq> []" and fits: "estimate (titled_block title items) \<le> remaining"
  from spec show "block = [10, 10] @ titled_block title items"
  proof (elim disjE bexE conjE)
    fix k assume "k \<in> {1..length items}" "block = [10, 10] @ titled_block title (take k items)"
      "\<forall>j \<in> {k<..length items}. estimate (titled_block title (take j items)) > remaining"
    moreover from this fits have "k = length items"
      by (metis atLeastAtMost_iff greaterThanAtMost_iff le_neq_implies_less linorder_not_less order.refl take_all)
    ultimately show ?thesis by simp
  next
    assume "\<forall>j \<in> {1..length items}. estimate (titled_block title (take j items)) > remaining"
    from bspec [OF this, of "length items"] items fits show ?thesis by (simp add: Suc_le_eq)
  qed
qed

lemma fit_memory_spec:
  "kept \<noteq> [] \<Longrightarrow> \<exists>k \<in> {1..length kept}. fit_memory kept b = memory_text (take k kept) \<and>
     (k = 1 \<or> estimate (memory_text (take k kept)) \<le> b)"
proof (induction kept b rule: fit_memory.induct)
  case (1 kept b)
  show ?case
  proof (cases "estimate (memory_text kept) \<le> b \<or> length kept \<le> 1")
    case True
    then show ?thesis using "1.prems"
      by (intro bexI [of _ "length kept"]) (auto simp: fit_memory.simps [of kept] Suc_le_eq le_Suc_eq)
  next
    case False
    then have "butlast kept \<noteq> []" by (cases kept rule: rev_cases) auto
    from "1.IH" [OF False this] obtain k where "k \<in> {1..length (butlast kept)}"
      "fit_memory (butlast kept) b = memory_text (take k (butlast kept))"
      "k = 1 \<or> estimate (memory_text (take k (butlast kept))) \<le> b" by blast
    then show ?thesis using False
      by (intro bexI [of _ k]) (auto simp: fit_memory.simps [of kept] take_butlast)
  qed
qed

lemma memory_text_free:
  assumes "\<And>f. f \<in> set facts \<Longrightarrow> tag_free f"
  shows "tag_free (memory_text facts)"
proof -
  have dash: "(45::nat) \<notin> {LT, SLASH, GT, 95} \<union> Collect is_ascii_whitespace \<union> {65..90} \<union> {97..122}"
    by (simp add: LT_def SLASH_def GT_def is_ascii_whitespace_def)
  have "tag_free (x @ join_with [10] (map (\<lambda>f. lit ''- '' @ f) fs))"
    if "tag_free x" "\<forall>f \<in> set fs. tag_free f" for x fs
    using that
  proof (induction fs arbitrary: x)
    case (Cons f fs)
    have f: "tag_free (x @ 45 # 32 # f)"
      using Cons.prems tag_free_join [OF dash, of x "32 # f"] tag_free_Cons [of 32 f] by (simp add: LT_def)
    then have "tag_free ((x @ 45 # 32 # f) @ [10])" by (intro tag_free_snoc) (simp add: GT_def)
    from Cons.IH [OF this] Cons.prems f show ?case by (cases fs) simp_all
  qed simp
  moreover have "tag_free (lit ''## Relevant Memory'' @ [10])"
    by (simp add: tag_free_def find_next_tag.simps LT_def)
  ultimately show ?thesis using assms unfolding memory_text_def append_assoc [symmetric] by blast
qed

section \<open>Properties\<close>

lemma sub_turn_prompts:
  defines "sys req env \<equiv> \<lparr>msg_role = System, msg_content = sub_prompt env req\<rparr>"
  shows "\<exists>rounds. loop_done (sv_show env) (call_in (sv_from_str env)) (sub_limit req) (sys req env) []
     \<lparr>msg_role = User, msg_content = sq_task req\<rparr> rounds (sub_calls (snd (run_sub_turn env req))) (sb_prompts (snd (run_sub_turn env req)))"
  unfolding sys_def run_sub_turn_def by (rule sub.run_done [OF sub_start_inv])

text \<open>
  Property C37: A sub-turn makes at most as many tool calls as its limit allows, ten if the caller sets none, never
  the same twice in a row, and one model call more. Its n-th model call sees exactly the prompt, the task and the
  first n tool calls, each with the answer that asked for it and a result without tags: the conversation of the
  parent never reaches it, and nothing of its own is trimmed.
\<close>

theorem sub_turn_conversation:
  "length (sub_calls (snd (run_sub_turn env req))) \<le> unat (sub_limit req) \<and>
   length (sb_prompts (snd (run_sub_turn env req))) = Suc (length (sub_calls (snd (run_sub_turn env req)))) \<and>
   distinct_adj (map (known_call (sv_show env)) (sub_calls (snd (run_sub_turn env req)))) \<and>
   (\<exists>rounds. \<forall>n \<le> length (sub_calls (snd (run_sub_turn env req))).
      transcript (sv_show env) (call_in (sv_from_str env)) (take n (sub_calls (snd (run_sub_turn env req)))) (take (2 * n) rounds) \<and>
      sb_prompts (snd (run_sub_turn env req)) ! n =
        \<lparr>msg_role = System, msg_content = sub_prompt env req\<rparr> # \<lparr>msg_role = User, msg_content = sq_task req\<rparr> # take (2 * n) rounds)"
  using sub_turn_prompts [of env req] by (auto simp: loop_done_def conversation_def)


text \<open>
  The optional parts of a sub-agent's prompt share a quarter of the context window: the playbooks and
  the standards together never cost more, all playbooks are kept if they fit, and the memory part, made of facts
  without tags, stays within what is left unless it is down to a single fact.
\<close>

lemma optional_parts_budget:
  assumes "optional_blocks env req = (playbooks, standards, mem)"
  shows "estimate (drop 2 playbooks) + estimate (drop 2 standards) \<le> unat (sv_context_window env) div 4 \<and>
    (sub_playbooks env req \<noteq> [] \<and>
     estimate (titled_block (lit ''Playbooks'') (sub_playbooks env req)) \<le> unat (sv_context_window env) div 4 \<longrightarrow>
       playbooks = [10, 10] @ titled_block (lit ''Playbooks'') (sub_playbooks env req)) \<and>
    (mem \<noteq> [] \<longrightarrow>
       (\<exists>k. 1 \<le> k \<and> k \<le> SUB_TURN_MAX_FACTS \<and> mem = [10, 10] @ memory_text (take k (relevant_facts env (sq_task req))) \<and>
          tag_free (memory_text (take k (relevant_facts env (sq_task req)))) \<and>
          (k = 1 \<or> estimate (drop 2 playbooks) + estimate (drop 2 standards) + estimate (drop 2 mem)
                     \<le> unat (sv_context_window env) div 4)))"
proof -
  let ?b0 = "unat (sv_context_window env) div 4" and ?facts = "relevant_facts env (sq_task req)"
  obtain b1 b2 where p: "fit_titled_block (lit ''Playbooks'') (sub_playbooks env req) ?b0 = (playbooks, b1)"
    and s: "fit_titled_block (lit ''Standards'') (sub_standards env req) b1 = (standards, b2)"
    and m: "mem = (case build_memory_block ?facts b2 of None \<Rightarrow> [] | Some b \<Rightarrow> [10, 10] @ b)"
    using assms by (auto simp: optional_blocks_def Let_def split: prod.splits)
  note fit = fit_block_fits(1) [OF p] fit_block_fits(1) [OF s] fit_block_fits(2) [OF p]
  have "\<exists>k. 1 \<le> k \<and> k \<le> SUB_TURN_MAX_FACTS \<and> mem = [10, 10] @ memory_text (take k ?facts) \<and>
          tag_free (memory_text (take k ?facts)) \<and>
          (k = 1 \<or> estimate (drop 2 playbooks) + estimate (drop 2 standards) + estimate (drop 2 mem) \<le> ?b0)" if "mem \<noteq> []"
  proof -
    have f: "?facts \<noteq> []" and mem: "mem = [10, 10] @ fit_memory (take SUB_TURN_MAX_FACTS ?facts) b2"
      using that m by (auto simp: build_memory_block_def split: if_splits)
    have "take SUB_TURN_MAX_FACTS ?facts \<noteq> []" using f by (simp add: SUB_TURN_MAX_FACTS_def)
    from fit_memory_spec [OF this, of b2] obtain k where k0: "k \<in> {1..length (take SUB_TURN_MAX_FACTS ?facts)}" and k:
      "fit_memory (take SUB_TURN_MAX_FACTS ?facts) b2 = memory_text (take k (take SUB_TURN_MAX_FACTS ?facts))"
      "k = 1 \<or> estimate (memory_text (take k (take SUB_TURN_MAX_FACTS ?facts))) \<le> b2" by blast
    have k1: "1 \<le> k" "k \<le> SUB_TURN_MAX_FACTS" using k0 by simp_all
    then have "take k (take SUB_TURN_MAX_FACTS ?facts) = take k ?facts" by (simp add: min_absorb1)
    note k = k1 k [unfolded this]
    have "tag_free (memory_text (take k ?facts))"
      by (rule memory_text_free) (auto simp: relevant_facts_def strip_tool_tags_free dest!: in_set_takeD split: if_splits)
    then show ?thesis using k mem fit by (intro exI [of _ k]) auto
  qed
  then show ?thesis using fit by auto
qed

section \<open>A sample sub-turn\<close>

definition sample_sub_env :: sub_env where
  "sample_sub_env =
     \<lparr>sv_llm = \<lparr>lr_primary = Cloud ''u'' [''k''] ''m'', lr_fallback = None, lr_tier_clients = Map.empty,
                lr_default_model = ''m'', lr_tier_model_names = Map.empty, lr_cost_quality = 7\<rparr>,
      sv_context_window = 8192,
      sv_answers = (\<lambda>_. \<lparr>ans_first = \<lambda>_. Inr ''a<tool_call>1</tool_call>'', ans_fallback = \<lambda>_. Inr ''''\<rparr>),
      sv_from_str = sample_from_str, sv_show = (\<lambda>_. ''{}''), sv_tools = [(lit ''now'', lit ''the time'')],
      sv_registry = example_registry, sv_gate = broker_new, sv_call = (\<lambda>_. example_env),
      sv_result_text = (\<lambda>_. lit ''?''), sv_search_hybrid = (\<lambda>_. [lit ''likes tea'']),
      sv_authored_playbooks = (\<lambda>_ _. [(lit ''p'', lit ''do it'')]), sv_synthesized_playbooks = (\<lambda>_ _. []),
      sv_authored_standards = [], sv_overlay_standards = []\<rparr>"

definition sample_delegate :: DelegateTool where
  "sample_delegate = \<lparr>dt_system_prompt = lit ''research'', dt_domain_name = ''researcher'', dt_max_depth = 2, dt_model_tier = None\<rparr>"

definition sample_args :: json where
  "sample_args = JObj [(''task'', JStr ''find <x>''), (''context'', JStr ''now'')]"

definition sample_task :: ustr where
  "sample_task = lit ''find <x>'' @ [10, 10] @ lit ''[Context: now]''"

lemma sample_body: "text_of ''a<tool_call>1</tool_call>'' = sample_answer"
  by code_simp

lemma sample_sub_step:
  "sub_step sample_sub_env None st =
     (let msgs = refit (tb_new 8192) (sb_messages st) (sb_pinned st); st1 = st\<lparr>sb_messages := msgs, sb_prompts := sb_prompts st @ [msgs]\<rparr>
      in case lg_check (sb_guard st) ''now'' ''{}'' of
           Inl _ \<Rightarrow> Inl (Inr [97], st1\<lparr>sb_messages := msgs @ [\<lparr>msg_role = Assistant, msg_content = sample_answer\<rparr>]\<rparr>)
         | Inr guard \<Rightarrow> Inr (sub_call sample_sub_env st1 guard sample_answer ''now'' (JObj [])))"
proof -
  have c: "fst (complete_tiered (sv_answers sample_sub_env k) (sv_llm sample_sub_env) None) = Inr ''a<tool_call>1</tool_call>''"
    "sv_context_window sample_sub_env = 8192" "sv_from_str sample_sub_env = sample_from_str" "sv_show sample_sub_env v = ''{}''" for k v
    by (simp_all add: sample_sub_env_def complete_tiered_def router_complete_def ask_def)
  show ?thesis
    unfolding sub_step_def Let_def c sum.case sample_body sample_parse option.case prod.case sample_markup ..
qed

lemma sample_sub_run:
  assumes "sq_model_tier req = None" and "sq_max_tool_calls req = None"
  shows "fst (run_sub_turn sample_sub_env req) = Inr [97]" and "sub_calls (snd (run_sub_turn sample_sub_env req)) = [(''now'', JObj [])]"
proof -
  obtain g where g: "lg_check lg_new ''now'' ''{}'' = Inr g" "lg_last g = Some (''now'', ''{}'')"
    by (simp add: lg_check_def lg_new_def MAX_TOOL_CALLS_def)
  then obtain e where g': "lg_check g ''now'' ''{}'' = Inl e" by (auto simp: lg_check_def)
  let ?init = "sub_start sample_sub_env req"
  let ?msgs = "refit (tb_new 8192) (sb_messages ?init) (sb_pinned ?init)"
  let ?st = "?init\<lparr>sb_messages := ?msgs, sb_prompts := sb_prompts ?init @ [?msgs]\<rparr>"
  define st1 where "st1 = sub_call sample_sub_env ?st g sample_answer ''now'' (JObj [])"
  have start: "sb_guard ?init = lg_new" by (simp add: sub_start_def assms(2))
  have s1: "sub_step sample_sub_env None ?init = Inr st1"
    unfolding sample_sub_step Let_def start g(1) sum.case st1_def ..
  have "sb_guard st1 = g" "sub_calls st1 = [(''now'', JObj [])]"
    using sub_call_fields [of sample_sub_env ?st g sample_answer "''now''" "JObj []"]
    by (auto simp: st1_def sub_calls_def sub_start_def)
  moreover from this g' obtain st2 where s2: "sub_step sample_sub_env None st1 = Inl (Inr [97], st2)"
    by (simp add: sample_sub_step Let_def)
  moreover from sub_step_stops [OF s2] have "sub_calls st2 = sub_calls st1" ..
  ultimately show "fst (run_sub_turn sample_sub_env req) = Inr [97]" "sub_calls (snd (run_sub_turn sample_sub_env req)) = [(''now'', JObj [])]"
    by (simp_all add: run_sub_turn_def assms(1) sub_loop.simps [of _ _ ?init] sub_loop.simps [of _ _ st1] s1)
qed

lemma sample_delegate_task: "delegate_task sample_args = Some sample_task"
proof -
  have "text_of ''find <x>'' = lit ''find <x>''" "text_of ''now'' = lit ''now''" by code_simp+
  moreover have "trim (lit ''find <x>'') = lit ''find <x>''" by (simp add: trim_def is_whitespace_def)
  moreover have "tag_free (lit ''find <x>'')" "tag_free (lit ''now'')" by (simp_all add: tag_free_def tag_eval)
  ultimately show ?thesis
    by (simp add: delegate_task_def sample_args_def sample_task_def sanitize_delegate_input_def strip_tool_tags_id MAX_TASK_CHARS_def)
qed

definition sample_sub_request :: SubTurnRequest where
  "sample_sub_request = sub_request sample_delegate example_ctx Deep sample_task"

theorem sub_turn_conversation_witness:
  "fst (run_sub_turn sample_sub_env sample_sub_request) = Inr [97] \<and> length (sb_prompts (snd (run_sub_turn sample_sub_env sample_sub_request))) = 2 \<and>
     (\<exists>rounds. sb_prompts (snd (run_sub_turn sample_sub_env sample_sub_request)) ! 1 =
        \<lparr>msg_role = System, msg_content = sub_prompt sample_sub_env sample_sub_request\<rparr> # \<lparr>msg_role = User, msg_content = sample_task\<rparr> # take 2 rounds)"
proof -
  have run: "fst (run_sub_turn sample_sub_env sample_sub_request) = Inr [97]" "sub_calls (snd (run_sub_turn sample_sub_env sample_sub_request)) = [(''now'', JObj [])]"
    by (rule sample_sub_run; simp add: sample_sub_request_def sub_request_def sample_delegate_def)+
  from sub_turn_conversation [of sample_sub_env sample_sub_request] obtain rounds where
    len: "length (sb_prompts (snd (run_sub_turn sample_sub_env sample_sub_request))) = 2" and
    "\<forall>n \<le> 1. transcript (sv_show sample_sub_env) (call_in (sv_from_str sample_sub_env)) (take n [(''now'', JObj [])]) (take (2 * n) rounds) \<and>
      sb_prompts (snd (run_sub_turn sample_sub_env sample_sub_request)) ! n =
        \<lparr>msg_role = System, msg_content = sub_prompt sample_sub_env sample_sub_request\<rparr> # \<lparr>msg_role = User, msg_content = sq_task sample_sub_request\<rparr> # take (2 * n) rounds"
    unfolding run(2) by auto
  from spec [OF this(2), of 1] len run(1) show ?thesis by (auto simp: sample_sub_request_def sub_request_def)
qed


definition sample_long_request :: SubTurnRequest where
  "sample_long_request = sub_request sample_delegate example_ctx Normal (replicate 200 97)"

lemma optional_parts_budget_witness:
  "\<exists>playbooks standards k. optional_blocks sample_sub_env sample_long_request =
       (playbooks, standards, [10, 10] @ memory_text (take k (relevant_facts sample_sub_env (replicate 200 97)))) \<and>
     k \<ge> 1 \<and> estimate (drop 2 playbooks) + estimate (drop 2 standards) \<le> 2048"
proof -
  obtain playbooks standards mem where o: "optional_blocks sample_sub_env sample_long_request = (playbooks, standards, mem)"
    by (metis prod.exhaust)
  have w: "unat (sv_context_window sample_sub_env) div 4 = 2048" by (simp add: sample_sub_env_def)
  have task: "sq_task sample_long_request = replicate 200 97" by (simp add: sample_long_request_def sub_request_def)
  have "relevant_facts sample_sub_env (replicate 200 97) \<noteq> []"
    by (simp add: relevant_facts_def sample_sub_env_def TRIVIAL_TASK_CHAR_THRESHOLD_def)
  then have "mem \<noteq> []"
    using o by (auto simp: optional_blocks_def Let_def build_memory_block_def task split: prod.splits)
  with optional_parts_budget [OF o] show ?thesis using o unfolding w task by auto
qed

section \<open>Deviations\<close>

text \<open>
  Names and bodies are cleaned one by one and joined by a line break, and blanks are allowed after the opening
  bracket of a tag: a name that ends with the bracket and a body that goes on with the tag's name make a tag.
\<close>

lemma heading_joins_tag:
  "tag_free (lit ''x<'') \<and> tag_free (lit ''tool_call> y'') \<and> \<not> tag_free (titled_item (lit ''x<'', lit ''tool_call> y''))"
  by (simp add: titled_item_def tag_free_def tag_eval)

text \<open>A single fact is kept whatever it costs.\<close>

lemma memory_block_exceeds: "\<exists>b. build_memory_block [replicate 100 97] 0 = Some b \<and> estimate b > 0"
  by (simp add: build_memory_block_def SUB_TURN_MAX_FACTS_def fit_memory.simps estimate_def memory_text_def)

text \<open>When the parent is gone the forwarder stops at the next approval request and relays nothing more.\<close>

lemma forwarder_stops: "approval_forwarder (\<lambda>n. n = 0) 0 (chunks @ more_chunks) = []"
proof -
  have "approval_forwarder (\<lambda>n. n = 0) 0 cs = []" for cs
    by (induction "\<lambda>n. n = (0::nat)" "0::nat" cs rule: approval_forwarder.induct) auto
  then show ?thesis .
qed

end
