(* ===== verification/Spec2Isabelle.thy ===== *)
theory Spec2Isabelle
  imports LinkProtocol MobileGuard PairingFlow BindPolicy ProactiveCards MobileServer TextStream RunEvents
    ToolDispatch LlmRouting ConnectorUndo TokenBudget
    WebText ConnectorManifest Reconcile BuildPipeline AgentTurn SubTurn
begin

text \<open>
  Haily is a personal assistant that runs on a desktop: an agent core (\<open>crates/haily-core\<close>) talks to
  model backends (\<open>crates/haily-llm\<close>), runs tools (\<open>crates/haily-tools\<close>) behind an approval gate, and serves
  its user over several adapters (\<open>crates/haily-io\<close>), of which the mobile one is reached over the network
  by a phone (\<open>crates/haily-mobile-client\<close>). This development models the parts whose failure would hurt
  the user: who may act, what is executed, what reaches whom, and what is lost on the way.

  \<^bold>\<open>Parts and theories.\<close>
  \<^item> \<open>Prelude\<close>: widths of integers, time, concurrent maps (\<open>DashMap\<close>) as finite maps with the contract
    \<open>keyed_store\<close>, shared lemmas.
  \<^item> \<open>WireTypes\<close>: \<open>crates/haily-types\<close>, the frames and bodies of the mobile protocol.
  \<^item> \<open>RingBuffer\<close>, \<open>DeviceWriter\<close>, \<open>ResumeClient\<close>, \<open>LinkProtocol\<close>: the resumable link. \<open>RingBuffer\<close> states the
    contract of a replay log as a locale and interprets it on \<open>mobile/ring_buffer.rs\<close>; \<open>DeviceWriter\<close> is the
    task of \<open>mobile/writer.rs\<close>; \<open>ResumeClient\<close> is \<open>haily-mobile-client/src/reconnect.rs\<close>; \<open>LinkProtocol\<close>
    composes them with a lossy link and proves exactly-once delivery up to resynchronisation.
  \<^item> \<open>RateWindow\<close>, \<open>MobileGuard\<close>: \<open>mobile/guard.rs\<close>. The fixed window limiter is a locale, interpreted on the
    inbound limiter and on the pairing limiter.
  \<^item> \<open>PairingService\<close>, \<open>PairingFlow\<close>: \<open>mobile/pairing.rs\<close> and the \<open>/pair\<close> handler, with parked requests as
    a step relation.
  \<^item> \<open>BindPolicy\<close>: \<open>mobile/bind.rs\<close> and the listener loop. \<open>ProactiveCards\<close>: \<open>proactive_cards.rs\<close>.
  \<^item> \<open>MobileServer\<close>: the adapter's state (\<open>mobile/mod.rs\<close>) and the connection and frame handlers
    (\<open>mobile/server.rs\<close>) as one step function over events of many devices.
  \<^item> \<open>ToolTags\<close>, \<open>TextStream\<close>, \<open>RunEvents\<close>: the tag grammar (\<open>tag_matcher.rs\<close>), parser and sanitisers
    (\<open>tool_call.rs\<close>, \<open>delegate.rs\<close>), the streaming hold-back (\<open>agent/stream.rs\<close>), and the sanitising of run events
    (\<open>run_event.rs\<close>, \<open>manager.rs\<close>).
  \<^item> \<open>ApprovalBroker\<close>, \<open>ToolDispatch\<close>: \<open>approval.rs\<close> as interleaved tasks, the dispatch gate and loop guard of
    \<open>tool_call.rs\<close>, the allowlist validation of \<open>haily-app/src/auto_approve.rs\<close>.
  \<^item> \<open>KeyRotation\<close>, \<open>LlmRouting\<close>: the circuit breaker and key rotation of the cloud client, the model router,
    its fallback, the escalation policy and the turn's rescue step. \<open>TokenBudget\<close>: \<open>haily-core/src/budget.rs\<close>.
  \<^item> \<open>Json\<close>, \<open>LocalJournal\<close>, \<open>LocalUndo\<close>, \<open>ConnectorUndo\<close>: the action journal (\<open>haily-db/src/queries/journal.rs\<close>), the
    journaled write of local tools (\<open>local_snapshot.rs\<close>) with tables as maps from ids to rows, and the undo of
    local writes and of connector writes (\<open>haily-tools/src/journal_undo\<close>), alone and in groups. \<open>Reconcile\<close>: the
    sweep at start-up over the rows a crash left open (\<open>journal_undo/reconcile.rs\<close>).
  \<^item> \<open>SsrfGuard\<close>, \<open>WebText\<close>: \<open>haily-tools/src/security.rs\<close> and \<open>v1/web.rs\<close>: the addresses a tool may reach,
    redirects, the plain text of pages, headers, paths.
  \<^item> \<open>ConnectorData\<close>, \<open>ConnectorManifest\<close>: redaction and read-back comparison, and the approved manifest with
    the comparison of its versions (\<open>haily-tools/src/connector\<close>). \<open>ConnectorProtocol\<close>, \<open>ConnectorHttp\<close>,
    \<open>ConnectorWrite\<close>: the interpreter of manifests (\<open>connector/protocol\<close>, \<open>odoo_fault.rs\<close>), the requests with their
    credentials, and the journaled write of \<open>http_connector_tool.rs\<close>.
  \<^item> \<open>Utf8\<close>, \<open>VerifierOutput\<close>, \<open>PipelineStages\<close>, \<open>PipelineRunner\<close>, \<open>PipelineSafety\<close>: bytes and text; the lines of
    verifier output that reach the model; the stages and the runs table of a coding pipeline; the runner
    (\<open>haily-core/src/pipeline/runner.rs\<close>); and what holds of its runs.
  \<^item> \<open>BuildFindings\<close>, \<open>Exemplars\<close>, \<open>Judge\<close>, \<open>BuildPipeline\<close>: the build of a plan out of such runs
    (\<open>pipeline/build_pipeline\<close>): review findings and the guard against weakened tests, the exemplars of a prompt
    (\<open>exemplar.rs\<close>), the refuters and the design panel (\<open>judge.rs\<close>), the fix loop and the ship run.
  \<^item> \<open>Conversation\<close>: sessions, messages and work items (\<open>haily-db/src/queries\<close>) and the messages a turn starts from
    (\<open>context.rs\<close>). \<open>TurnRouting\<close>: what a turn reads from the user's message, and its tier
    (\<open>feedback_parser.rs\<close>, \<open>depth.rs\<close>, \<open>tier_intent.rs\<close>, \<open>coding_intent.rs\<close>, \<open>routing.rs\<close>).
  \<^item> \<open>ToolLoop\<close>, \<open>AgentTurn\<close>, \<open>SubTurn\<close>: the loop of model calls and tool calls as a locale, interpreted on the
    turn of \<open>agent/turn.rs\<close> and on the sub-turn of \<open>agent/sub_turn.rs\<close> with the delegation of \<open>delegate.rs\<close>.

  \<^bold>\<open>How code becomes definitions.\<close> A struct is a record, an enum a datatype, a method a function that
  returns the new state; errors and early returns are values. Unsigned integers keep their width where
  they can wrap. Strings whose characters matter are lists of code points (\<open>ustr\<close>), others HOL strings.
  Time is a natural number of nanoseconds. Random numbers, sockets, model answers and tools are arguments.
  Code that runs concurrently is an inductive step relation over its atomic steps, and properties hold in
  every reachable state; elsewhere an operation is one step, as the code holds its locks across it.
  Recursion is structural or has a measure; no fuel is used.

  \<^bold>\<open>What the properties show.\<close> Sessions are isolated between devices and revocation cuts a device off; no
  token is issued without confirmation; approvals are granted by their own session and under the
  operator's policy; no write passes the gate; tool calls are neither shown to the user nor smuggled in
  by untrusted text; a resumed link neither loses nor repeats frames; limits on rates, loops, deletes,
  retries and buffers hold; routing agrees with what it reports; an undo restores what was written, acts only
  on an unchanged record of its own session, and compensates at most three times; a connector's key reaches its
  own host only, and every write of a connector is recorded before it is sent and settled afterwards; a
  pipeline run keeps its order and its budget, ends settled, and feeds verifier output to the model as quoted
  data; a build ships only what was reviewed and whose critical findings were refuted or fixed; every model call of a turn sees the calls of the turn so far and nothing that could be taken for
  a call; a turn ends with its work item settled, and a delegated task is inert and bounded in depth.

  \<^bold>\<open>Not modelled.\<close> The SQL that none of these parts uses and the retrieval over it in \<open>haily-kms\<close>, the telemetry
  rows written after a turn, the history of review findings, the plan pipeline that composes other stage lists, bindings to llama.cpp, HTTP and SSE, drivers of external processes (browser, LSP,
  shell), front ends and start-up code, whose behaviour is that of code outside the repository.
\<close>

end
